(* ===== verification/Prelude.thy ===== *)
theory Prelude
  imports Complex_Main "HOL-Library.AList"
begin

text \<open>
  Shared vocabulary of the development.

  JavaScript values are modelled as follows.  A string is a \<open>string\<close> (a list of 8-bit
  characters, the Latin-1 range that HTTP headers and identifiers use); \<open>null\<close> and
  \<open>undefined\<close> are \<open>None\<close> where the code does not tell them apart and the constructors of
  \<open>js\<close> where it does; a \<open>Map\<close> is an association list in insertion order, whose \<open>set\<close>
  and \<open>delete\<close> are \<open>AList.update\<close> and \<open>AList.delete\<close> (a \<open>set\<close> of a present key keeps its
  position, a new key goes to the end); numbers are \<open>int\<close>, or \<open>rat\<close> where the code divides;
  the clock \<open>Date.now()\<close> is an argument, in milliseconds.

  The theory also holds the interface \<open>kv_store\<close> that the stores of the program share (the
  in-memory maps here, the Redis key space in theory \<open>Redis\<close>) and the facts about it that the
  clients (sessions, OAuth codes and tokens, caches) use.
\<close>

section \<open>Collections of rules\<close>

named_theorems store_simps \<open>reading a store after an update\<close>
named_theorems guard_simps \<open>truthiness and nullish tests\<close>

section \<open>Null, undefined, truthiness\<close>

datatype 'a js = Undef | Null | Val 'a

definition truthy :: "string option \<Rightarrow> bool" where
  "truthy x \<longleftrightarrow> (case x of None \<Rightarrow> False | Some s \<Rightarrow> s \<noteq> [])"

definition js_or :: "string option \<Rightarrow> string option \<Rightarrow> string option" where
  "js_or a b = (if truthy a then a else b)"

definition nullish :: "'a option \<Rightarrow> 'a option \<Rightarrow> 'a option" where
  "nullish a b = (case a of None \<Rightarrow> b | Some v \<Rightarrow> Some v)"

definition nullish_to :: "'a option \<Rightarrow> 'a \<Rightarrow> 'a" where
  "nullish_to a b = (case a of None \<Rightarrow> b | Some v \<Rightarrow> v)"

lemma truthy_simps [simp, guard_simps]:
  "\<not> truthy None" "truthy (Some s) \<longleftrightarrow> s \<noteq> []"
  by (simp_all add: truthy_def)

lemma truthyE: "truthy x \<Longrightarrow> (\<And>s. x = Some s \<Longrightarrow> s \<noteq> [] \<Longrightarrow> P) \<Longrightarrow> P"
  by (cases x) auto

lemma js_or_simps [simp, guard_simps]:
  "js_or None b = b" "js_or (Some s) b = (if s = [] then b else Some s)"
  by (simp_all add: js_or_def)

lemma nullish_simps [simp, guard_simps]:
  "nullish None b = b" "nullish (Some v) b = Some v"
  "nullish_to None d = d" "nullish_to (Some v) d = v"
  by (simp_all add: nullish_def nullish_to_def)

section \<open>Strings\<close>

definition js_space :: "char \<Rightarrow> bool" where
  "js_space c \<longleftrightarrow> c \<in> {CHR '' '', CHR 0x09, CHR 0x0A, CHR 0x0B, CHR 0x0C, CHR 0x0D, CHR 0xA0}"

definition js_trim :: "string \<Rightarrow> string" where
  "js_trim s = rev (dropWhile js_space (rev (dropWhile js_space s)))"

definition to_lower :: "char \<Rightarrow> char" where
  "to_lower c = (let n = (of_char c :: nat) in if 65 \<le> n \<and> n \<le> 90 then char_of (n + 32) else c)"

text \<open>\<open>toLowerCase\<close> on the Latin-1 range.\<close>

definition js_lower :: "char \<Rightarrow> char" where
  "js_lower c = (let n = (of_char c :: nat) in
     if 65 \<le> n \<and> n \<le> 90 \<or> 192 \<le> n \<and> n \<le> 214 \<or> 216 \<le> n \<and> n \<le> 222 then char_of (n + 32) else c)"

fun starts_with :: "'a list \<Rightarrow> 'a list \<Rightarrow> bool" where
  "starts_with [] s = True"
| "starts_with (p # ps) [] = False"
| "starts_with (p # ps) (c # s) = (p = c \<and> starts_with ps s)"

lemma starts_with_iff: "starts_with p s \<longleftrightarrow> (\<exists>r. s = p @ r)"
  by (induction p s rule: starts_with.induct) auto

fun contains :: "'a list \<Rightarrow> 'a list \<Rightarrow> bool" where
  "contains p [] = (p = [])"
| "contains p (c # s) = (starts_with p (c # s) \<or> contains p s)"

lemma contains_iff: "contains p s \<longleftrightarrow> (\<exists>l r. s = l @ p @ r)"
proof (induction s)
  case Nil
  then show ?case by auto
next
  case (Cons c s)
  have "(\<exists>l r. c # s = l @ p @ r) \<longleftrightarrow> (\<exists>r. c # s = p @ r) \<or> (\<exists>l r. s = l @ p @ r)"
    by (metis append_Cons append_Nil append_eq_Cons_conv)
  then show ?case using Cons by (simp add: starts_with_iff)
qed

fun nat_digits :: "nat \<Rightarrow> string" where
  "nat_digits n = (if n < 10 then [char_of (48 + n)] else nat_digits (n div 10) @ [char_of (48 + n mod 10)])"

declare nat_digits.simps [simp del]

section \<open>Lists\<close>

lemma dropWhile_sorted_filter:
  "sorted xs \<Longrightarrow> dropWhile (\<lambda>t. t \<le> c) xs = filter (\<lambda>t. c < t) (xs :: int list)"
proof (induction xs)
  case Nil
  then show ?case by simp
next
  case (Cons x xs)
  then show ?case
    by (cases "x \<le> c") (auto simp: filter_id_conv eq_commute [of xs])
qed

lemma length_filter_mono:
  "(\<And>x. x \<in> set xs \<Longrightarrow> P x \<Longrightarrow> Q x) \<Longrightarrow> length (filter P xs) \<le> length (filter Q xs)"
  by (induction xs) auto

section \<open>Rounding up\<close>

text \<open>\<open>Math.ceil(a / b)\<close> on integers.\<close>

definition ceil_div :: "int \<Rightarrow> int \<Rightarrow> int" where
  "ceil_div a b = - ((- a) div b)"

lemma ceil_div_bounds:
  assumes "0 < b"
  shows "a \<le> ceil_div a b * b" and "ceil_div a b * b < a + b"
proof -
  define q r where "q = (- a) div b * b" and "r = (- a) mod b"
  have "q + r = - a" unfolding q_def r_def by (rule div_mult_mod_eq)
  moreover have "0 \<le> r" "r < b" using assms by (simp_all add: r_def)
  moreover have "ceil_div a b * b = - q" by (simp add: ceil_div_def q_def)
  ultimately show "a \<le> ceil_div a b * b" "ceil_div a b * b < a + b" by linarith+
qed

section \<open>The interface of a keyed store\<close>

text \<open>
  What the clients rely on: a read returns the last value written under that key and not
  deleted since.  \<open>ok\<close> is the condition under which the store works (always, for a map in
  memory; a live connection, for Redis), and the operations keep it.
\<close>

locale kv_store =
  fixes ok :: "'s \<Rightarrow> bool"
    and get :: "'s \<Rightarrow> 'k \<Rightarrow> 'v option"
    and put :: "'k \<Rightarrow> 'v \<Rightarrow> 's \<Rightarrow> 's"
    and del :: "'k \<Rightarrow> 's \<Rightarrow> 's"
  assumes get_put: "ok s \<Longrightarrow> get (put k v s) k' = (if k' = k then Some v else get s k')"
    and get_del: "ok s \<Longrightarrow> get (del k s) k' = (if k' = k then None else get s k')"
    and ok_put: "ok s \<Longrightarrow> ok (put k v s)"
    and ok_del: "ok s \<Longrightarrow> ok (del k s)"
begin

lemmas laws = get_put get_del ok_put ok_del

lemma get_put_same: "ok s \<Longrightarrow> get (put k v s) k = Some v"
  by (simp add: get_put)

lemma get_del_same: "ok s \<Longrightarrow> get (del k s) k = None"
  by (simp add: get_del)

lemma ok_fold_del: "ok s \<Longrightarrow> ok (fold del ks s)"
  by (induction ks arbitrary: s) (auto simp: ok_del)

lemma get_fold_del: "ok s \<Longrightarrow> get (fold del ks s) k = (if k \<in> set ks then None else get s k)"
  by (induction ks arbitrary: s) (auto simp: get_del ok_del)

text \<open>Replacing one entry by a fresh one (rotation): the old key is gone, the new one is there.\<close>

lemma rotate:
  assumes "ok s" and "new \<noteq> old"
  shows "get (del old (put new v s)) old = None" and "get (del old (put new v s)) new = Some v"
    and "k \<noteq> old \<Longrightarrow> k \<noteq> new \<Longrightarrow> get (del old (put new v s)) k = get s k"
  using assms by (auto simp: laws)

end

text \<open>The in-memory \<open>Map\<close> of the program.\<close>

type_synonym ('k, 'v) jsmap = "('k \<times> 'v) list"

interpretation js_map: kv_store "\<lambda>_. True" map_of AList.update AList.delete
  by unfold_locales (auto simp: update_conv' delete_conv')

lemmas js_map_simps [store_simps] = js_map.get_put [OF TrueI] js_map.get_del [OF TrueI]

lemma map_of_filter_fst:
  "map_of (filter (\<lambda>p. P (fst p)) m) k = (if P k then map_of m k else None)"
  by (induction m) auto

lemma find_SomeD: "find P xs = Some x \<Longrightarrow> x \<in> set xs \<and> P x"
  by (induction xs) (auto split: if_splits)

end
