(* ===== verification/Redis.thy ===== *)
theory Redis
  imports Prelude
begin

text \<open>
  The Redis wrappers of \<open>lib/redis.js\<close> that the other components use: sessions, OAuth codes
  and tokens, the token-to-session index.

  Redis itself is a service; what the wrappers rely on is its documented behaviour: \<open>SETEX\<close>
  stores a value that disappears after the given number of seconds, \<open>EXPIRE\<close> resets that time
  of a live key, \<open>GET\<close> returns the live value, \<open>DEL\<close> removes it, and every command fails when
  the connection is down.  The flag \<open>up\<close> is the connection, and a wrapper that catches the
  failure returns \<open>False\<close> or \<open>None\<close> and leaves the data alone.  \<open>JSON.stringify\<close> and
  \<open>JSON.parse\<close> are inverse on the plain records stored here, so the model stores the record.

  The key space shares one type of values per kind of key; the prefixes keep the kinds apart,
  which \<open>redis_keys_disjoint\<close> states.
\<close>

record 'v redis =
  up :: bool
  data :: "(string, 'v \<times> int) jsmap"

definition empty_redis :: "'v redis" where
  "empty_redis = \<lparr>up = True, data = []\<rparr>"

section \<open>The commands used\<close>

definition redis_get :: "int \<Rightarrow> 'v redis \<Rightarrow> string \<Rightarrow> 'v option" where
  "redis_get now r k =
     (case map_of (data r) k of
        None \<Rightarrow> None
      | Some (v, expiry) \<Rightarrow> if now < expiry then Some v else None)"

definition redis_setex :: "int \<Rightarrow> string \<Rightarrow> int \<Rightarrow> 'v \<Rightarrow> 'v redis \<Rightarrow> 'v redis" where
  "redis_setex now k ttlSeconds v r = r\<lparr>data := AList.update k (v, now + ttlSeconds * 1000) (data r)\<rparr>"

definition redis_del :: "string \<Rightarrow> 'v redis \<Rightarrow> 'v redis" where
  "redis_del k r = r\<lparr>data := AList.delete k (data r)\<rparr>"

definition redis_expire :: "int \<Rightarrow> string \<Rightarrow> int \<Rightarrow> 'v redis \<Rightarrow> 'v redis" where
  "redis_expire now k ttlSeconds r =
     (case redis_get now r k of
        None \<Rightarrow> r
      | Some v \<Rightarrow> redis_setex now k ttlSeconds v r)"

section \<open>Keys\<close>

definition getSessionKey :: "string \<Rightarrow> string" where
  "getSessionKey sessionId = ''session:'' @ sessionId"

definition getOAuthCodeKey :: "string \<Rightarrow> string" where
  "getOAuthCodeKey code = ''oauth:code:'' @ code"

definition getOAuthTokenKey :: "string \<Rightarrow> string" where
  "getOAuthTokenKey token = ''oauth:token:'' @ token"

definition getTokenSessionKey :: "string \<Rightarrow> string" where
  "getTokenSessionKey tokenKey = ''token_session:'' @ tokenKey"

lemma redis_keys_disjoint:
  "getOAuthCodeKey a \<noteq> getOAuthTokenKey b" "getSessionKey a \<noteq> getOAuthCodeKey b"
  "getSessionKey a \<noteq> getOAuthTokenKey b" "getTokenSessionKey a \<noteq> getSessionKey b"
  "getTokenSessionKey a \<noteq> getOAuthTokenKey b" "getTokenSessionKey a \<noteq> getOAuthCodeKey b"
  by (simp_all add: getOAuthCodeKey_def getOAuthTokenKey_def getSessionKey_def getTokenSessionKey_def)

lemma redis_keys_inj [simp]:
  "getSessionKey a = getSessionKey b \<longleftrightarrow> a = b"
  "getOAuthCodeKey a = getOAuthCodeKey b \<longleftrightarrow> a = b"
  "getOAuthTokenKey a = getOAuthTokenKey b \<longleftrightarrow> a = b"
  "getTokenSessionKey a = getTokenSessionKey b \<longleftrightarrow> a = b"
  by (simp_all add: getOAuthCodeKey_def getOAuthTokenKey_def getSessionKey_def getTokenSessionKey_def)

section \<open>The wrappers\<close>

definition saveSession :: "int \<Rightarrow> string \<Rightarrow> 'v \<Rightarrow> int \<Rightarrow> 'v redis \<Rightarrow> bool \<times> 'v redis" where
  "saveSession now sessionId sessionData ttlSeconds r =
     (if up r then (True, redis_setex now (getSessionKey sessionId) ttlSeconds sessionData r)
      else (False, r))"

definition getSession :: "int \<Rightarrow> string \<Rightarrow> 'v redis \<Rightarrow> 'v option" where
  "getSession now sessionId r = (if up r then redis_get now r (getSessionKey sessionId) else None)"

definition deleteSession :: "string \<Rightarrow> 'v redis \<Rightarrow> bool \<times> 'v redis" where
  "deleteSession sessionId r =
     (if up r then (True, redis_del (getSessionKey sessionId) r) else (False, r))"

definition extendSessionTTL :: "int \<Rightarrow> string \<Rightarrow> int \<Rightarrow> 'v redis \<Rightarrow> bool \<times> 'v redis" where
  "extendSessionTTL now sessionId ttlSeconds r =
     (if up r then (True, redis_expire now (getSessionKey sessionId) ttlSeconds r) else (False, r))"

definition bindTokenToSession :: "int \<Rightarrow> string \<Rightarrow> string \<Rightarrow> int \<Rightarrow> string redis \<Rightarrow> bool \<times> string redis" where
  "bindTokenToSession now tokenKey sessionId ttlSeconds r =
     (if up r then (True, redis_setex now (getTokenSessionKey tokenKey) ttlSeconds sessionId r)
      else (False, r))"

definition getSessionIdByToken :: "int \<Rightarrow> string \<Rightarrow> string redis \<Rightarrow> string option" where
  "getSessionIdByToken now tokenKey r =
     (if up r then js_or (redis_get now r (getTokenSessionKey tokenKey)) None else None)"

definition unbindToken :: "string \<Rightarrow> string redis \<Rightarrow> bool \<times> string redis" where
  "unbindToken tokenKey r =
     (if up r then (True, redis_del (getTokenSessionKey tokenKey) r) else (False, r))"

definition saveOAuthCode :: "int \<Rightarrow> string \<Rightarrow> 'v \<Rightarrow> int \<Rightarrow> 'v redis \<Rightarrow> bool \<times> 'v redis" where
  "saveOAuthCode now code codeData ttlSeconds r =
     (if up r then (True, redis_setex now (getOAuthCodeKey code) ttlSeconds codeData r) else (False, r))"

text \<open>
  \<open>consumeOAuthCode\<close> is two commands with an \<open>await\<close> between them: a read, and a delete when
  the read found something.  \<open>consumeOAuthCode\<close> is the two in sequence.
\<close>

definition consume_read :: "int \<Rightarrow> string \<Rightarrow> 'v redis \<Rightarrow> 'v option" where
  "consume_read now code r = (if up r then redis_get now r (getOAuthCodeKey code) else None)"

definition consume_delete :: "string \<Rightarrow> 'v option \<Rightarrow> 'v redis \<Rightarrow> 'v option \<times> 'v redis" where
  "consume_delete code found r =
     (case found of
        None \<Rightarrow> (None, r)
      | Some v \<Rightarrow> if up r then (Some v, redis_del (getOAuthCodeKey code) r) else (None, r))"

definition consumeOAuthCode :: "int \<Rightarrow> string \<Rightarrow> 'v redis \<Rightarrow> 'v option \<times> 'v redis" where
  "consumeOAuthCode now code r = consume_delete code (consume_read now code r) r"

definition saveOAuthToken :: "int \<Rightarrow> string \<Rightarrow> 'v \<Rightarrow> int \<Rightarrow> 'v redis \<Rightarrow> bool \<times> 'v redis" where
  "saveOAuthToken now token tokenData ttlSeconds r =
     (if up r then (True, redis_setex now (getOAuthTokenKey token) ttlSeconds tokenData r) else (False, r))"

definition getOAuthToken :: "int \<Rightarrow> string \<Rightarrow> 'v redis \<Rightarrow> 'v option" where
  "getOAuthToken now token r = (if up r then redis_get now r (getOAuthTokenKey token) else None)"

definition deleteOAuthToken :: "string \<Rightarrow> 'v redis \<Rightarrow> bool \<times> 'v redis" where
  "deleteOAuthToken token r =
     (if up r then (True, redis_del (getOAuthTokenKey token) r) else (False, r))"

definition extendOAuthToken :: "bool \<Rightarrow> int \<Rightarrow> string \<Rightarrow> int \<Rightarrow> 'v redis \<Rightarrow> 'v redis" where
  "extendOAuthToken REDIS_ENABLED now token ttlSeconds r =
     (if \<not> REDIS_ENABLED then r
      else if up r then redis_expire now (getOAuthTokenKey token) ttlSeconds r else r)"

section \<open>Redis as a keyed store\<close>

lemma redis_get_setex:
  "0 < ttl \<Longrightarrow> redis_get now (redis_setex now k ttl v r) k' = (if k' = k then Some v else redis_get now r k')"
  by (simp add: redis_get_def redis_setex_def store_simps)

lemma redis_get_del:
  "redis_get now (redis_del k r) k' = (if k' = k then None else redis_get now r k')"
  by (simp add: redis_get_def redis_del_def store_simps)

lemma up_simps [simp]:
  "up (redis_setex now k ttl v r) = up r" "up (redis_del k r) = up r"
  "up (redis_expire now k ttl r) = up r"
  by (auto simp: redis_setex_def redis_del_def redis_expire_def split: option.splits)

text \<open>
  At one reading of the clock, with a positive life time (a successor here) and the connection
  up, the OAuth token wrappers and the session wrappers are keyed stores.
\<close>

interpretation token_store: kv_store up
  "\<lambda>r k. getOAuthToken now k r"
  "\<lambda>k v r. snd (saveOAuthToken now k v (int (Suc ttl)) r)"
  "\<lambda>k r. snd (deleteOAuthToken k r)"
  for now ttl
  by unfold_locales
    (auto simp: getOAuthToken_def saveOAuthToken_def deleteOAuthToken_def redis_get_setex redis_get_del)

interpretation session_store: kv_store up
  "\<lambda>r k. getSession now k r"
  "\<lambda>k v r. snd (saveSession now k v (int (Suc ttl)) r)"
  "\<lambda>k r. snd (deleteSession k r)"
  for now ttl
  by unfold_locales
    (auto simp: getSession_def saveSession_def deleteSession_def redis_get_setex redis_get_del)

end
