(* ===== verification/RateLimit.thy ===== *)
theory RateLimit
  imports Prelude
begin

text \<open>
  The in-process rate limiters.

  \<^item> \<open>lib/rate-limiter.js\<close>: \<open>RateLimiter\<close> (a sliding window per key: \<open>allow\<close>,
    \<open>cleanup\<close>, \<open>size\<close>, \<open>destroy\<close>) and \<open>DualRateLimiter\<close> (a limiter per API key and one per
    IP).  The array of hits of a key is mutated in place by the code; the model stores the new
    list under the key.
  \<^item> \<open>lib/handlers/_rotate-ratelimit.js\<close>: the per-IP limit of \<open>POST /session/rotate\<close>.

  The lemmas show that the sliding window admits at most \<open>maxRequests\<close> requests of a key in any
  window, for every run with a clock that does not go back, that \<open>cleanup\<close> loses nothing that a
  later \<open>allow\<close> would see, and that the rotation limit is a window of fixed start, which lets
  twice the limit through around the end of a window.
\<close>

section \<open>RateLimiter\<close>

record rate_limiter =
  windowMs :: int
  maxRequests :: int
  buckets :: "(string, int list) jsmap"

definition new_limiter :: "int \<Rightarrow> int \<Rightarrow> rate_limiter" where
  "new_limiter w m = \<lparr>windowMs = w, maxRequests = m, buckets = []\<rparr>"

definition hits_of :: "rate_limiter \<Rightarrow> string \<Rightarrow> int list" where
  "hits_of rl k = (case map_of (buckets rl) k of None \<Rightarrow> [] | Some hs \<Rightarrow> hs)"

text \<open>\<open>while (hits.length > 0 && hits[0] <= cutoff) hits.shift()\<close>\<close>

definition expire_hits :: "int \<Rightarrow> int list \<Rightarrow> int list" where
  "expire_hits cutoff hs = dropWhile (\<lambda>t. t \<le> cutoff) hs"

definition allow :: "int \<Rightarrow> string \<Rightarrow> rate_limiter \<Rightarrow> bool \<times> rate_limiter" where
  "allow now key rl =
     (let hits = expire_hits (now - windowMs rl) (hits_of rl key)
      in if int (length hits) \<ge> maxRequests rl
         then (False, rl\<lparr>buckets := AList.update key hits (buckets rl)\<rparr>)
         else (True, rl\<lparr>buckets := AList.update key (hits @ [now]) (buckets rl)\<rparr>))"

definition cleanup :: "int \<Rightarrow> rate_limiter \<Rightarrow> rate_limiter" where
  "cleanup now rl =
     rl\<lparr>buckets := filter (\<lambda>(k, hs). hs \<noteq> [])
          (map (\<lambda>(k, hs). (k, expire_hits (now - windowMs rl) hs)) (buckets rl))\<rparr>"

definition limiter_size :: "rate_limiter \<Rightarrow> nat" where
  "limiter_size rl = length (buckets rl)"

definition destroy :: "rate_limiter \<Rightarrow> rate_limiter" where
  "destroy rl = rl\<lparr>buckets := []\<rparr>"

section \<open>DualRateLimiter\<close>

record dual_limiter =
  ipLimiter :: rate_limiter
  keyLimiter :: rate_limiter
  dualWindowMs :: int

definition new_dual :: "int \<Rightarrow> int \<Rightarrow> int \<Rightarrow> dual_limiter" where
  "new_dual w perIp perKey =
     \<lparr>ipLimiter = new_limiter w perIp, keyLimiter = new_limiter w perKey, dualWindowMs = w\<rparr>"

definition dual_allow :: "int \<Rightarrow> string \<Rightarrow> string option \<Rightarrow> dual_limiter \<Rightarrow> bool \<times> dual_limiter" where
  "dual_allow now clientIp keyId d =
     (if truthy keyId
      then (case allow now (''key:'' @ the keyId) (keyLimiter d) of (b, l) \<Rightarrow> (b, d\<lparr>keyLimiter := l\<rparr>))
      else (case allow now (''ip:'' @ clientIp) (ipLimiter d) of (b, l) \<Rightarrow> (b, d\<lparr>ipLimiter := l\<rparr>)))"

definition dual_cleanup :: "int \<Rightarrow> dual_limiter \<Rightarrow> dual_limiter" where
  "dual_cleanup now d =
     d\<lparr>ipLimiter := cleanup now (ipLimiter d), keyLimiter := cleanup now (keyLimiter d)\<rparr>"

definition dual_size :: "dual_limiter \<Rightarrow> nat" where
  "dual_size d = limiter_size (ipLimiter d) + limiter_size (keyLimiter d)"

definition dual_destroy :: "dual_limiter \<Rightarrow> dual_limiter" where
  "dual_destroy d = d\<lparr>ipLimiter := destroy (ipLimiter d), keyLimiter := destroy (keyLimiter d)\<rparr>"

section \<open>The rotation limit\<close>

record rotate_entry =
  count :: int
  windowStart :: int

type_synonym rotate_store = "(string, rotate_entry) jsmap"

definition WINDOW_MS :: int where
  "WINDOW_MS = 60000"

text \<open>
  \<open>getLimit()\<close>: \<open>Number(process.env.WEASLEY_DEEPMIND_ROTATE_RATE_LIMIT_PER_MIN)\<close> is \<open>Some n\<close>
  when it is an integer \<open>n\<close>, \<open>None\<close> otherwise (unset, \<open>NaN\<close>, a fraction).
\<close>

definition getLimit :: "int option \<Rightarrow> int" where
  "getLimit v = (case v of Some n \<Rightarrow> if n > 0 then n else 5 | None \<Rightarrow> 5)"

definition extractIp :: "string option \<Rightarrow> string option \<Rightarrow> string" where
  "extractIp forwarded remoteAddress =
     (if truthy forwarded then js_trim (takeWhile (\<lambda>c. c \<noteq> CHR '','') (the forwarded))
      else nullish_to remoteAddress ''unknown'')"

definition rotate_entry_at :: "int \<Rightarrow> string \<Rightarrow> rotate_store \<Rightarrow> rotate_entry" where
  "rotate_entry_at now ip st =
     (case map_of st ip of
        None \<Rightarrow> \<lparr>count = 0, windowStart = now\<rparr>
      | Some e \<Rightarrow> if now - windowStart e \<ge> WINDOW_MS then \<lparr>count = 0, windowStart = now\<rparr> else e)"

definition checkRotateRateLimit ::
  "int option \<Rightarrow> int \<Rightarrow> string option \<Rightarrow> string option \<Rightarrow> rotate_store \<Rightarrow> (bool \<times> int) \<times> rotate_store" where
  "checkRotateRateLimit env now forwarded remoteAddress st =
     (let ip = extractIp forwarded remoteAddress; limit = getLimit env;
          entry = rotate_entry_at now ip st
      in if count entry \<ge> limit
         then ((False, ceil_div (windowStart entry + WINDOW_MS - now) 1000), AList.update ip entry st)
         else ((True, 0), AList.update ip (entry\<lparr>count := count entry + 1\<rparr>) st))"


section \<open>Runs of the sliding-window limiter\<close>

text \<open>
  A run is a list of calls with the clock readings at which they happen: \<open>Allow key\<close> or the
  periodic \<open>Cleanup\<close>.  The result lists the admitted requests in order.
\<close>

datatype limiter_call = Allow string | Cleanup

fun run_limiter :: "rate_limiter \<Rightarrow> (int \<times> limiter_call) list \<Rightarrow> (int \<times> string) list \<times> rate_limiter" where
  "run_limiter rl [] = ([], rl)"
| "run_limiter rl ((t, Allow k) # es) =
     (case allow t k rl of (b, rl') \<Rightarrow>
       (case run_limiter rl' es of (adm, rl'') \<Rightarrow> (if b then (t, k) # adm else adm, rl'')))"
| "run_limiter rl ((t, Cleanup) # es) = run_limiter (cleanup t rl) es"

text \<open>The admitted times of one key, and how many of a list of times lie in \<open>(t - w, t]\<close>.\<close>

definition admitted_of :: "string \<Rightarrow> (int \<times> string) list \<Rightarrow> int list" where
  "admitted_of k adm = map fst (filter (\<lambda>(t, k'). k' = k) adm)"

definition in_window :: "int \<Rightarrow> int \<Rightarrow> int list \<Rightarrow> nat" where
  "in_window w t ts = length (filter (\<lambda>s. t - w < s \<and> s \<le> t) ts)"

lemma admitted_of_simps [simp]:
  "admitted_of k [] = []"
  "admitted_of k ((t, k') # adm) = (if k' = k then t # admitted_of k adm else admitted_of k adm)"
  by (auto simp: admitted_of_def)

lemma hits_of_allow:
  "hits_of (snd (allow now key rl)) k =
     (if k = key
      then expire_hits (now - windowMs rl) (hits_of rl key) @ (if fst (allow now key rl) then [now] else [])
      else hits_of rl k)"
  by (auto simp: allow_def hits_of_def Let_def store_simps)

lemma limits_allow [simp]:
  "windowMs (snd (allow now key rl)) = windowMs rl"
  "maxRequests (snd (allow now key rl)) = maxRequests rl"
  by (simp_all add: allow_def Let_def)

lemma fst_allow:
  "fst (allow now key rl) \<longleftrightarrow>
     int (length (expire_hits (now - windowMs rl) (hits_of rl key))) < maxRequests rl"
  by (auto simp: allow_def Let_def)

lemma not_key_not_pair: "k \<notin> fst ` set m \<Longrightarrow> (k, v) \<notin> set m"
  by force

lemma map_of_cleanup:
  "distinct (map fst m) \<Longrightarrow>
     map_of (filter (\<lambda>(k, hs). hs \<noteq> []) (map (\<lambda>(k, hs). (k, f hs)) m)) k =
       (case map_of m k of None \<Rightarrow> None | Some hs \<Rightarrow> if f hs = [] then None else Some (f hs))"
  by (induction m) (auto split: option.splits simp: map_of_eq_None_iff dest: not_key_not_pair)

definition limiter_ok :: "rate_limiter \<Rightarrow> bool" where
  "limiter_ok rl \<longleftrightarrow> distinct (map fst (buckets rl))"

lemma limiter_ok_new [simp]: "limiter_ok (new_limiter w m)"
  by (simp add: limiter_ok_def new_limiter_def)

lemma limiter_ok_allow: "limiter_ok rl \<Longrightarrow> limiter_ok (snd (allow now key rl))"
  by (simp add: limiter_ok_def allow_def Let_def distinct_update)

lemma limiter_ok_cleanup: "limiter_ok rl \<Longrightarrow> limiter_ok (cleanup now rl)"
proof -
  have keys: "map fst (map (\<lambda>(k, hs). (k, f hs)) m) = map fst m"
    for f :: "int list \<Rightarrow> int list" and m :: "(string \<times> int list) list"
    by (induction m) auto
  assume "limiter_ok rl"
  then show ?thesis
    unfolding limiter_ok_def cleanup_def
    by (simp del: map_map add: distinct_map_filter keys)
qed

lemma expire_hits_Nil: "expire_hits c [] = []"
  by (simp add: expire_hits_def)

lemma hits_of_cleanup:
  assumes "limiter_ok rl"
  shows "hits_of (cleanup now rl) k = expire_hits (now - windowMs rl) (hits_of rl k)"
  using assms
  by (cases "map_of (buckets rl) k")
    (simp_all add: hits_of_def cleanup_def limiter_ok_def map_of_cleanup expire_hits_Nil)

lemma limits_cleanup [simp]:
  "windowMs (cleanup now rl) = windowMs rl" "maxRequests (cleanup now rl) = maxRequests rl"
  by (simp_all add: cleanup_def)

text \<open>
  The invariant of one key: \<open>A\<close> are the times admitted so far, the bucket holds a suffix of
  them, and what was dropped lies outside the current window.
\<close>

definition key_inv :: "rate_limiter \<Rightarrow> string \<Rightarrow> int \<Rightarrow> int list \<Rightarrow> bool" where
  "key_inv rl k now A \<longleftrightarrow>
     limiter_ok rl \<and> sorted A \<and> (\<forall>s\<in>set A. s \<le> now) \<and>
     (\<exists>pre. A = pre @ hits_of rl k \<and> (\<forall>s\<in>set pre. s \<le> now - windowMs rl)) \<and>
     (\<forall>t. int (in_window (windowMs rl) t A) \<le> max 0 (maxRequests rl))"

lemma expire_suffix:
  assumes "A = pre @ hs" "sorted A" "\<forall>s\<in>set pre. s \<le> c"
  shows "expire_hits c hs = filter (\<lambda>s. c < s) A"
    and "\<exists>pre'. A = pre' @ expire_hits c hs \<and> (\<forall>s\<in>set pre'. s \<le> c)"
proof -
  have "sorted hs" using assms by (simp add: sorted_append)
  then show "expire_hits c hs = filter (\<lambda>s. c < s) A"
    using assms by (auto simp: expire_hits_def dropWhile_sorted_filter filter_empty_conv)
  have "A = (pre @ takeWhile (\<lambda>t. t \<le> c) hs) @ expire_hits c hs"
    using assms by (simp add: expire_hits_def)
  moreover have "\<forall>s\<in>set (pre @ takeWhile (\<lambda>t. t \<le> c) hs). s \<le> c"
    using assms(3) by (auto dest: set_takeWhileD)
  ultimately show "\<exists>pre'. A = pre' @ expire_hits c hs \<and> (\<forall>s\<in>set pre'. s \<le> c)" by blast
qed

lemma in_window_snoc:
  assumes "\<forall>s\<in>set A. s \<le> now"
    and "int (length (filter (\<lambda>s. now - w < s) A)) < m"
    and "\<forall>t. int (in_window w t A) \<le> max 0 m"
  shows "int (in_window w t (A @ [now])) \<le> max 0 m"
proof (cases "t < now")
  case True
  then have "in_window w t (A @ [now]) = in_window w t A" by (simp add: in_window_def)
  then show ?thesis using assms(3) by metis
next
  case False
  have "in_window w t A \<le> length (filter (\<lambda>s. now - w < s) A)"
    unfolding in_window_def using False by (intro length_filter_mono) auto
  moreover have "in_window w t (A @ [now]) \<le> Suc (in_window w t A)" by (simp add: in_window_def)
  ultimately show ?thesis using assms(2) by linarith
qed

lemma key_inv_later: "key_inv rl k now A \<Longrightarrow> now \<le> now' \<Longrightarrow> key_inv rl k now' A"
  unfolding key_inv_def by fastforce

lemma key_inv_cleanup:
  assumes "key_inv rl k now A"
  shows "key_inv (cleanup now rl) k now A"
proof -
  from assms obtain pre where "A = pre @ hits_of rl k" "sorted A" "\<forall>s\<in>set pre. s \<le> now - windowMs rl"
    unfolding key_inv_def by blast
  from expire_suffix(2) [OF this] assms show ?thesis
    unfolding key_inv_def by (simp add: limiter_ok_cleanup hits_of_cleanup)
qed

lemma key_inv_allow_other:
  "key_inv rl k now A \<Longrightarrow> k \<noteq> key \<Longrightarrow> key_inv (snd (allow now key rl)) k now A"
  unfolding key_inv_def by (auto simp: limiter_ok_allow hits_of_allow)

lemma key_inv_allow:
  assumes inv: "key_inv rl k now A"
  shows "key_inv (snd (allow now k rl)) k now (A @ (if fst (allow now k rl) then [now] else []))"
proof -
  let ?c = "now - windowMs rl"
  from inv obtain pre where pre: "A = pre @ hits_of rl k" "\<forall>s\<in>set pre. s \<le> ?c"
    and A: "limiter_ok rl" "sorted A" "\<forall>s\<in>set A. s \<le> now"
      "\<forall>t. int (in_window (windowMs rl) t A) \<le> max 0 (maxRequests rl)"
    unfolding key_inv_def by blast
  from expire_suffix [OF pre(1) A(2) pre(2)] obtain pre' where
    E: "expire_hits ?c (hits_of rl k) = filter (\<lambda>s. ?c < s) A"
    and pre': "A = pre' @ expire_hits ?c (hits_of rl k)" "\<forall>s\<in>set pre'. s \<le> ?c"
    by blast
  show ?thesis
  proof (cases "fst (allow now k rl)")
    case True
    have "\<forall>t. int (in_window (windowMs rl) t (A @ [now])) \<le> max 0 (maxRequests rl)"
      using in_window_snoc [OF A(3) _ A(4)] True by (simp add: fst_allow E)
    moreover have "A @ [now] = pre' @ hits_of (snd (allow now k rl)) k"
      using pre'(1) True by (simp add: hits_of_allow)
    moreover have "sorted (A @ [now])" using A(2,3) by (simp add: sorted_append)
    moreover have "\<forall>s\<in>set (A @ [now]). s \<le> now" using A(3) by simp
    ultimately have "key_inv (snd (allow now k rl)) k now (A @ [now])"
      unfolding key_inv_def using A(1) pre'(2) by (simp only: limits_allow limiter_ok_allow) blast
    then show ?thesis using True by simp
  next
    case False
    then have "A = pre' @ hits_of (snd (allow now k rl)) k"
      using pre'(1) by (simp add: hits_of_allow)
    then have "key_inv (snd (allow now k rl)) k now A"
      unfolding key_inv_def using A pre'(2) by (simp only: limits_allow limiter_ok_allow) blast
    then show ?thesis using False by simp
  qed
qed

lemma run_limiter_window:
  assumes "key_inv rl k now A" and "sorted (map fst es)" and "\<forall>t\<in>fst ` set es. now \<le> t"
  shows "int (in_window (windowMs rl) t (A @ admitted_of k (fst (run_limiter rl es)))) \<le> max 0 (maxRequests rl)"
  using assms
proof (induction rl es arbitrary: A now rule: run_limiter.induct)
  case (1 rl)
  then show ?case by (simp add: key_inv_def)
next
  case (2 rl t' k' es)
  have inv: "key_inv rl k t' A" using "2.prems" by (auto intro: key_inv_later)
  obtain b rl' where al: "allow t' k' rl = (b, rl')" by fastforce
  have later: "sorted (map fst es)" "\<forall>t\<in>fst ` set es. t' \<le> t" using "2.prems" by auto
  have "key_inv rl' k t' (A @ (if b \<and> k' = k then [t'] else []))"
    using key_inv_allow [OF inv] key_inv_allow_other [OF inv, of k'] al by (cases "k' = k") auto
  from "2.IH" [OF al [symmetric] this later] show ?case
    using al limits_allow [of t' k' rl] by (auto split: prod.splits)
next
  case (3 rl t' es)
  have "key_inv (cleanup t' rl) k t' A"
    using "3.prems" by (auto intro!: key_inv_cleanup key_inv_later [of rl k now A t'])
  then show ?case using "3.IH" [of t' A] "3.prems" by auto
qed


text \<open>
  C25. The sliding window holds: in any run of the limiter (admissions and clean-ups in any
  order, with a clock that does not go back), no window \<open>(t - windowMs, t]\<close> contains more than
  \<open>maxRequests\<close> admitted requests of one key.
\<close>

theorem sliding_window_bound:
  assumes "sorted (map fst es)"
  shows "int (in_window w t (admitted_of k (fst (run_limiter (new_limiter w m) es)))) \<le> max 0 m"
proof -
  let ?n = "if es = [] then 0 else fst (hd es)"
  have "key_inv (new_limiter w m) k ?n []"
    unfolding key_inv_def by (simp add: new_limiter_def limiter_ok_def hits_of_def in_window_def)
  moreover have "\<forall>t\<in>fst ` set es. ?n \<le> t" using assms by (cases es) auto
  ultimately have "int (in_window (windowMs (new_limiter w m)) t
      ([] @ admitted_of k (fst (run_limiter (new_limiter w m) es)))) \<le> max 0 (maxRequests (new_limiter w m))"
    using assms by (intro run_limiter_window)
  then show ?thesis by (simp add: new_limiter_def)
qed

theorem sliding_window_bound_witness:
  "in_window 1000 700 (admitted_of ''a'' (fst (run_limiter (new_limiter 1000 2)
      [(0, Allow ''a''), (500, Allow ''a''), (600, Cleanup), (700, Allow ''a'')]))) = 2 \<and>
   int (in_window 1000 700 (admitted_of ''a'' (fst (run_limiter (new_limiter 1000 2)
      [(0, Allow ''a''), (500, Allow ''a''), (600, Cleanup), (700, Allow ''a'')])))) \<le> max 0 2"
  using sliding_window_bound [of "[(0, Allow ''a''), (500, Allow ''a''), (600, Cleanup), (700, Allow ''a'')]" 1000 700 "''a''" 2]
  by (simp add: allow_def cleanup_def new_limiter_def hits_of_def expire_hits_def in_window_def Let_def)

section \<open>The rotation limit\<close>

lemma getLimit_pos: "0 < getLimit v"
  by (simp add: getLimit_def split: option.splits)

text \<open>
  A refusal is honest: when the rotation limit refuses, \<open>retryAfter\<close> is between 1 and 60
  seconds, and a request of the same address made that many seconds later or after is admitted.
  The stored window starts must not lie in the future (the clock did not go back).
\<close>

theorem rotate_retry_after_honest:
  assumes "\<forall>ip e. map_of st ip = Some e \<longrightarrow> windowStart e \<le> now"
    and "checkRotateRateLimit env now fwd addr st = ((False, s), st')"
    and "now + s * 1000 \<le> later"
  shows "1 \<le> s \<and> s \<le> 60 \<and> fst (fst (checkRotateRateLimit env later fwd addr st'))"
proof -
  define ip where "ip = extractIp fwd addr"
  define e where "e = rotate_entry_at now ip st"
  from assms(2) have full: "getLimit env \<le> count e"
    and s: "s = ceil_div (windowStart e + WINDOW_MS - now) 1000"
    and st': "st' = AList.update ip e st"
    by (auto simp: checkRotateRateLimit_def Let_def ip_def e_def split: if_splits)
  from full getLimit_pos [of env] have "0 < count e" by linarith
  with assms(1) have e: "windowStart e \<le> now" "now < windowStart e + WINDOW_MS"
    by (auto simp: e_def rotate_entry_at_def split: option.splits if_splits)
  have c: "windowStart e + WINDOW_MS - now \<le> s * 1000"
    "s * 1000 < windowStart e + WINDOW_MS - now + 1000"
    unfolding s by (rule ceil_div_bounds, simp)+
  have "rotate_entry_at later ip st' = \<lparr>count = 0, windowStart = later\<rparr>"
    using c(1) assms(3) by (simp add: rotate_entry_at_def st' store_simps)
  then show ?thesis
    using c e getLimit_pos [of env]
    by (auto simp: checkRotateRateLimit_def Let_def ip_def WINDOW_MS_def)
qed

text \<open>A store in which address \<open>1.2.3.4\<close> used up the default limit, refused at 59.5 seconds.\<close>

theorem rotate_retry_after_honest_witness:
  "checkRotateRateLimit None 59500 (Some ''1.2.3.4, 10.0.0.1'') None
      [(''1.2.3.4'', \<lparr>count = 5, windowStart = 0\<rparr>)]
     = ((False, 1), [(''1.2.3.4'', \<lparr>count = 5, windowStart = 0\<rparr>)]) \<and>
   fst (fst (checkRotateRateLimit None 60500 (Some ''1.2.3.4, 10.0.0.1'') None
      [(''1.2.3.4'', \<lparr>count = 5, windowStart = 0\<rparr>)]))"
proof -
  have run: "checkRotateRateLimit None 59500 (Some ''1.2.3.4, 10.0.0.1'') None
      [(''1.2.3.4'', \<lparr>count = 5, windowStart = 0\<rparr>)]
     = ((False, 1), [(''1.2.3.4'', \<lparr>count = 5, windowStart = 0\<rparr>)])"
    by (simp add: checkRotateRateLimit_def extractIp_def js_trim_def js_space_def rotate_entry_at_def
        getLimit_def WINDOW_MS_def ceil_div_def Let_def)
  show ?thesis
    using rotate_retry_after_honest [OF _ run, of 60500] run by simp
qed

text \<open>
  The window starts at the first request and is not a sliding one: with the default limit of 5,
  nine rotations within 1.1 seconds are admitted around the end of a window.
\<close>

fun run_rotate :: "int option \<Rightarrow> string \<Rightarrow> int list \<Rightarrow> rotate_store \<Rightarrow> bool list" where
  "run_rotate env ip [] st = []"
| "run_rotate env ip (t # ts) st =
     (case checkRotateRateLimit env t None (Some ip) st of
        ((ok, _), st') \<Rightarrow> ok # run_rotate env ip ts st')"

lemma rotate_boundary_burst:
  "run_rotate None ''ip'' [0, 59000, 59001, 59002, 59003, 60000, 60001, 60002, 60003, 60004, 60005] []
     = [True, True, True, True, True, True, True, True, True, True, False]"
  by (simp add: checkRotateRateLimit_def extractIp_def rotate_entry_at_def getLimit_def WINDOW_MS_def
      ceil_div_def Let_def)

end
