(* ===== verification/Breaker.thy ===== *)
theory Breaker
  imports Prelude
begin

text \<open>
  The circuit breaker of the LLM providers, \<open>lib/llm/util/circuit-breaker.js\<close>, with its two
  implementations: a map in memory and three Redis keys per provider.  \<open>isOpen\<close>,
  \<open>recordFailure\<close>, \<open>recordSuccess\<close> and \<open>reset\<close> route to one of them by \<open>REDIS_ENABLED\<close>.

  The main lemma is a simulation: with Redis up and a clock that does not go back the two
  implementations answer every \<open>isOpen\<close> alike, although Redis keeps the failures outside the
  window and lets its keys expire.  With Redis down the breaker fails open.
\<close>

record cb_config =
  FAILURE_THRESHOLD :: int
  OPEN_DURATION_MS :: int
  FAILURE_WINDOW_MS :: int

definition REDIS_TTL_SECONDS :: "cb_config \<Rightarrow> int" where
  "REDIS_TTL_SECONDS c = ceil_div (OPEN_DURATION_MS c + FAILURE_WINDOW_MS c) 1000 + 60"

section \<open>In memory\<close>

record cb_entry =
  failures :: "int list"
  openedAt :: "int option"

type_synonym cb_mem = "(string, cb_entry) jsmap"

definition getMemState :: "string \<Rightarrow> cb_mem \<Rightarrow> cb_entry \<times> cb_mem" where
  "getMemState name m =
     (case map_of m name of
        Some e \<Rightarrow> (e, m)
      | None \<Rightarrow> let e = \<lparr>failures = [], openedAt = None\<rparr> in (e, AList.update name e m))"

definition memIsOpen :: "cb_config \<Rightarrow> int \<Rightarrow> string \<Rightarrow> cb_mem \<Rightarrow> bool \<times> cb_mem" where
  "memIsOpen c now name m =
     (case getMemState name m of (s, m') \<Rightarrow>
       (case openedAt s of
          None \<Rightarrow> (False, m')
        | Some t \<Rightarrow>
            if now - t \<ge> OPEN_DURATION_MS c
            then (False, AList.update name (s\<lparr>openedAt := None\<rparr>) m')
            else (True, m')))"

definition memRecordFailure :: "cb_config \<Rightarrow> int \<Rightarrow> string \<Rightarrow> cb_mem \<Rightarrow> cb_mem" where
  "memRecordFailure c now name m =
     (case getMemState name m of (s, m') \<Rightarrow>
       let windowStart = now - FAILURE_WINDOW_MS c;
           fs = filter (\<lambda>ts. ts \<ge> windowStart) (failures s) @ [now];
           s' = s\<lparr>failures := fs\<rparr>;
           s'' = (if int (length fs) \<ge> FAILURE_THRESHOLD c then s'\<lparr>openedAt := Some now\<rparr> else s')
       in AList.update name s'' m')"

definition memRecordSuccess :: "string \<Rightarrow> cb_mem \<Rightarrow> cb_mem" where
  "memRecordSuccess name m =
     (case getMemState name m of (s, m') \<Rightarrow>
       AList.update name (s\<lparr>failures := [], openedAt := None\<rparr>) m')"

definition memReset :: "string \<Rightarrow> cb_mem \<Rightarrow> cb_mem" where
  "memReset name m = AList.delete name m"

section \<open>In Redis\<close>

text \<open>
  Per provider the key \<open>llm:cb:<name>:openedAt\<close> (a time, with an expiry) and the list
  \<open>llm:cb:<name>:failures\<close> (with an expiry).  The two maps below are indexed by the provider's
  name; timestamps are stored in decimal and read back by \<open>parseInt\<close>, which is the identity.
  A call during which the connection is down throws at its first command, which the code catches.
\<close>

record cb_redis =
  cb_up :: bool
  openedAtKeys :: "(string, int \<times> int) jsmap"
  failureKeys :: "(string, int list \<times> int) jsmap"

definition live :: "int \<Rightarrow> (string, 'a \<times> int) jsmap \<Rightarrow> string \<Rightarrow> 'a option" where
  "live now m k = (case map_of m k of None \<Rightarrow> None | Some (v, e) \<Rightarrow> if now < e then Some v else None)"

definition redisIsOpen :: "cb_config \<Rightarrow> int \<Rightarrow> string \<Rightarrow> cb_redis \<Rightarrow> bool \<times> cb_redis" where
  "redisIsOpen c now name r =
     (if \<not> cb_up r then (False, r)
      else case live now (openedAtKeys r) name of
        None \<Rightarrow> (False, r)
      | Some t \<Rightarrow>
          if now - t \<ge> OPEN_DURATION_MS c
          then (False, r\<lparr>openedAtKeys := AList.delete name (openedAtKeys r)\<rparr>)
          else (True, r))"

definition redisRecordFailure :: "cb_config \<Rightarrow> int \<Rightarrow> string \<Rightarrow> cb_redis \<Rightarrow> cb_redis" where
  "redisRecordFailure c now name r =
     (if \<not> cb_up r then r
      else
        let expiry = now + REDIS_TTL_SECONDS c * 1000;
            raw = nullish_to (live now (failureKeys r) name) [] @ [now];
            r' = r\<lparr>failureKeys := AList.update name (raw, expiry) (failureKeys r)\<rparr>;
            windowStart = now - FAILURE_WINDOW_MS c;
            recentCount = length (filter (\<lambda>ts. ts \<ge> windowStart) raw)
        in if int recentCount \<ge> FAILURE_THRESHOLD c
           then r'\<lparr>openedAtKeys := AList.update name (now, expiry) (openedAtKeys r')\<rparr>
           else r')"

definition redisRecordSuccess :: "string \<Rightarrow> cb_redis \<Rightarrow> cb_redis" where
  "redisRecordSuccess name r =
     (if \<not> cb_up r then r
      else r\<lparr>openedAtKeys := AList.delete name (openedAtKeys r),
             failureKeys := AList.delete name (failureKeys r)\<rparr>)"

definition redisReset :: "string \<Rightarrow> cb_redis \<Rightarrow> cb_redis" where
  "redisReset name r =
     (if \<not> cb_up r then r
      else r\<lparr>openedAtKeys := AList.delete name (openedAtKeys r),
             failureKeys := AList.delete name (failureKeys r)\<rparr>)"

section \<open>The breaker\<close>

record breaker =
  REDIS_ENABLED :: bool
  memState :: cb_mem
  redisState :: cb_redis

definition init_breaker :: "bool \<Rightarrow> breaker" where
  "init_breaker enabled =
     \<lparr>REDIS_ENABLED = enabled, memState = [],
      redisState = \<lparr>cb_up = True, openedAtKeys = [], failureKeys = []\<rparr>\<rparr>"

definition isOpen :: "cb_config \<Rightarrow> int \<Rightarrow> string \<Rightarrow> breaker \<Rightarrow> bool \<times> breaker" where
  "isOpen c now name b =
     (if REDIS_ENABLED b
      then (case redisIsOpen c now name (redisState b) of (x, r) \<Rightarrow> (x, b\<lparr>redisState := r\<rparr>))
      else (case memIsOpen c now name (memState b) of (x, m) \<Rightarrow> (x, b\<lparr>memState := m\<rparr>)))"

definition recordFailure :: "cb_config \<Rightarrow> int \<Rightarrow> string \<Rightarrow> breaker \<Rightarrow> breaker" where
  "recordFailure c now name b =
     (if REDIS_ENABLED b
      then b\<lparr>redisState := redisRecordFailure c now name (redisState b)\<rparr>
      else b\<lparr>memState := memRecordFailure c now name (memState b)\<rparr>)"

definition recordSuccess :: "string \<Rightarrow> breaker \<Rightarrow> breaker" where
  "recordSuccess name b =
     (if REDIS_ENABLED b
      then b\<lparr>redisState := redisRecordSuccess name (redisState b)\<rparr>
      else b\<lparr>memState := memRecordSuccess name (memState b)\<rparr>)"

definition reset :: "string \<Rightarrow> breaker \<Rightarrow> breaker" where
  "reset name b =
     (if REDIS_ENABLED b
      then b\<lparr>redisState := redisReset name (redisState b)\<rparr>
      else b\<lparr>memState := memReset name (memState b)\<rparr>)"

section \<open>Runs\<close>

datatype cb_call = IsOpen string | Fail string | Succeed string | Reset string

text \<open>The answers of the \<open>isOpen\<close> calls of a run.\<close>

fun run_breaker :: "cb_config \<Rightarrow> breaker \<Rightarrow> (int \<times> cb_call) list \<Rightarrow> bool list" where
  "run_breaker c b [] = []"
| "run_breaker c b ((t, IsOpen n) # es) = (case isOpen c t n b of (x, b') \<Rightarrow> x # run_breaker c b' es)"
| "run_breaker c b ((t, Fail n) # es) = run_breaker c (recordFailure c t n b) es"
| "run_breaker c b ((t, Succeed n) # es) = run_breaker c (recordSuccess n b) es"
| "run_breaker c b ((t, Reset n) # es) = run_breaker c (reset n b) es"


section \<open>The two implementations agree\<close>

definition mem_view :: "cb_mem \<Rightarrow> string \<Rightarrow> int list \<times> int option" where
  "mem_view m n = (case map_of m n of None \<Rightarrow> ([], None) | Some e \<Rightarrow> (failures e, openedAt e))"

definition red_list :: "int \<Rightarrow> cb_redis \<Rightarrow> string \<Rightarrow> int list" where
  "red_list now r n = nullish_to (live now (failureKeys r) n) []"

text \<open>
  Related at time \<open>now\<close> for provider \<open>n\<close>: the same opening time, or one that is over and
  has expired in Redis; the same failures inside the window; and the expiry times of Redis lie
  far enough in the future that an expired key no longer matters.
\<close>

definition sim_opened :: "cb_config \<Rightarrow> int \<Rightarrow> cb_mem \<Rightarrow> cb_redis \<Rightarrow> string \<Rightarrow> bool" where
  "sim_opened c now m r n \<longleftrightarrow>
     (snd (mem_view m n) = live now (openedAtKeys r) n \<or>
      (\<exists>t. snd (mem_view m n) = Some t \<and> OPEN_DURATION_MS c \<le> now - t \<and> live now (openedAtKeys r) n = None)) \<and>
     (\<forall>t e. map_of (openedAtKeys r) n = Some (t, e) \<longrightarrow> t + OPEN_DURATION_MS c \<le> e)"

definition sim_failures :: "cb_config \<Rightarrow> int \<Rightarrow> cb_mem \<Rightarrow> cb_redis \<Rightarrow> string \<Rightarrow> bool" where
  "sim_failures c now m r n \<longleftrightarrow>
     filter (\<lambda>x. now - FAILURE_WINDOW_MS c \<le> x) (fst (mem_view m n)) =
       filter (\<lambda>x. now - FAILURE_WINDOW_MS c \<le> x) (red_list now r n) \<and>
     (\<forall>l e. map_of (failureKeys r) n = Some (l, e) \<longrightarrow>
        (\<forall>x\<in>set l. x \<le> now \<and> x + FAILURE_WINDOW_MS c < e))"

definition sim :: "cb_config \<Rightarrow> int \<Rightarrow> cb_mem \<Rightarrow> cb_redis \<Rightarrow> bool" where
  "sim c now m r \<longleftrightarrow> cb_up r \<and> (\<forall>n. sim_opened c now m r n \<and> sim_failures c now m r n)"

lemma ttl_bounds:
  assumes "0 \<le> OPEN_DURATION_MS c" "0 \<le> FAILURE_WINDOW_MS c"
  shows "OPEN_DURATION_MS c < REDIS_TTL_SECONDS c * 1000" "FAILURE_WINDOW_MS c < REDIS_TTL_SECONDS c * 1000"
proof -
  have "OPEN_DURATION_MS c + FAILURE_WINDOW_MS c \<le> ceil_div (OPEN_DURATION_MS c + FAILURE_WINDOW_MS c) 1000 * 1000"
    by (rule ceil_div_bounds) simp
  then show "OPEN_DURATION_MS c < REDIS_TTL_SECONDS c * 1000" "FAILURE_WINDOW_MS c < REDIS_TTL_SECONDS c * 1000"
    using assms by (auto simp: REDIS_TTL_SECONDS_def)
qed

lemma filter_later:
  "a \<le> b \<Longrightarrow> filter (\<lambda>x. (b::int) \<le> x) xs = filter (\<lambda>x. b \<le> x) (filter (\<lambda>x. a \<le> x) xs)"
  by (induction xs) auto

lemma live_later: "now \<le> now' \<Longrightarrow> live now m k = None \<Longrightarrow> live now' m k = None"
  by (auto simp: live_def split: option.splits if_splits)

lemma sim_opened_later:
  assumes "sim_opened c now m r n" "now \<le> now'"
  shows "sim_opened c now' m r n"
proof (cases "live now' (openedAtKeys r) n = live now (openedAtKeys r) n")
  case True
  then show ?thesis using assms unfolding sim_opened_def by fastforce
next
  case False
  then obtain t e where "map_of (openedAtKeys r) n = Some (t, e)" "now < e" "e \<le> now'"
    using assms(2) by (fastforce simp: live_def split: option.splits if_splits prod.splits)
  then show ?thesis using assms unfolding sim_opened_def by (fastforce simp: live_def)
qed

lemma sim_failures_later:
  assumes "sim_failures c now m r n" "now \<le> now'"
  shows "sim_failures c now' m r n"
proof -
  let ?W = "FAILURE_WINDOW_MS c"
  have le: "now - ?W \<le> now' - ?W" using assms(2) by simp
  have "filter (\<lambda>x. now' - ?W \<le> x) (red_list now r n) = filter (\<lambda>x. now' - ?W \<le> x) (red_list now' r n)"
  proof (cases "live now' (failureKeys r) n = live now (failureKeys r) n")
    case False
    then obtain l e where l: "map_of (failureKeys r) n = Some (l, e)" "now < e" "e \<le> now'"
      using assms(2) by (fastforce simp: live_def split: option.splits if_splits prod.splits)
    then have "\<forall>x\<in>set l. \<not> now' - ?W \<le> x" using assms unfolding sim_failures_def by fastforce
    then show ?thesis using l by (simp add: red_list_def live_def)
  qed (simp add: red_list_def)
  then show ?thesis
    using assms filter_later [OF le, of "fst (mem_view m n)"] filter_later [OF le, of "red_list now r n"]
    unfolding sim_failures_def by fastforce
qed

lemma sim_later: "sim c now m r \<Longrightarrow> now \<le> now' \<Longrightarrow> sim c now' m r"
  unfolding sim_def by (blast intro: sim_opened_later sim_failures_later)

text \<open>One call at time \<open>now\<close>, seen through the views.\<close>

lemma mem_view_isOpen:
  "fst (memIsOpen c now n m) \<longleftrightarrow> (\<exists>t. snd (mem_view m n) = Some t \<and> now - t < OPEN_DURATION_MS c)"
  "mem_view (snd (memIsOpen c now n m)) n' =
     (if n' = n \<and> \<not> fst (memIsOpen c now n m) then (fst (mem_view m n), None) else mem_view m n')"
  by (auto simp: memIsOpen_def getMemState_def mem_view_def Let_def store_simps split: option.splits)

lemma mem_view_failure:
  "mem_view (memRecordFailure c now n m) n' =
     (if n' = n
      then (let fs = filter (\<lambda>x. now - FAILURE_WINDOW_MS c \<le> x) (fst (mem_view m n)) @ [now]
            in (fs, if FAILURE_THRESHOLD c \<le> int (length fs) then Some now else snd (mem_view m n)))
      else mem_view m n')"
  by (auto simp: memRecordFailure_def getMemState_def mem_view_def Let_def store_simps split: option.splits)

lemma mem_view_success: "mem_view (memRecordSuccess n m) n' = (if n' = n then ([], None) else mem_view m n')"
  by (auto simp: memRecordSuccess_def getMemState_def mem_view_def Let_def store_simps split: option.splits)

lemma mem_view_reset: "mem_view (memReset n m) n' = (if n' = n then ([], None) else mem_view m n')"
  by (auto simp: memReset_def mem_view_def store_simps)

lemmas mem_views = mem_view_isOpen mem_view_failure mem_view_success mem_view_reset

lemma sim_isOpen:
  assumes "sim c now m r"
  shows "fst (memIsOpen c now n m) = fst (redisIsOpen c now n r)"
    and "sim c now (snd (memIsOpen c now n m)) (snd (redisIsOpen c now n r))"
proof -
  have u: "cb_up r" and o: "\<And>n. sim_opened c now m r n" and f: "\<And>n. sim_failures c now m r n"
    using assms by (auto simp: sim_def)
  show eq: "fst (memIsOpen c now n m) = fst (redisIsOpen c now n r)"
    using u o [of n] by (auto simp: mem_views redisIsOpen_def sim_opened_def split: option.splits)
  have "sim_opened c now (snd (memIsOpen c now n m)) (snd (redisIsOpen c now n r)) n'" for n'
    using u o [of n'] eq
    by (auto simp: sim_opened_def mem_views redisIsOpen_def live_def store_simps split: option.splits if_splits)
  moreover have "sim_failures c now (snd (memIsOpen c now n m)) (snd (redisIsOpen c now n r)) n'" for n'
    using u f [of n'] by (auto simp: sim_failures_def mem_views redisIsOpen_def red_list_def split: option.splits)
  ultimately show "sim c now (snd (memIsOpen c now n m)) (snd (redisIsOpen c now n r))"
    using u by (auto simp: sim_def redisIsOpen_def split: option.splits)
qed


lemma red_record_failure:
  assumes "cb_up r" and "0 \<le> OPEN_DURATION_MS c" "0 \<le> FAILURE_WINDOW_MS c"
  shows "red_list now (redisRecordFailure c now n r) n' =
      (if n' = n then red_list now r n @ [now] else red_list now r n')"
    and "live now (openedAtKeys (redisRecordFailure c now n r)) n' =
      (if n' = n \<and> FAILURE_THRESHOLD c \<le> int (length (filter (\<lambda>x. now - FAILURE_WINDOW_MS c \<le> x) (red_list now r n @ [now])))
       then Some now else live now (openedAtKeys r) n')"
  using assms ttl_bounds [OF assms(2,3)]
  by (auto simp: redisRecordFailure_def red_list_def live_def Let_def store_simps)

lemma sim_failure:
  assumes S: "sim c now m r" and c: "0 \<le> OPEN_DURATION_MS c" "0 \<le> FAILURE_WINDOW_MS c"
  shows "sim c now (memRecordFailure c now n m) (redisRecordFailure c now n r)"
proof -
  let ?m = "memRecordFailure c now n m" and ?r = "redisRecordFailure c now n r"
  let ?F = "filter (\<lambda>x. now - FAILURE_WINDOW_MS c \<le> x)"
  have u: "cb_up r" and o: "\<And>n. sim_opened c now m r n" and f: "\<And>n. sim_failures c now m r n"
    using S by (auto simp: sim_def)
  have fs: "?F (fst (mem_view m n')) = ?F (red_list now r n')" for n'
    using f [of n'] by (simp add: sim_failures_def)
  have "sim_opened c now ?m ?r n'" for n'
  proof (cases "n' = n")
    case True
    have "snd (mem_view ?m n) = live now (openedAtKeys ?r) n \<or>
        (\<exists>t. snd (mem_view ?m n) = Some t \<and> OPEN_DURATION_MS c \<le> now - t \<and> live now (openedAtKeys ?r) n = None)"
      using o [of n] fs [of n] c
      by (auto simp: mem_view_failure red_record_failure [OF u c] sim_opened_def Let_def)
    moreover have "\<forall>t e. map_of (openedAtKeys ?r) n = Some (t, e) \<longrightarrow> t + OPEN_DURATION_MS c \<le> e"
      using o [of n] u ttl_bounds [OF c]
      by (auto simp: sim_opened_def redisRecordFailure_def Let_def store_simps)
    ultimately show ?thesis using True by (simp add: sim_opened_def)
  next
    case False
    then show ?thesis
      using o [of n'] u
      by (auto simp: sim_opened_def mem_view_failure redisRecordFailure_def live_def Let_def store_simps)
  qed
  moreover have "sim_failures c now ?m ?r n'" for n'
  proof (cases "n' = n")
    case True
    have "\<forall>x\<in>set (red_list now r n). x \<le> now"
      using f [of n] by (auto simp: red_list_def live_def sim_failures_def split: option.splits if_splits)
    then have "\<forall>x\<in>set (red_list now r n @ [now]). x \<le> now \<and> x + FAILURE_WINDOW_MS c < now + REDIS_TTL_SECONDS c * 1000"
      using ttl_bounds [OF c] by auto
    moreover have "map_of (failureKeys ?r) n = Some (red_list now r n @ [now], now + REDIS_TTL_SECONDS c * 1000)"
      using u by (simp add: redisRecordFailure_def red_list_def Let_def store_simps)
    ultimately have "\<forall>l e. map_of (failureKeys ?r) n = Some (l, e) \<longrightarrow>
        (\<forall>x\<in>set l. x \<le> now \<and> x + FAILURE_WINDOW_MS c < e)"
      by auto
    moreover have "?F (fst (mem_view ?m n)) = ?F (red_list now ?r n)"
      using fs [of n] c by (simp add: mem_view_failure red_record_failure [OF u c] Let_def)
    ultimately show ?thesis using True by (simp add: sim_failures_def)
  next
    case False
    then show ?thesis
      using f [of n'] u
      by (auto simp: sim_failures_def mem_view_failure redisRecordFailure_def red_list_def live_def Let_def store_simps)
  qed
  ultimately show ?thesis using u by (auto simp: sim_def redisRecordFailure_def Let_def)
qed

lemma sim_success: "sim c now m r \<Longrightarrow> sim c now (memRecordSuccess n m) (redisRecordSuccess n r)"
  by (auto simp: sim_def sim_opened_def sim_failures_def mem_views redisRecordSuccess_def red_list_def
      live_def store_simps)

lemma sim_reset: "sim c now m r \<Longrightarrow> sim c now (memReset n m) (redisReset n r)"
  by (auto simp: sim_def sim_opened_def sim_failures_def mem_views redisReset_def red_list_def
      live_def store_simps)

lemma run_breaker_sim:
  assumes "sim c now (memState b1) (redisState b2)" and "\<not> REDIS_ENABLED b1" "REDIS_ENABLED b2"
    and "sorted (map fst es)" "\<forall>t\<in>fst ` set es. now \<le> t"
    and "0 \<le> OPEN_DURATION_MS c" "0 \<le> FAILURE_WINDOW_MS c"
  shows "run_breaker c b1 es = run_breaker c b2 es"
  using assms
proof (induction es arbitrary: now b1 b2)
  case Nil
  then show ?case by simp
next
  case (Cons e es)
  obtain t call where e: "e = (t, call)" by fastforce
  have S: "sim c t (memState b1) (redisState b2)"
    using Cons.prems e by (auto intro: sim_later)
  have later: "sorted (map fst es)" "\<forall>t'\<in>fst ` set es. t \<le> t'" using Cons.prems e by auto
  note IH = Cons.IH [OF _ _ _ later Cons.prems(6,7)]
  show ?case
  proof (cases call)
    case (IsOpen n)
    show ?thesis
      using sim_isOpen [OF S, of n] Cons.prems(2,3) e IsOpen
      by (auto simp: isOpen_def split: prod.splits intro!: IH)
  next
    case (Fail n)
    show ?thesis
      using sim_failure [OF S Cons.prems(6,7), of n] Cons.prems(2,3) e Fail
      by (auto simp: recordFailure_def intro!: IH)
  next
    case (Succeed n)
    show ?thesis
      using sim_success [OF S, of n] Cons.prems(2,3) e Succeed
      by (auto simp: recordSuccess_def intro!: IH)
  next
    case (Reset n)
    show ?thesis
      using sim_reset [OF S, of n] Cons.prems(2,3) e Reset
      by (auto simp: reset_def intro!: IH)
  qed
qed

text \<open>
  C22. The Redis implementation of the circuit breaker refines the in-memory one: from the empty
  state, with the connection up and a clock that does not go back, every \<open>isOpen\<close> of every run
  of checks, failures, successes and resets over any providers answers the same, for every
  threshold and all non-negative durations.
\<close>

theorem breaker_redis_refines_memory:
  assumes "sorted (map fst es)" and "0 \<le> OPEN_DURATION_MS c" and "0 \<le> FAILURE_WINDOW_MS c"
  shows "run_breaker c (init_breaker True) es = run_breaker c (init_breaker False) es"
proof -
  let ?n = "if es = [] then 0 else fst (hd es)"
  have "sim c ?n (memState (init_breaker False)) (redisState (init_breaker True))"
    by (simp add: sim_def sim_opened_def sim_failures_def init_breaker_def mem_view_def live_def red_list_def)
  moreover have "\<forall>t\<in>fst ` set es. ?n \<le> t" using assms(1) by (cases es) auto
  ultimately have "run_breaker c (init_breaker False) es = run_breaker c (init_breaker True) es"
    using assms by (intro run_breaker_sim) (auto simp: init_breaker_def)
  then show ?thesis by simp
qed

theorem breaker_redis_refines_memory_witness:
  "run_breaker \<lparr>FAILURE_THRESHOLD = 2, OPEN_DURATION_MS = 100, FAILURE_WINDOW_MS = 50\<rparr> (init_breaker True)
      [(0, Fail ''p''), (10, Fail ''p''), (20, IsOpen ''p''), (110, IsOpen ''p'')] = [True, False]"
  using breaker_redis_refines_memory
    [of "[(0, Fail ''p''), (10, Fail ''p''), (20, IsOpen ''p''), (110, IsOpen ''p'')]"
        "\<lparr>FAILURE_THRESHOLD = 2, OPEN_DURATION_MS = 100, FAILURE_WINDOW_MS = 50\<rparr>"]
  by (simp add: init_breaker_def recordFailure_def memRecordFailure_def getMemState_def isOpen_def
      memIsOpen_def Let_def)

section \<open>What a breaker promises\<close>

text \<open>
  The contract that \<open>LlmProvider\<close> relies on (\<open>lib/llm/LlmProvider.js\<close> forwards
  \<open>isCircuitOpen\<close>, \<open>recordFailure\<close> and \<open>recordSuccess\<close> to the breaker): a success closes the
  circuit of its own provider and leaves the others alone, a check changes no answer.
\<close>

locale circuit =
  fixes usable :: "'s \<Rightarrow> bool"
    and is_open :: "int \<Rightarrow> string \<Rightarrow> 's \<Rightarrow> bool \<times> 's"
    and succeed :: "string \<Rightarrow> 's \<Rightarrow> 's"
  assumes usable_open: "usable s \<Longrightarrow> usable (snd (is_open now n s))"
    and usable_succeed: "usable s \<Longrightarrow> usable (succeed n s)"
    and open_succeed: "usable s \<Longrightarrow>
      fst (is_open now n' (succeed n s)) \<longleftrightarrow> n' \<noteq> n \<and> fst (is_open now n' s)"
    and open_open: "usable s \<Longrightarrow> fst (is_open now n' (snd (is_open now n s))) \<longleftrightarrow> fst (is_open now n' s)"
begin

definition open_after :: "int \<Rightarrow> string list \<Rightarrow> 's \<Rightarrow> string \<Rightarrow> bool" where
  "open_after now ns s n = fst (is_open now n (fold succeed ns s))"

lemma usable_fold: "usable s \<Longrightarrow> usable (fold succeed ns s)"
  by (induction ns arbitrary: s) (auto simp: usable_succeed)

lemma open_after_iff: "usable s \<Longrightarrow> open_after now ns s n \<longleftrightarrow> n \<notin> set ns \<and> fst (is_open now n s)"
  by (induction ns arbitrary: s) (auto simp: open_after_def usable_succeed open_succeed)

lemma check_idempotent:
  "usable s \<Longrightarrow> fst (is_open now n (snd (is_open now n (snd (is_open now n s))))) = fst (is_open now n s)"
  by (simp add: open_open usable_open)

end

interpretation mem_circuit: circuit "\<lambda>_. True" "memIsOpen c" memRecordSuccess
  for c
  by unfold_locales (auto simp: mem_views)

lemma redisIsOpen_iff:
  "fst (redisIsOpen c now n r) \<longleftrightarrow>
     cb_up r \<and> (\<exists>t. live now (openedAtKeys r) n = Some t \<and> now - t < OPEN_DURATION_MS c)"
  by (auto simp: redisIsOpen_def split: option.splits)

lemma live_delete: "live now (AList.delete n m) n' = (if n' = n then None else live now m n')"
  by (simp add: live_def store_simps)

interpretation redis_circuit: circuit cb_up "redisIsOpen c" redisRecordSuccess
  for c
proof unfold_locales
  fix r now n n'
  show "fst (redisIsOpen c now n' (snd (redisIsOpen c now n r))) \<longleftrightarrow> fst (redisIsOpen c now n' r)" if "cb_up r"
    using that by (auto simp: redisIsOpen_iff redisIsOpen_def live_delete split: option.splits)
qed (auto simp: redisIsOpen_iff redisRecordSuccess_def live_delete redisIsOpen_def split: option.splits)

lemma usable_isOpen:
  "fst (isOpen c now n b) =
     (if REDIS_ENABLED b then fst (redisIsOpen c now n (redisState b)) else fst (memIsOpen c now n (memState b)))"
  by (auto simp: isOpen_def split: prod.splits)

text \<open>
  The breaker never blocks a provider for the breaker's own faults: with the Redis
  connection down \<open>isOpen\<close> answers \<open>False\<close> and nothing changes; and whichever implementation
  is in use, after \<open>recordSuccess\<close> the circuit of that provider is closed at every time, and that of
  every other provider answers as before.
\<close>

theorem breaker_fails_open:
  "(REDIS_ENABLED b \<and> \<not> cb_up (redisState b) \<longrightarrow>
      isOpen c now n b = (False, b) \<and> recordFailure c now n b = b) \<and>
   (\<not> REDIS_ENABLED b \<or> cb_up (redisState b) \<longrightarrow>
      (fst (isOpen c now n' (recordSuccess n b)) \<longleftrightarrow> n' \<noteq> n \<and> fst (isOpen c now n' b)))"
  by (auto simp: usable_isOpen recordSuccess_def mem_circuit.open_succeed redis_circuit.open_succeed)
    (simp_all add: isOpen_def redisIsOpen_def recordFailure_def redisRecordFailure_def)

theorem breaker_fails_open_witness:
  "let b = \<lparr>REDIS_ENABLED = True, memState = [],
            redisState = \<lparr>cb_up = False, openedAtKeys = [(''p'', (0, 1000))], failureKeys = []\<rparr>\<rparr>;
       c = \<lparr>FAILURE_THRESHOLD = 5, OPEN_DURATION_MS = 60000, FAILURE_WINDOW_MS = 60000\<rparr>
   in isOpen c 10 ''p'' b = (False, b)"
  using breaker_fails_open
    [of "\<lparr>REDIS_ENABLED = True, memState = [],
          redisState = \<lparr>cb_up = False, openedAtKeys = [(''p'', (0, 1000))], failureKeys = []\<rparr>\<rparr>"
        "\<lparr>FAILURE_THRESHOLD = 5, OPEN_DURATION_MS = 60000, FAILURE_WINDOW_MS = 60000\<rparr>" 10 "''p''"]
  by simp

end
