(* ===== verification/Semaphore.thy ===== *)
theory Semaphore
  imports Prelude
begin

text \<open>
  The per-provider semaphore of the LLM dispatcher, \<open>lib/llm/util/semaphore.js\<close>: a counter of
  held slots and a FIFO queue of waiters, each with a timer.  A waiter is identified by its
  timer (a number, fresh for every call of \<open>acquire\<close>).  The operations are functions on the
  state; the calls and timer events of a set of clients are an inductive step relation on the
  state together with the ghost lists of the requests that hold a slot and of those that were
  ever granted one.  A client releases only a slot it holds, as \<open>dispatchChain\<close> does in its
  \<open>finally\<close> block.
\<close>

record semaphore =
  limit :: int
  waitTimeoutMs :: int
  active :: int
  waiters :: "nat list"

definition createSemaphore :: "int \<Rightarrow> int \<Rightarrow> semaphore" where
  "createSemaphore cap waitMs = \<lparr>limit = cap, waitTimeoutMs = waitMs, active = 0, waiters = []\<rparr>"

text \<open>The promise returned by \<open>acquire\<close> is resolved at once or pending.\<close>

datatype acquired = Resolved | Pending

definition acquire :: "nat \<Rightarrow> semaphore \<Rightarrow> acquired \<times> semaphore" where
  "acquire timer s =
     (if active s < limit s then (Resolved, s\<lparr>active := active s + 1\<rparr>)
      else (Pending, s\<lparr>waiters := waiters s @ [timer]\<rparr>))"

text \<open>The timer of a waiter fires: \<open>findIndex\<close> and \<open>splice\<close>, then \<open>reject\<close>.\<close>

definition timer_fires :: "nat \<Rightarrow> semaphore \<Rightarrow> semaphore" where
  "timer_fires timer s = s\<lparr>waiters := remove1 timer (waiters s)\<rparr>"

text \<open>\<open>release\<close> gives the slot to the first waiter, whose promise it resolves, or frees it.\<close>

definition release :: "semaphore \<Rightarrow> nat option \<times> semaphore" where
  "release s =
     (case waiters s of
        w # ws \<Rightarrow> (Some w, s\<lparr>waiters := ws\<rparr>)
      | [] \<Rightarrow> (None, s\<lparr>active := active s - 1\<rparr>))"

definition waiting :: "semaphore \<Rightarrow> nat" where
  "waiting s = length (waiters s)"

section \<open>The cache of semaphores\<close>

type_synonym sem_cache = "(string, semaphore) jsmap"

definition getSemaphore :: "string \<Rightarrow> int \<Rightarrow> int \<Rightarrow> sem_cache \<Rightarrow> semaphore \<times> sem_cache" where
  "getSemaphore key cap waitMs cache =
     (case map_of cache key of
        Some s \<Rightarrow> (s, cache)
      | None \<Rightarrow> (createSemaphore cap waitMs, AList.update key (createSemaphore cap waitMs) cache))"

definition resetSemaphores :: "sem_cache \<Rightarrow> sem_cache" where
  "resetSemaphores cache = []"

text \<open>The limit given first is the one that stays: a later, different limit has no effect.\<close>

lemma getSemaphore_first_limit:
  "fst (getSemaphore key l2 w2 (snd (getSemaphore key l1 w1 cache))) = fst (getSemaphore key l1 w1 cache)"
  by (auto simp: getSemaphore_def store_simps split: option.splits)

section \<open>Clients\<close>

record sem_sys =
  sem :: semaphore
  holders :: "nat list"
  granted :: "nat list"

definition init_sys :: "int \<Rightarrow> int \<Rightarrow> sem_sys" where
  "init_sys cap waitMs = \<lparr>sem = createSemaphore cap waitMs, holders = [], granted = []\<rparr>"

datatype sem_event = Acquire nat | Release nat | TimedOut nat

inductive sem_step :: "sem_sys \<Rightarrow> sem_event \<Rightarrow> sem_sys \<Rightarrow> bool" where
  acquire_resolved:
    "\<lbrakk>w \<notin> set (holders s); w \<notin> set (waiters (sem s)); acquire w (sem s) = (Resolved, m)\<rbrakk>
     \<Longrightarrow> sem_step s (Acquire w) (s\<lparr>sem := m, holders := holders s @ [w], granted := granted s @ [w]\<rparr>)"
| acquire_pending:
    "\<lbrakk>w \<notin> set (holders s); w \<notin> set (waiters (sem s)); acquire w (sem s) = (Pending, m)\<rbrakk>
     \<Longrightarrow> sem_step s (Acquire w) (s\<lparr>sem := m\<rparr>)"
| release_handover:
    "\<lbrakk>h \<in> set (holders s); release (sem s) = (Some w, m)\<rbrakk>
     \<Longrightarrow> sem_step s (Release h)
           (s\<lparr>sem := m, holders := remove1 h (holders s) @ [w], granted := granted s @ [w]\<rparr>)"
| release_free:
    "\<lbrakk>h \<in> set (holders s); release (sem s) = (None, m)\<rbrakk>
     \<Longrightarrow> sem_step s (Release h) (s\<lparr>sem := m, holders := remove1 h (holders s)\<rparr>)"
| timed_out:
    "w \<in> set (waiters (sem s)) \<Longrightarrow> sem_step s (TimedOut w) (s\<lparr>sem := timer_fires w (sem s)\<rparr>)"

inductive_simps step_acquire_simp: "sem_step s (Acquire w) t"
inductive_simps step_release_simp: "sem_step s (Release h) t"
inductive_simps step_timed_simp: "sem_step s (TimedOut w) t"

lemmas step_simps = step_acquire_simp step_release_simp step_timed_simp

inductive sem_run :: "sem_sys \<Rightarrow> sem_event list \<Rightarrow> sem_sys \<Rightarrow> bool" where
  run_nil: "sem_run s [] s"
| run_cons: "sem_step s e t \<Longrightarrow> sem_run t es u \<Longrightarrow> sem_run s (e # es) u"

inductive_simps run_nil_simp [simp]: "sem_run s [] t"
inductive_simps run_cons_simp [simp]: "sem_run s (e # es) u"

lemmas sem_defs = acquire_def release_def timer_fires_def

definition sem_inv :: "sem_sys \<Rightarrow> bool" where
  "sem_inv s \<longleftrightarrow>
     active (sem s) = int (length (holders s)) \<and>
     active (sem s) \<le> max 0 (limit (sem s)) \<and>
     (waiters (sem s) \<noteq> [] \<longrightarrow> limit (sem s) \<le> active (sem s)) \<and>
     distinct (holders s @ waiters (sem s)) \<and>
     set (holders s) \<subseteq> set (granted s)"

lemma sem_inv_init: "sem_inv (init_sys cap w)"
  by (simp add: sem_inv_def init_sys_def createSemaphore_def)

lemma length_remove1_int: "h \<in> set hs \<Longrightarrow> int (length (remove1 h hs)) = int (length hs) - 1"
  using length_pos_if_in_set [of h hs] by (simp add: length_remove1 of_nat_diff Suc_leI)

lemma sem_step_inv: "sem_step s e t \<Longrightarrow> sem_inv s \<Longrightarrow> sem_inv t"
proof (induction rule: sem_step.induct)
  case (acquire_resolved w s m)
  then show ?case by (auto simp: sem_inv_def sem_defs split: if_splits)
next
  case (acquire_pending w s m)
  then show ?case by (auto simp: sem_inv_def sem_defs split: if_splits)
next
  case (release_handover h s w m)
  then have "waiters (sem s) = w # waiters m" "active m = active (sem s)" "limit m = limit (sem s)"
    by (auto simp: sem_defs split: list.splits)
  then show ?case
    using release_handover by (auto simp: sem_inv_def length_remove1_int dest: notin_set_remove1)
next
  case (release_free h s m)
  then have "waiters (sem s) = []" "waiters m = []" "active m = active (sem s) - 1" "limit m = limit (sem s)"
    by (auto simp: sem_defs split: list.splits)
  then show ?case
    using release_free by (auto simp: sem_inv_def length_remove1_int dest: notin_set_remove1)
next
  case (timed_out w s)
  then show ?case by (auto simp: sem_inv_def sem_defs dest: notin_set_remove1)
qed

lemma sem_run_inv: "sem_run s es t \<Longrightarrow> sem_inv s \<Longrightarrow> sem_inv t"
  by (induction rule: sem_run.induct) (auto intro: sem_step_inv)

lemma sem_step_limit: "sem_step s e t \<Longrightarrow> limit (sem t) = limit (sem s)"
  by (induction rule: sem_step.induct) (auto simp: sem_defs split: if_splits list.splits)

lemma sem_run_limit: "sem_run s es t \<Longrightarrow> limit (sem t) = limit (sem s)"
  by (induction rule: sem_run.induct) (auto simp: sem_step_limit)

text \<open>
  C24. The semaphore bounds concurrency: in every state that clients can reach from a new
  semaphore by any interleaving of acquisitions, releases and time-outs, the number of requests
  holding a slot is the counter \<open>active\<close>, it never passes the limit, and nobody waits while a slot
  is free.
\<close>

theorem semaphore_bounds_holders:
  assumes "sem_run (init_sys cap waitMs) es s"
  shows "int (length (holders s)) = active (sem s) \<and> int (length (holders s)) \<le> max 0 cap \<and>
         (waiting (sem s) > 0 \<longrightarrow> cap \<le> int (length (holders s)))"
  using sem_run_inv [OF assms sem_inv_init] sem_run_limit [OF assms]
  by (auto simp: sem_inv_def waiting_def init_sys_def createSemaphore_def)

theorem semaphore_bounds_holders_witness:
  "\<exists>s. sem_run (init_sys 1 500) [Acquire 1, Acquire 2, Release 1] s \<and> holders s = [2] \<and>
       int (length (holders s)) \<le> max 0 1"
proof -
  let ?s = "\<lparr>sem = \<lparr>limit = 1, waitTimeoutMs = 500, active = 1, waiters = []\<rparr>, holders = [2], granted = [1, 2]\<rparr>"
  have run: "sem_run (init_sys 1 500) [Acquire 1, Acquire 2, Release 1] ?s"
    by (simp add: init_sys_def createSemaphore_def step_simps sem_defs)
  then show ?thesis using semaphore_bounds_holders [OF run] by (intro exI [of _ ?s]) simp
qed

section \<open>First come, first served\<close>

text \<open>The position of a waiter only goes down, and every release takes one off.\<close>

definition ahead :: "sem_sys \<Rightarrow> nat \<Rightarrow> nat" where
  "ahead s w = length (takeWhile (\<lambda>x. x \<noteq> w) (waiters (sem s)))"

fun releases :: "sem_event list \<Rightarrow> nat" where
  "releases [] = 0"
| "releases (Release h # es) = Suc (releases es)"
| "releases (_ # es) = releases es"

lemma ahead_step:
  assumes "sem_step s e t" "w \<in> set (waiters (sem s))" "e \<noteq> TimedOut w" "sem_inv s"
  shows "(w \<in> set (granted t)) \<or>
         (w \<in> set (waiters (sem t)) \<and> ahead t w + releases [e] \<le> ahead s w)"
  using assms
proof (induction rule: sem_step.induct)
  case (release_handover h s w' m)
  then have "waiters (sem s) = w' # waiters m" by (auto simp: sem_defs split: list.splits)
  then show ?case using release_handover by (auto simp: ahead_def)
next
  case (timed_out w' s)
  have "length (takeWhile (\<lambda>x. x \<noteq> w) (remove1 w' ws)) \<le> length (takeWhile (\<lambda>x. x \<noteq> w) ws)"
    if "w' \<noteq> w" for ws
    using that by (induction ws) auto
  then show ?case using timed_out by (auto simp: ahead_def sem_defs)
qed (auto simp: sem_defs ahead_def split: if_splits list.splits)

lemma granted_step: "sem_step s e t \<Longrightarrow> set (granted s) \<subseteq> set (granted t)"
  by (induction rule: sem_step.induct) auto

lemma granted_run: "sem_run s es t \<Longrightarrow> set (granted s) \<subseteq> set (granted t)"
  by (induction rule: sem_run.induct) (auto dest: granted_step)

lemma waiter_granted:
  assumes "sem_run s es t" "sem_inv s" "w \<in> set (waiters (sem s))" "TimedOut w \<notin> set es"
    and "ahead s w < releases es"
  shows "w \<in> set (granted t)"
  using assms
proof (induction rule: sem_run.induct)
  case (run_nil s)
  then show ?case by simp
next
  case (run_cons s e t es u)
  have rel: "releases (e # es) = releases [e] + releases es" by (cases e) auto
  have "w \<in> set (granted t) \<or> (w \<in> set (waiters (sem t)) \<and> ahead t w + releases [e] \<le> ahead s w)"
    using run_cons.hyps(1) run_cons.prems by (intro ahead_step) auto
  then show ?case
    using run_cons rel granted_run sem_step_inv by (auto simp: subset_iff)
qed

text \<open>
  No waiter starves: a request that waits with \<open>n\<close> others ahead of it holds a slot after any
  run with at least \<open>n + 1\<close> releases, unless its own timer fires; requests that arrive later do not
  overtake it.
\<close>

theorem semaphore_fifo_progress:
  assumes "sem_run (init_sys cap waitMs) before s" and "sem_run s es t"
    and "w \<in> set (waiters (sem s))" and "TimedOut w \<notin> set es" and "ahead s w < releases es"
  shows "w \<in> set (granted t)"
  using assms(2) sem_run_inv [OF assms(1) sem_inv_init] assms(3-5) by (rule waiter_granted)

theorem semaphore_fifo_progress_witness:
  "\<exists>s t. sem_run (init_sys 1 500) [Acquire 1, Acquire 2] s \<and> sem_run s [Acquire 3, Release 1] t \<and>
         2 \<in> set (granted t)"
proof -
  let ?s = "\<lparr>sem = \<lparr>limit = 1, waitTimeoutMs = 500, active = 1, waiters = [2]\<rparr>, holders = [1], granted = [1]\<rparr>"
  let ?t = "\<lparr>sem = \<lparr>limit = 1, waitTimeoutMs = 500, active = 1, waiters = [3]\<rparr>, holders = [2], granted = [1, 2]\<rparr>"
  have s: "sem_run (init_sys 1 500) [Acquire 1, Acquire 2] ?s"
    by (simp add: init_sys_def createSemaphore_def step_simps sem_defs)
  have t: "sem_run ?s [Acquire 3, Release 1] ?t"
    by (simp add: step_simps sem_defs)
  have "2 \<in> set (granted ?t)"
    by (rule semaphore_fifo_progress [OF s t]) (simp_all add: ahead_def)
  with s t show ?thesis by blast
qed

end
