(* ===== verification/ApiKeys.thy ===== *)
theory ApiKeys
  imports Prelude
begin

text \<open>
  The store of API keys, \<open>lib/admin/ApiKeyStore.js\<close>: the tables \<open>api_keys\<close>, \<open>api_key_usage\<close>
  and \<open>api_key_group_members\<close> as a record, one function per operation with the effect of its
  SQL statement, exceptions as the left side of a sum.  The primary key of \<open>api_keys\<close> and the
  uniqueness of \<open>key_hash\<close> are the invariant \<open>keys_ok\<close>, which every operation keeps; it is the
  schema of \<open>migration-003-api-keys.sql\<close>.  \<open>SHA-256\<close> is the parameter \<open>sha\<close>; the random part
  of a new key and its row id are arguments, as are the date of today and the connection (a
  query throws when it is down).

  The lemmas show what a validated key is, that deactivating or deleting a key takes effect at
  once on both ways to validate it, and that groups are symmetric.
\<close>

record api_key =
  k_id :: string
  k_name :: string
  key_hash :: string
  key_prefix :: string
  permissions :: "string list"
  status :: string
  daily_limit :: int
  fragment_limit :: "int option"
  default_workspace :: "string option"
  default_mode :: "string option"
  symbolic_hard_gate :: bool
  created_at :: int
  last_used_at :: "int option"

record key_group =
  g_id :: string
  g_name :: string

record key_db =
  db_up :: bool
  api_keys :: "api_key list"
  api_key_usage :: "(string \<times> int, int) jsmap"
  key_groups :: "key_group list"
  group_members :: "(string \<times> string) list"

datatype key_error = DbError | KeyNotFound | GroupNotFound | InvalidStatus string | BadLimit | BadPermissions | BadWorkspace

definition keys_ok :: "key_db \<Rightarrow> bool" where
  "keys_ok db \<longleftrightarrow>
     distinct (map k_id (api_keys db)) \<and> distinct (map key_hash (api_keys db)) \<and>
     [] \<notin> k_id ` set (api_keys db)"

text \<open>Update the rows with a given id; the number of rows found.\<close>

definition update_key :: "string \<Rightarrow> (api_key \<Rightarrow> api_key) \<Rightarrow> key_db \<Rightarrow> key_db" where
  "update_key i f db = db\<lparr>api_keys := map (\<lambda>k. if k_id k = i then f k else k) (api_keys db)\<rparr>"

definition has_key :: "string \<Rightarrow> key_db \<Rightarrow> bool" where
  "has_key i db = list_ex (\<lambda>k. k_id k = i) (api_keys db)"

section \<open>Keys\<close>

definition slug_char :: "char \<Rightarrow> bool" where
  "slug_char c = (let n = (of_char c :: nat) in 48 \<le> n \<and> n \<le> 57 \<or> 65 \<le> n \<and> n \<le> 90 \<or> 97 \<le> n \<and> n \<le> 122)"

definition generateRawKey :: "string \<Rightarrow> string \<Rightarrow> string" where
  "generateRawKey name random =
     (let slug = map to_lower (take 8 (filter slug_char name))
      in ''wdm_'' @ (if slug = [] then ''key'' else slug) @ ''_'' @ random)"

definition createApiKey ::
  "(string \<Rightarrow> string) \<Rightarrow> int \<Rightarrow> string \<Rightarrow> string \<Rightarrow> string \<Rightarrow> string list \<Rightarrow> int \<Rightarrow> int option \<Rightarrow> key_db
     \<Rightarrow> key_error + string \<times> key_db" where
  "createApiKey sha now new_id random name perms daily fragLimit db =
     (let rawKey = generateRawKey name random;
          row = \<lparr>k_id = new_id, k_name = name, key_hash = sha rawKey, key_prefix = take 14 rawKey,
                 permissions = perms, status = ''active'', daily_limit = daily,
                 fragment_limit = fragLimit, default_workspace = None, default_mode = None,
                 symbolic_hard_gate = False, created_at = now, last_used_at = None\<rparr>
      in if \<not> db_up db \<or> name \<in> k_name ` set (api_keys db) \<or> has_key new_id db
            \<or> sha rawKey \<in> key_hash ` set (api_keys db) \<or> daily \<le> 0
         then Inl DbError
         else Inr (rawKey, db\<lparr>api_keys := api_keys db @ [row]\<rparr>))"

definition updateFragmentLimit :: "string \<Rightarrow> int option \<Rightarrow> key_db \<Rightarrow> key_error + bool \<times> key_db" where
  "updateFragmentLimit keyId lm db =
     (if \<not> db_up db then Inl DbError
      else Inr (has_key keyId db, update_key keyId (\<lambda>k. k\<lparr>fragment_limit := lm\<rparr>) db))"

definition updateDailyLimit :: "string \<Rightarrow> int \<Rightarrow> key_db \<Rightarrow> key_error + int \<times> key_db" where
  "updateDailyLimit keyId lm db =
     (if lm < 1 then Inl BadLimit
      else if \<not> db_up db then Inl DbError
      else if \<not> has_key keyId db then Inl KeyNotFound
      else Inr (lm, update_key keyId (\<lambda>k. k\<lparr>daily_limit := lm\<rparr>) db))"

definition updatePermissions :: "string \<Rightarrow> string list \<Rightarrow> key_db \<Rightarrow> key_error + string list \<times> key_db" where
  "updatePermissions keyId perms db =
     (if \<not> list_all (\<lambda>p. p \<in> {''read'', ''write''}) perms then Inl BadPermissions
      else if \<not> db_up db then Inl DbError
      else if \<not> has_key keyId db then Inl KeyNotFound
      else Inr (perms, update_key keyId (\<lambda>k. k\<lparr>permissions := perms\<rparr>) db))"

definition updateApiKeyStatus :: "string \<Rightarrow> string \<Rightarrow> key_db \<Rightarrow> key_error + key_db" where
  "updateApiKeyStatus i st db =
     (if st \<notin> {''active'', ''inactive''} then Inl (InvalidStatus st)
      else if \<not> db_up db then Inl DbError
      else if \<not> has_key i db then Inl KeyNotFound
      else Inr (update_key i (\<lambda>k. k\<lparr>status := st\<rparr>) db))"

text \<open>Deleting a key removes its usage and group rows too (\<open>ON DELETE CASCADE\<close>).\<close>

definition deleteApiKey :: "string \<Rightarrow> key_db \<Rightarrow> key_error + key_db" where
  "deleteApiKey i db =
     (if \<not> db_up db then Inl DbError
      else if \<not> has_key i db then Inl KeyNotFound
      else Inr (db\<lparr>api_keys := filter (\<lambda>k. k_id k \<noteq> i) (api_keys db),
                   api_key_usage := filter (\<lambda>((k, d), n). k \<noteq> i) (api_key_usage db),
                   group_members := filter (\<lambda>(g, k). k \<noteq> i) (group_members db)\<rparr>))"

definition updateWorkspace :: "string \<Rightarrow> string option \<Rightarrow> key_db \<Rightarrow> key_error + string option \<times> key_db" where
  "updateWorkspace keyId workspace db =
     (if (case workspace of None \<Rightarrow> False | Some w \<Rightarrow> js_trim w = []) then Inl BadWorkspace
      else if \<not> db_up db then Inl DbError
      else if \<not> has_key keyId db then Inl KeyNotFound
      else Inr (workspace, update_key keyId (\<lambda>k. k\<lparr>default_workspace := workspace\<rparr>) db))"

section \<open>Groups and usage\<close>

definition createKeyGroup :: "string \<Rightarrow> string \<Rightarrow> key_db \<Rightarrow> key_error + key_group \<times> key_db" where
  "createKeyGroup new_id name db =
     (let g = \<lparr>g_id = new_id, g_name = name\<rparr>
      in if \<not> db_up db \<or> name \<in> g_name ` set (key_groups db) \<or> new_id \<in> g_id ` set (key_groups db)
         then Inl DbError
         else Inr (g, db\<lparr>key_groups := key_groups db @ [g]\<rparr>))"

definition deleteKeyGroup :: "string \<Rightarrow> key_db \<Rightarrow> key_error + key_db" where
  "deleteKeyGroup i db =
     (if \<not> db_up db then Inl DbError
      else if i \<notin> g_id ` set (key_groups db) then Inl GroupNotFound
      else Inr (db\<lparr>key_groups := filter (\<lambda>g. g_id g \<noteq> i) (key_groups db),
                   group_members := filter (\<lambda>(g, k). g \<noteq> i) (group_members db)\<rparr>))"

definition getGroupMembers :: "string \<Rightarrow> key_db \<Rightarrow> key_error + (string \<times> string \<times> string \<times> string) list" where
  "getGroupMembers groupId db =
     (if \<not> db_up db then Inl DbError
      else Inr [(k_id k, k_name k, key_prefix k, status k). (g, i) \<leftarrow> group_members db, g = groupId,
                k \<leftarrow> api_keys db, k_id k = i])"

definition listKeyGroups :: "key_db \<Rightarrow> key_error + (key_group \<times> nat) list" where
  "listKeyGroups db =
     (if \<not> db_up db then Inl DbError
      else Inr (map (\<lambda>g. (g, length (filter (\<lambda>(g', k). g' = g_id g) (group_members db)))) (rev (key_groups db))))"

definition addKeyToGroup :: "string \<Rightarrow> string \<Rightarrow> key_db \<Rightarrow> key_error + key_db" where
  "addKeyToGroup keyId groupId db =
     (if \<not> db_up db \<or> \<not> has_key keyId db \<or> groupId \<notin> g_id ` set (key_groups db) then Inl DbError
      else if (groupId, keyId) \<in> set (group_members db) then Inr db
      else Inr (db\<lparr>group_members := group_members db @ [(groupId, keyId)]\<rparr>))"

definition removeKeyFromGroup :: "string \<Rightarrow> string \<Rightarrow> key_db \<Rightarrow> key_error + bool \<times> key_db" where
  "removeKeyFromGroup keyId groupId db =
     (if \<not> db_up db then Inl DbError
      else Inr ((groupId, keyId) \<in> set (group_members db),
                db\<lparr>group_members := filter (\<lambda>p. p \<noteq> (groupId, keyId)) (group_members db)\<rparr>))"

definition getGroupKeyIds :: "string option \<Rightarrow> key_db \<Rightarrow> key_error + string list option" where
  "getGroupKeyIds keyId db =
     (if \<not> truthy keyId then Inr None
      else if \<not> db_up db then Inl DbError
      else let rows = remdups [k2. (g1, k1) \<leftarrow> group_members db, k1 = the keyId,
                                   (g2, k2) \<leftarrow> group_members db, g1 = g2]
           in Inr (Some (if rows \<noteq> [] then rows else [the keyId])))"

definition usage_today :: "int \<Rightarrow> string \<Rightarrow> key_db \<Rightarrow> int" where
  "usage_today today i db = nullish_to (map_of (api_key_usage db) (i, today)) 0"

definition incrementUsage :: "int \<Rightarrow> int \<Rightarrow> string \<Rightarrow> key_db \<Rightarrow> key_db" where
  "incrementUsage now today keyId db =
     (if \<not> db_up db \<or> \<not> has_key keyId db then db
      else update_key keyId (\<lambda>k. k\<lparr>last_used_at := Some now\<rparr>)
             (db\<lparr>api_key_usage := AList.update (keyId, today) (usage_today today keyId db + 1) (api_key_usage db)\<rparr>))"

text \<open>The listing of the admin console: a row per key, newest first, never with the hash.\<close>

record key_row =
  r_id :: string
  r_name :: string
  r_prefix :: string
  r_permissions :: "string list"
  r_status :: string
  r_daily_limit :: int
  r_fragment_limit :: "int option"
  r_last_used_at :: "int option"
  r_created_at :: int
  r_default_workspace :: "string option"
  r_usage_today :: int
  r_fragment_count :: int
  r_groups :: "key_group list"

definition listApiKeys :: "(string \<Rightarrow> int) \<Rightarrow> int \<Rightarrow> key_db \<Rightarrow> key_error + key_row list" where
  "listApiKeys fragment_count today db =
     (if \<not> db_up db then Inl DbError
      else Inr (map (\<lambda>k.
        \<lparr>r_id = k_id k, r_name = k_name k, r_prefix = key_prefix k, r_permissions = permissions k,
         r_status = status k, r_daily_limit = daily_limit k, r_fragment_limit = fragment_limit k,
         r_last_used_at = last_used_at k, r_created_at = created_at k,
         r_default_workspace = default_workspace k, r_usage_today = usage_today today (k_id k) db,
         r_fragment_count = fragment_count (k_id k),
         r_groups = [g. (gi, ki) \<leftarrow> group_members db, ki = k_id k, g \<leftarrow> key_groups db, g_id g = gi]\<rparr>)
        (sort_key (\<lambda>k. - created_at k) (api_keys db))))"

section \<open>Validation\<close>

record key_info =
  keyId :: string
  i_name :: string
  groupKeyIds :: "string list option"
  i_permissions :: "string list"
  fragmentLimit :: "int option js"
  defaultWorkspace :: "string option"
  defaultMode :: "string option"

datatype key_result = Invalid "string option" | Valid key_info

definition row_info :: "api_key \<Rightarrow> string list option \<Rightarrow> int option js \<Rightarrow> key_info" where
  "row_info k gs fl =
     \<lparr>keyId = k_id k, i_name = k_name k, groupKeyIds = gs, i_permissions = permissions k,
      fragmentLimit = fl, defaultWorkspace = default_workspace k, defaultMode = default_mode k\<rparr>"

definition validateApiKeyFromDB ::
  "(string \<Rightarrow> string) \<Rightarrow> int \<Rightarrow> string \<Rightarrow> key_db \<Rightarrow> key_error + key_result" where
  "validateApiKeyFromDB sha today rawKey db =
     (if \<not> db_up db then Inl DbError
      else case find (\<lambda>k. key_hash k = sha rawKey) (api_keys db) of
        None \<Rightarrow> Inr (Invalid None)
      | Some k \<Rightarrow>
          if status k \<noteq> ''active'' then Inr (Invalid (Some ''inactive''))
          else if usage_today today (k_id k) db \<ge> daily_limit k
          then Inr (Invalid (Some ''limit_exceeded''))
          else case getGroupKeyIds (Some (k_id k)) db of
            Inl e \<Rightarrow> Inl e
          | Inr gs \<Rightarrow> Inr (Valid (row_info k gs (Val (fragment_limit k)))))"

text \<open>The lookup by id, of the OAuth path, catches every exception and does not read the usage.\<close>

definition validateApiKeyById :: "string option \<Rightarrow> key_db \<Rightarrow> key_result" where
  "validateApiKeyById i db =
     (if \<not> truthy i then Invalid None
      else if \<not> db_up db then Invalid None
      else case find (\<lambda>k. k_id k = the i) (api_keys db) of
        None \<Rightarrow> Invalid None
      | Some k \<Rightarrow>
          if status k \<noteq> ''active'' then Invalid (Some ''inactive'')
          else case getGroupKeyIds (Some (k_id k)) db of
            Inl e \<Rightarrow> Invalid None
          | Inr gs \<Rightarrow> Valid (row_info k gs Undef))"

section \<open>The hard gate flag and its cache\<close>

definition HARD_GATE_CACHE_TTL_MS :: int where
  "HARD_GATE_CACHE_TTL_MS = 30000"

type_synonym gate_cache = "(string, bool \<times> int) jsmap"

definition getSymbolicHardGate :: "int \<Rightarrow> string option \<Rightarrow> key_db \<Rightarrow> gate_cache \<Rightarrow> bool \<times> gate_cache" where
  "getSymbolicHardGate now kid db cache =
     (case kid of
        None \<Rightarrow> (False, cache)
      | Some k \<Rightarrow>
          let cached = (case map_of cache k of
                          None \<Rightarrow> None
                        | Some (v, expiresAt) \<Rightarrow> if expiresAt > now then Some v else None)
          in (case cached of
                Some v \<Rightarrow> (v, cache)
              | None \<Rightarrow>
                  if \<not> db_up db then (False, cache)
                  else let value = (case find (\<lambda>r. k_id r = k) (api_keys db) of
                                      None \<Rightarrow> False | Some r \<Rightarrow> symbolic_hard_gate r)
                       in (value, AList.update k (value, now + HARD_GATE_CACHE_TTL_MS) cache)))"

definition invalidateHardGateCache :: "string \<Rightarrow> gate_cache \<Rightarrow> gate_cache" where
  "invalidateHardGateCache k cache = AList.delete k cache"


section \<open>Uniqueness of keys\<close>

lemmas key_update_defs = updateFragmentLimit_def updateDailyLimit_def updatePermissions_def
  updateApiKeyStatus_def updateWorkspace_def

lemma keys_ok_update:
  assumes "keys_ok db" and "\<And>k. k_id (f k) = k_id k" and "\<And>k. key_hash (f k) = key_hash k"
  shows "keys_ok (update_key i f db)"
proof -
  have "map k_id (api_keys (update_key i f db)) = map k_id (api_keys db)"
    "map key_hash (api_keys (update_key i f db)) = map key_hash (api_keys db)"
    using assms(2,3) by (simp_all add: update_key_def)
  then show ?thesis using assms(1) unfolding keys_ok_def by (metis set_map)
qed

lemma keys_ok_create:
  assumes "keys_ok db" "createApiKey sha t i r n ps d fl db = Inr (raw, db')" "i \<noteq> []"
  shows "keys_ok db'"
  using assms by (auto simp: createApiKey_def keys_ok_def has_key_def list_ex_iff Let_def split: if_splits)

lemma keys_ok_delete: "keys_ok db \<Longrightarrow> deleteApiKey i db = Inr db' \<Longrightarrow> keys_ok db'"
  by (auto simp: deleteApiKey_def keys_ok_def distinct_map_filter split: if_splits)

text \<open>
  The states of the key tables that the operations produce from the empty database.  A new row
  gets a non-empty id (\<open>gen_random_uuid()\<close>).
\<close>

inductive key_reach :: "(string \<Rightarrow> string) \<Rightarrow> key_db \<Rightarrow> bool" for sha where
  kr_empty: "key_reach sha \<lparr>db_up = b, api_keys = [], api_key_usage = [], key_groups = [], group_members = []\<rparr>"
| kr_link: "key_reach sha db \<Longrightarrow> key_reach sha (db\<lparr>db_up := b\<rparr>)"
| kr_create: "key_reach sha db \<Longrightarrow> i \<noteq> [] \<Longrightarrow> createApiKey sha t i r n ps d fl db = Inr (raw, db') \<Longrightarrow> key_reach sha db'"
| kr_frag: "key_reach sha db \<Longrightarrow> updateFragmentLimit i lm db = Inr (found, db') \<Longrightarrow> key_reach sha db'"
| kr_daily: "key_reach sha db \<Longrightarrow> updateDailyLimit i d db = Inr (d', db') \<Longrightarrow> key_reach sha db'"
| kr_perms: "key_reach sha db \<Longrightarrow> updatePermissions i ps db = Inr (ps', db') \<Longrightarrow> key_reach sha db'"
| kr_status: "key_reach sha db \<Longrightarrow> updateApiKeyStatus i st db = Inr db' \<Longrightarrow> key_reach sha db'"
| kr_delete: "key_reach sha db \<Longrightarrow> deleteApiKey i db = Inr db' \<Longrightarrow> key_reach sha db'"
| kr_workspace: "key_reach sha db \<Longrightarrow> updateWorkspace i w db = Inr (w', db') \<Longrightarrow> key_reach sha db'"
| kr_group: "key_reach sha db \<Longrightarrow> createKeyGroup i n db = Inr (g, db') \<Longrightarrow> key_reach sha db'"
| kr_ungroup: "key_reach sha db \<Longrightarrow> deleteKeyGroup i db = Inr db' \<Longrightarrow> key_reach sha db'"
| kr_add: "key_reach sha db \<Longrightarrow> addKeyToGroup i g db = Inr db' \<Longrightarrow> key_reach sha db'"
| kr_remove: "key_reach sha db \<Longrightarrow> removeKeyFromGroup i g db = Inr (x, db') \<Longrightarrow> key_reach sha db'"
| kr_usage: "key_reach sha db \<Longrightarrow> key_reach sha (incrementUsage now today i db)"

lemma keys_ok_frame: "keys_ok db \<Longrightarrow> api_keys db' = api_keys db \<Longrightarrow> keys_ok db'"
  by (simp add: keys_ok_def)

lemma key_reach_ok: "key_reach sha db \<Longrightarrow> keys_ok db"
proof (induction rule: key_reach.induct)
  case (kr_create db i t r n ps d fl raw db')
  then show ?case by (blast intro: keys_ok_create)
next
  case (kr_delete db i db')
  then show ?case by (blast intro: keys_ok_delete)
next
  case (kr_usage db now today i)
  then have "keys_ok (update_key i (last_used_at_update (\<lambda>_. Some now)) (db\<lparr>api_key_usage := u\<rparr>))" for u
    by (intro keys_ok_update keys_ok_frame [OF kr_usage.IH]) auto
  with kr_usage show ?case by (simp add: incrementUsage_def)
qed (auto simp: key_update_defs keys_ok_update addKeyToGroup_def removeKeyFromGroup_def incrementUsage_def
    createKeyGroup_def deleteKeyGroup_def Let_def
    keys_ok_def [of "\<lparr>db_up = _, api_keys = [], api_key_usage = [], key_groups = [], group_members = []\<rparr>"]
    intro: keys_ok_frame split: if_splits)

lemma validate_DB_Valid:
  assumes "validateApiKeyFromDB sha today raw db = Inr (Valid info)"
  obtains k gs where "k \<in> set (api_keys db)" "key_hash k = sha raw" "status k = ''active''"
    "usage_today today (k_id k) db < daily_limit k"
    "getGroupKeyIds (Some (k_id k)) db = Inr gs" "info = row_info k gs (Val (fragment_limit k))"
  using assms
  by (fastforce simp: validateApiKeyFromDB_def split: if_splits option.splits sum.splits dest: find_SomeD)

lemma validate_Id_Valid:
  assumes "validateApiKeyById i db = Valid info"
  obtains k gs where "k \<in> set (api_keys db)" "i = Some (k_id k)" "status k = ''active''"
    "getGroupKeyIds i db = Inr gs" "info = row_info k gs Undef"
proof -
  from assms obtain j where j: "i = Some j" "j \<noteq> []"
    by (auto simp: validateApiKeyById_def split: if_splits elim: truthyE)
  with assms show ?thesis
    by (auto simp: validateApiKeyById_def split: if_splits option.splits sum.splits dest!: find_SomeD intro: that)
qed

text \<open>
  A raw key names one key: in every reachable state of the tables a key accepted by
  \<open>validateApiKeyFromDB\<close> is the only row with its id and the only row with that hash, it is active and
  below its daily limit, and the permissions and the scope handed out are those of that row.
\<close>

theorem validated_key_unique:
  assumes "key_reach sha db" and "validateApiKeyFromDB sha today raw db = Inr (Valid info)"
  shows "\<exists>k. filter (\<lambda>r. key_hash r = sha raw) (api_keys db) = [k] \<and>
             filter (\<lambda>r. k_id r = keyId info) (api_keys db) = [k] \<and> status k = ''active'' \<and>
             usage_today today (k_id k) db < daily_limit k \<and>
             i_permissions info = permissions k \<and> fragmentLimit info = Val (fragment_limit k)"
proof -
  have single: "filter (\<lambda>r. f r = f k) ks = [k]" if "distinct (map f ks)" "k \<in> set ks"
    for f :: "api_key \<Rightarrow> string" and k ks
    using that
  proof (induction ks)
    case (Cons a ks)
    then show ?case by (cases "a = k") (auto simp: filter_empty_conv image_iff)
  qed simp
  from assms(2) obtain k gs where k: "k \<in> set (api_keys db)" "key_hash k = sha raw" "status k = ''active''"
    "usage_today today (k_id k) db < daily_limit k"
    "info = row_info k gs (Val (fragment_limit k))"
    by (rule validate_DB_Valid)
  have "keys_ok db" using assms(1) by (rule key_reach_ok)
  then have "filter (\<lambda>r. key_hash r = key_hash k) (api_keys db) = [k]"
    "filter (\<lambda>r. k_id r = k_id k) (api_keys db) = [k]"
    using k(1) by (auto simp: keys_ok_def intro: single)
  with k show ?thesis by (auto simp: row_info_def)
qed

text \<open>A small table for the examples: the sample hash of a key is its reversal.\<close>

definition sample_key :: "string \<Rightarrow> string \<Rightarrow> api_key" where
  "sample_key i raw =
     \<lparr>k_id = i, k_name = i @ ''-name'', key_hash = rev raw, key_prefix = take 14 raw, permissions = [''read''],
      status = ''active'', daily_limit = 2, fragment_limit = None, default_workspace = None,
      default_mode = None, symbolic_hard_gate = False, created_at = 0, last_used_at = None\<rparr>"

definition sample_db :: key_db where
  "sample_db =
     \<lparr>db_up = True, api_keys = [sample_key ''k1'' ''wdm_a_1'', sample_key ''k2'' ''wdm_b_2''], api_key_usage = [],
      key_groups = [\<lparr>g_id = ''g'', g_name = ''team''\<rparr>], group_members = [(''g'', ''k1''), (''g'', ''k2'')]\<rparr>"

fun accepted :: "key_error + key_result \<Rightarrow> bool" where
  "accepted (Inr (Valid info)) = True"
| "accepted _ = False"

lemma accepted_iff: "accepted r \<longleftrightarrow> (\<exists>info. r = Inr (Valid info))"
  by (cases r rule: accepted.cases) auto

theorem validated_key_unique_witness:
  "\<exists>db info. validateApiKeyFromDB rev 7 ''wdm_a_1'' db = Inr (Valid info) \<and>
     (\<exists>k. filter (\<lambda>r. key_hash r = rev ''wdm_a_1'') (api_keys db) = [k] \<and>
          filter (\<lambda>r. k_id r = keyId info) (api_keys db) = [k] \<and> status k = ''active'' \<and>
          usage_today 7 (k_id k) db < daily_limit k \<and>
          i_permissions info = permissions k \<and> fragmentLimit info = Val (fragment_limit k))"
proof -
  let ?e = "\<lparr>db_up = True, api_keys = [], api_key_usage = [], key_groups = [], group_members = []\<rparr>"
  let ?raw = "''wdm_a_1''"
  have "case createApiKey rev 0 ''k1'' ''1'' ''A!'' [''read''] 5 None ?e of
          Inl _ \<Rightarrow> False
        | Inr p \<Rightarrow> fst p = ?raw \<and> accepted (validateApiKeyFromDB rev 7 (fst p) (snd p))"
    by code_simp
  then obtain db info where db: "createApiKey rev 0 ''k1'' ''1'' ''A!'' [''read''] 5 None ?e = Inr (?raw, db)"
      and v: "validateApiKeyFromDB rev 7 ?raw db = Inr (Valid info)"
    unfolding accepted_iff by (auto split: sum.split_asm)
  have "key_reach rev db" by (rule kr_create [OF kr_empty _ db]) simp
  from validated_key_unique [OF this v] v show ?thesis by blast
qed

section \<open>Revocation\<close>

lemma mem_update_key:
  "k \<in> set (api_keys (update_key i f db)) \<longleftrightarrow>
     k \<in> set (api_keys db) \<and> k_id k \<noteq> i \<or> (\<exists>k0\<in>set (api_keys db). k_id k0 = i \<and> k = f k0)"
  by (auto simp: update_key_def image_iff)

definition refused :: "(string \<Rightarrow> string) \<Rightarrow> string \<Rightarrow> key_db \<Rightarrow> bool" where
  "refused sha i db \<longleftrightarrow>
     (\<forall>today raw info. validateApiKeyFromDB sha today raw db = Inr (Valid info) \<longrightarrow> keyId info \<noteq> i) \<and>
     (\<forall>j info. validateApiKeyById j db = Valid info \<longrightarrow> keyId info \<noteq> i)"

lemma refusedI:
  assumes "\<And>k. k \<in> set (api_keys db) \<Longrightarrow> k_id k = i \<Longrightarrow> status k \<noteq> ''active''"
  shows "refused sha i db"
  unfolding refused_def
  using assms by (auto simp: row_info_def elim!: validate_DB_Valid validate_Id_Valid)

text \<open>
  C1. Revocation takes effect at once: after an administrator sets a key to \<open>inactive\<close> or deletes it,
  neither the raw key nor the key id (the path of OAuth tokens) authenticates as that key, whatever
  the state of the tables; the other keys are looked up as before.
\<close>

theorem revocation_immediate:
  assumes "updateApiKeyStatus i ''inactive'' db = Inr db' \<or> deleteApiKey i db = Inr db'"
  shows "refused sha i db' \<and> (\<forall>k. k_id k \<noteq> i \<longrightarrow> (k \<in> set (api_keys db') \<longleftrightarrow> k \<in> set (api_keys db)))"
proof -
  from assms consider "db' = update_key i (\<lambda>k. k\<lparr>status := ''inactive''\<rparr>) db"
    | "api_keys db' = filter (\<lambda>k. k_id k \<noteq> i) (api_keys db)"
    by (auto simp: updateApiKeyStatus_def deleteApiKey_def split: if_splits)
  then show ?thesis
  proof cases
    case 1
    note mem = mem_update_key [of _ i "status_update (\<lambda>_. ''inactive'')" db, folded 1]
    have "status k = ''inactive''" if "k \<in> set (api_keys db')" "k_id k = i" for k
      using that mem [of k] by (metis (lifting) api_key.select_convs(6) api_key.surjective api_key.update_convs(6))
    then have "refused sha i db'" by (intro refusedI) simp
    moreover have "k_id (k0\<lparr>status := st\<rparr>) = k_id k0" for k0 st by simp
    with mem have "k \<in> set (api_keys db') \<longleftrightarrow> k \<in> set (api_keys db)" if "k_id k \<noteq> i" for k
      using that by metis
    ultimately show ?thesis by blast
  qed (intro conjI refusedI, auto)
qed

theorem revocation_immediate_witness:
  "\<exists>db'. updateApiKeyStatus ''k1'' ''inactive'' sample_db = Inr db' \<and> refused rev ''k1'' db' \<and>
     sample_key ''k2'' ''wdm_b_2'' \<in> set (api_keys db') \<and>
     (\<exists>info. validateApiKeyById (Some ''k1'') sample_db = Valid info)"
proof -
  have "\<exists>db'. updateApiKeyStatus ''k1'' ''inactive'' sample_db = Inr db'"
    by (simp add: updateApiKeyStatus_def sample_db_def has_key_def sample_key_def)
  then obtain db' where db': "updateApiKeyStatus ''k1'' ''inactive'' sample_db = Inr db'" ..
  have "\<exists>info. validateApiKeyById (Some ''k1'') sample_db = Valid info"
    by (simp add: validateApiKeyById_def sample_db_def sample_key_def getGroupKeyIds_def)
  with db' revocation_immediate [of "''k1''" sample_db db' rev] show ?thesis
    by (auto simp: sample_db_def sample_key_def)
qed

section \<open>Groups\<close>

lemma getGroupKeyIds_mem:
  assumes "getGroupKeyIds (Some a) db = Inr (Some xs)"
  shows "b \<in> set xs \<longleftrightarrow> (\<exists>g. (g, a) \<in> set (group_members db) \<and> (g, b) \<in> set (group_members db)) \<or>
                    (b = a \<and> (\<forall>g. (g, a) \<notin> set (group_members db)))"
  using assms by (fastforce simp: getGroupKeyIds_def Let_def filter_empty_conv split: if_splits)

text \<open>
  The tenant scope of keys is reflexive and symmetric: a key always sees its own rows, and key
  \<open>b\<close> is in the scope of key \<open>a\<close> exactly when \<open>a\<close> is in the scope of \<open>b\<close>; a key that shares no group
  is visible to itself only.
\<close>

theorem group_scope_symmetric:
  assumes "getGroupKeyIds (Some a) db = Inr (Some xs)" and "getGroupKeyIds (Some b) db = Inr (Some ys)"
  shows "a \<in> set xs \<and> distinct xs \<and> (b \<in> set xs \<longleftrightarrow> a \<in> set ys) \<and>
         (xs = [a] \<longleftrightarrow> (\<forall>g k. (g, a) \<in> set (group_members db) \<and> (g, k) \<in> set (group_members db) \<longrightarrow> k = a))"
proof -
  note mem = getGroupKeyIds_mem [OF assms(1)] getGroupKeyIds_mem [OF assms(2)]
  have a: "a \<in> set xs" using mem(1) [of a] by blast
  have sym: "b \<in> set xs \<longleftrightarrow> a \<in> set ys" using mem(1) [of b] mem(2) [of a] by blast
  have d: "distinct xs" using assms(1) by (auto simp: getGroupKeyIds_def Let_def split: if_splits)
  have "xs = [a] \<longleftrightarrow> set xs = {a}"
    using d a by (cases xs) (auto simp: subset_singleton_iff)
  also have "\<dots> \<longleftrightarrow> (\<forall>g k. (g, a) \<in> set (group_members db) \<and> (g, k) \<in> set (group_members db) \<longrightarrow> k = a)"
    using a mem(1) by blast
  finally show ?thesis using a sym d by blast
qed

theorem group_scope_symmetric_witness:
  "getGroupKeyIds (Some ''k1'') sample_db = Inr (Some [''k1'', ''k2'']) \<and>
   ''k1'' \<in> set [''k1'', ''k2''] \<and> distinct [''k1'', ''k2'']"
proof -
  have "getGroupKeyIds (Some ''k1'') sample_db = Inr (Some [''k1'', ''k2''])"
    by (simp add: getGroupKeyIds_def sample_db_def)
  with group_scope_symmetric [OF this this] show ?thesis by blast
qed

end
