(* ===== verification/OAuth.thy ===== *)
theory OAuth
  imports Redis ApiKeys
begin

text \<open>
  The OAuth 2.0 endpoints: \<open>lib/oauth.js\<close>, the client registry \<open>lib/admin/OAuthClientStore.js\<close>
  and the registration handler of \<open>lib/handlers/oauth-handler.js\<close>.

  The state holds both stores of codes and tokens (Redis, and the maps that replace it when
  \<open>REDIS_ENABLED\<close> is off) and the table of clients.  Random codes and tokens are arguments, so
  are the clock, \<open>SHA-256\<close> (\<open>sha\<close>, as hex, and \<open>sha64\<close>, as base64) and the parser of \<open>URL\<close>
  (\<open>parse_url\<close> gives hostname and origin, \<open>None\<close> where the constructor throws).  A handler
  returns its response and the new state; an uncaught exception is the response \<open>Raised\<close>.
\<close>

record oauth_cfg =
  ACCESS_KEY :: string
  REDIS_ENABLED :: bool
  OAUTH_TRUSTED_ORIGINS :: "string list"
  OAUTH_ALLOWED_REDIRECT_URIS :: "string list"
  OAUTH_TOKEN_TTL_SECONDS :: int
  sha :: "string \<Rightarrow> string"
  sha64 :: "string \<Rightarrow> string"
  parse_url :: "string \<Rightarrow> (string \<times> string) option"

definition OAUTH_REFRESH_TTL_SECONDS :: "oauth_cfg \<Rightarrow> int" where
  "OAUTH_REFRESH_TTL_SECONDS c = OAUTH_TOKEN_TTL_SECONDS c * 2"

definition CODE_TTL_MS :: int where "CODE_TTL_MS = 10 * 60 * 1000"
definition CODE_TTL_SECONDS :: int where "CODE_TTL_SECONDS = 600"

definition TOKEN_TTL_MS :: "oauth_cfg \<Rightarrow> int" where
  "TOKEN_TTL_MS c = OAUTH_TOKEN_TTL_SECONDS c * 1000"

record code_data =
  c_client_id :: "string option"
  c_redirect_uri :: "string option"
  code_challenge :: "string option"
  c_scope :: string
  c_state :: "string option"
  c_is_api_key :: bool
  c_bound_key_id :: "string option"
  c_resource :: "string option"
  c_created_at :: int
  c_expires_at :: int

record token_data =
  t_type :: string
  t_client_id :: "string option"
  t_scope :: string
  t_is_api_key :: bool
  t_bound_key_id :: "string option"
  t_resource :: "string option"
  t_created_at :: int
  t_expires_at :: int

record oauth_client =
  client_id :: string
  client_name :: "string option"
  redirect_uris :: "string list"
  oc_scope :: string
  client_uri :: "string option"
  logo_uri :: "string option"
  oc_created_at :: int
  oc_last_used_at :: "int option"

record oauth_state =
  code_redis :: "code_data redis"
  token_redis :: "token_data redis"
  authCodes :: "(string, code_data) jsmap"
  accessTokens :: "(string, token_data) jsmap"
  oauth_clients :: "oauth_client list"

section \<open>Hashes and redirect URIs\<close>

definition safeCompare :: "(string \<Rightarrow> string) \<Rightarrow> string \<Rightarrow> string \<Rightarrow> bool" where
  "safeCompare h a b = (h a = h b)"

definition base64UrlEncode :: "string \<Rightarrow> string" where
  "base64UrlEncode b64 =
     filter (\<lambda>c. c \<noteq> CHR ''='')
       (map (\<lambda>c. if c = CHR ''+'' then CHR ''-'' else if c = CHR ''/'' then CHR ''_'' else c) b64)"

definition verifyCodeChallenge :: "oauth_cfg \<Rightarrow> string \<Rightarrow> string option \<Rightarrow> bool" where
  "verifyCodeChallenge cfg codeVerifier codeChallenge =
     (Some (base64UrlEncode (sha64 cfg codeVerifier)) = codeChallenge)"

definition isAllowedRedirectUri :: "oauth_cfg \<Rightarrow> string option \<Rightarrow> bool" where
  "isAllowedRedirectUri cfg uri =
     (if \<not> truthy uri then False
      else case parse_url cfg (the uri) of
        None \<Rightarrow> False
      | Some (hostname, origin) \<Rightarrow>
          hostname = ''localhost'' \<or> hostname = ''127.0.0.1'' \<or>
          origin \<in> set (OAUTH_TRUSTED_ORIGINS cfg) \<or> the uri \<in> set (OAUTH_ALLOWED_REDIRECT_URIS cfg))"

section \<open>The client registry\<close>

record register_opts =
  ro_client_id :: "string option"
  ro_client_name :: "string option"
  ro_redirect_uris :: "string list"
  ro_scope :: "string option"
  ro_client_uri :: "string option"
  ro_logo_uri :: "string option"

definition registerClient ::
  "int \<Rightarrow> string \<Rightarrow> bool \<Rightarrow> register_opts \<Rightarrow> oauth_state \<Rightarrow> (oauth_client option) \<times> oauth_state" where
  "registerClient now random db_ok opts s =
     (let clientId = the (js_or (ro_client_id opts) (Some (''wdm_'' @ random)));
          row = \<lparr>client_id = clientId, client_name = js_or (ro_client_name opts) None,
                 redirect_uris = ro_redirect_uris opts, oc_scope = the (js_or (ro_scope opts) (Some ''mcp'')),
                 client_uri = js_or (ro_client_uri opts) None, logo_uri = js_or (ro_logo_uri opts) None,
                 oc_created_at = now, oc_last_used_at = None\<rparr>
      in if ro_redirect_uris opts = [] \<or> \<not> db_ok then (None, s)
         else case find (\<lambda>r. client_id r = clientId) (oauth_clients s) of
           Some old \<Rightarrow>
             (Some (old\<lparr>oc_last_used_at := Some now\<rparr>),
              s\<lparr>oauth_clients := map (\<lambda>r. if client_id r = clientId then r\<lparr>oc_last_used_at := Some now\<rparr> else r)
                                  (oauth_clients s)\<rparr>)
         | None \<Rightarrow> (Some row, s\<lparr>oauth_clients := oauth_clients s @ [row]\<rparr>))"

definition getClient :: "int \<Rightarrow> bool \<Rightarrow> string option \<Rightarrow> oauth_state \<Rightarrow> (unit + oauth_client option) \<times> oauth_state" where
  "getClient now db_ok clientId s =
     (if \<not> truthy clientId then (Inr None, s)
      else if \<not> db_ok then (Inl (), s)
      else case find (\<lambda>r. client_id r = the clientId) (oauth_clients s) of
        None \<Rightarrow> (Inr None, s)
      | Some row \<Rightarrow>
          (Inr (Some row),
           s\<lparr>oauth_clients := map (\<lambda>r. if client_id r = the clientId then r\<lparr>oc_last_used_at := Some now\<rparr> else r)
                               (oauth_clients s)\<rparr>))"

definition validateRedirectUri :: "oauth_client \<Rightarrow> string option \<Rightarrow> bool" where
  "validateRedirectUri client redirectUri = (redirectUri \<in> Some ` set (redirect_uris client))"

definition listClients :: "oauth_state \<Rightarrow> oauth_client list" where
  "listClients s = sort_key (\<lambda>r. - oc_created_at r) (oauth_clients s)"

definition deleteClient :: "bool \<Rightarrow> string \<Rightarrow> oauth_state \<Rightarrow> bool \<times> oauth_state" where
  "deleteClient db_ok clientId s =
     (if \<not> db_ok \<or> \<not> list_ex (\<lambda>r. client_id r = clientId) (oauth_clients s) then (False, s)
      else (True, s\<lparr>oauth_clients := filter (\<lambda>r. client_id r \<noteq> clientId) (oauth_clients s)\<rparr>))"

text \<open>
  \<open>POST /register\<close>: a bearer API key that validates binds the client to the key by its name
  \<open>apikey:<keyId>\<close>; otherwise the name is the one in the request body.  \<open>bearer\<close> is the token of
  the \<open>Authorization\<close> header, if there is one.
\<close>

record register_body =
  rb_redirect_uris :: "string list"
  rb_client_name :: "string option"
  rb_scope :: "string option"
  rb_client_uri :: "string option"
  rb_logo_uri :: "string option"

definition bound_names :: "oauth_cfg \<Rightarrow> int \<Rightarrow> key_db \<Rightarrow> string option \<Rightarrow> (string \<times> string) option" where
  "bound_names cfg today db bearer =
     (case bearer of
        None \<Rightarrow> None
      | Some t \<Rightarrow>
          (case validateApiKeyFromDB (sha cfg) today (js_trim t) db of
             Inr (Valid info) \<Rightarrow>
               (let rawName = (if i_name info = [] then keyId info else i_name info);
                    keyIdHex = take 8 (filter (\<lambda>c. c \<noteq> CHR ''-'') (keyId info))
                in Some (rawName @ ''_'' @ keyIdHex, ''apikey:'' @ keyId info))
           | _ \<Rightarrow> None))"

definition handleOAuthRegister ::
  "oauth_cfg \<Rightarrow> int \<Rightarrow> int \<Rightarrow> string \<Rightarrow> key_db \<Rightarrow> string option \<Rightarrow> register_body \<Rightarrow> oauth_state
     \<Rightarrow> (nat \<times> oauth_client option) \<times> oauth_state" where
  "handleOAuthRegister cfg now today random db bearer body s =
     (if rb_redirect_uris body = [] then ((400, None), s)
      else
        let bound = bound_names cfg today db bearer;
            r = registerClient now random (db_up db)
                  \<lparr>ro_client_id = map_option fst bound,
                   ro_client_name = js_or (map_option snd bound) (rb_client_name body),
                   ro_redirect_uris = rb_redirect_uris body, ro_scope = rb_scope body,
                   ro_client_uri = rb_client_uri body, ro_logo_uri = rb_logo_uri body\<rparr> s
        in (case fst r of None \<Rightarrow> ((500, None), snd r) | Some client \<Rightarrow> ((201, Some client), snd r)))"

section \<open>Codes and tokens, in Redis or in memory\<close>

definition put_code :: "oauth_cfg \<Rightarrow> int \<Rightarrow> string \<Rightarrow> code_data \<Rightarrow> oauth_state \<Rightarrow> oauth_state" where
  "put_code cfg now code d s =
     (if REDIS_ENABLED cfg
      then s\<lparr>code_redis := snd (saveOAuthCode now code d CODE_TTL_SECONDS (code_redis s))\<rparr>
      else s\<lparr>authCodes := AList.update code d (authCodes s)\<rparr>)"

definition take_code :: "oauth_cfg \<Rightarrow> int \<Rightarrow> string \<Rightarrow> oauth_state \<Rightarrow> code_data option \<times> oauth_state" where
  "take_code cfg now code s =
     (if REDIS_ENABLED cfg
      then (case consumeOAuthCode now code (code_redis s) of (d, r) \<Rightarrow> (d, s\<lparr>code_redis := r\<rparr>))
      else (map_of (authCodes s) code, s\<lparr>authCodes := AList.delete code (authCodes s)\<rparr>))"

definition get_token :: "oauth_cfg \<Rightarrow> int \<Rightarrow> oauth_state \<Rightarrow> string \<Rightarrow> token_data option" where
  "get_token cfg now s token =
     (if REDIS_ENABLED cfg then getOAuthToken now token (token_redis s) else map_of (accessTokens s) token)"

definition put_token :: "oauth_cfg \<Rightarrow> int \<Rightarrow> int \<Rightarrow> string \<Rightarrow> token_data \<Rightarrow> oauth_state \<Rightarrow> oauth_state" where
  "put_token cfg now ttl token d s =
     (if REDIS_ENABLED cfg
      then s\<lparr>token_redis := snd (saveOAuthToken now token d ttl (token_redis s))\<rparr>
      else s\<lparr>accessTokens := AList.update token d (accessTokens s)\<rparr>)"

definition del_token :: "oauth_cfg \<Rightarrow> string \<Rightarrow> oauth_state \<Rightarrow> oauth_state" where
  "del_token cfg token s =
     (if REDIS_ENABLED cfg
      then s\<lparr>token_redis := snd (deleteOAuthToken token (token_redis s))\<rparr>
      else s\<lparr>accessTokens := AList.delete token (accessTokens s)\<rparr>)"

section \<open>\<open>GET /authorize\<close>\<close>

record authorize_params =
  response_type :: "string option"
  a_client_id :: "string option"
  a_redirect_uri :: "string option"
  a_code_challenge :: "string option"
  code_challenge_method :: "string option"
  a_state :: "string option"
  a_scope :: "string option"
  a_resource :: "string option"

datatype authorize_response = AuthError string string | Raised | Issued string string

text \<open>The pattern \<open>/^apikey:([0-9a-f-]{36})$/i\<close> and its group.\<close>

definition hex_or_dash :: "char \<Rightarrow> bool" where
  "hex_or_dash c = (let n = (of_char (to_lower c) :: nat) in 48 \<le> n \<and> n \<le> 57 \<or> 97 \<le> n \<and> n \<le> 102 \<or> n = 45)"

definition bound_name_key :: "string \<Rightarrow> string option" where
  "bound_name_key name =
     (if map to_lower (take 7 name) = ''apikey:'' \<and> length (drop 7 name) = 36 \<and> list_all hex_or_dash (drop 7 name)
      then Some (drop 7 name) else None)"

text \<open>
  What the request says of its client, for a \<open>client_id\<close> that is not the access key: whether it
  is an API key, the bound key id, and the registered client.  An exception of
  \<open>validateApiKeyFromDB\<close> (a missing \<open>client_id\<close> throws in the hash) is caught; one of \<open>getClient\<close> is
  not.
\<close>

definition client_is_key :: "oauth_cfg \<Rightarrow> int \<Rightarrow> key_db \<Rightarrow> string option \<Rightarrow> bool" where
  "client_is_key cfg today db cid =
     (case cid of None \<Rightarrow> False
      | Some c \<Rightarrow> (case validateApiKeyFromDB (sha cfg) today c db of Inr (Valid _) \<Rightarrow> True | _ \<Rightarrow> False))"

definition client_bound_key :: "key_db \<Rightarrow> oauth_client \<Rightarrow> string option" where
  "client_bound_key db client =
     (case bound_name_key (nullish_to (client_name client) []) of
        None \<Rightarrow> None
      | Some keyid \<Rightarrow> (case validateApiKeyById (Some keyid) db of Valid _ \<Rightarrow> Some keyid | Invalid _ \<Rightarrow> None))"

definition is_access_key :: "oauth_cfg \<Rightarrow> string option \<Rightarrow> bool" where
  "is_access_key cfg cid \<longleftrightarrow> ACCESS_KEY cfg \<noteq> [] \<and> safeCompare (sha cfg) (nullish_to cid []) (ACCESS_KEY cfg)"

definition identify_client ::
  "oauth_cfg \<Rightarrow> int \<Rightarrow> int \<Rightarrow> key_db \<Rightarrow> authorize_params \<Rightarrow> oauth_state
     \<Rightarrow> (authorize_response + oauth_client option \<times> bool \<times> string option) \<times> oauth_state" where
  "identify_client cfg now today db p s =
     (if is_access_key cfg (a_client_id p) then (Inr (None, False, None), s)
      else if client_is_key cfg today db (a_client_id p) then (Inr (None, True, None), s)
      else case getClient now (db_up db) (a_client_id p) s of
        (Inl _, s') \<Rightarrow> (Inl Raised, s')
      | (Inr (Some client), s') \<Rightarrow>
          (let b = client_bound_key db client in (Inr (Some client, b \<noteq> None, b), s'))
      | (Inr None, s') \<Rightarrow>
          (if \<not> isAllowedRedirectUri cfg (a_redirect_uri p)
           then (Inl (AuthError ''invalid_client'' ''Invalid client_id''), s')
           else (Inr (None, False, None), s')))"

definition issue_code ::
  "oauth_cfg \<Rightarrow> int \<Rightarrow> string \<Rightarrow> authorize_params \<Rightarrow> bool \<Rightarrow> string option \<Rightarrow> oauth_state
     \<Rightarrow> authorize_response \<times> oauth_state" where
  "issue_code cfg now code p isApiKeyClient boundKeyId s =
     (let codeData =
        \<lparr>c_client_id = a_client_id p, c_redirect_uri = a_redirect_uri p, code_challenge = a_code_challenge p,
         c_scope = the (js_or (a_scope p) (Some ''mcp'')), c_state = a_state p, c_is_api_key = isApiKeyClient,
         c_bound_key_id = js_or boundKeyId None, c_resource = js_or (a_resource p) None,
         c_created_at = now, c_expires_at = now + CODE_TTL_MS\<rparr>;
          s' = put_code cfg now code codeData s
      in if parse_url cfg (the (a_redirect_uri p)) = None then (Raised, s')
         else (Issued code (the (a_redirect_uri p)), s'))"

definition handleAuthorize ::
  "oauth_cfg \<Rightarrow> int \<Rightarrow> int \<Rightarrow> string \<Rightarrow> key_db \<Rightarrow> authorize_params \<Rightarrow> oauth_state
     \<Rightarrow> authorize_response \<times> oauth_state" where
  "handleAuthorize cfg now today code db p s =
     (if response_type p \<noteq> Some ''code''
      then (AuthError ''unsupported_response_type'' ''Only 'code' response type is supported'', s)
      else if \<not> truthy (a_redirect_uri p) then (AuthError ''invalid_request'' ''redirect_uri is required'', s)
      else if \<not> truthy (a_code_challenge p)
      then (AuthError ''invalid_request'' ''code_challenge is required (PKCE)'', s)
      else if code_challenge_method p \<noteq> Some ''S256''
      then (AuthError ''invalid_request'' ''Only S256 code_challenge_method is supported'', s)
      else case identify_client cfg now today db p s of
        (Inl r, s1) \<Rightarrow> (r, s1)
      | (Inr (oauthClient, isApiKeyClient, boundKeyId), s1) \<Rightarrow>
          (case oauthClient of
             Some cl \<Rightarrow>
               if \<not> validateRedirectUri cl (a_redirect_uri p)
               then (AuthError ''invalid_request'' ''redirect_uri not registered for this client'', s1)
               else issue_code cfg now code p isApiKeyClient boundKeyId s1
           | None \<Rightarrow>
               if \<not> isAllowedRedirectUri cfg (a_redirect_uri p)
               then (AuthError ''invalid_request'' ''redirect_uri is not allowed'', s1)
               else issue_code cfg now code p isApiKeyClient boundKeyId s1))"

section \<open>\<open>POST /token\<close>\<close>

record token_params =
  grant_type :: "string option"
  p_code :: "string option"
  p_redirect_uri :: "string option"
  code_verifier :: "string option"
  refresh_token :: "string option"
  client_secret :: "string option"
  p_resource :: "string option"

record token_grant =
  access_token :: string
  expires_in :: int
  g_refresh_token :: string
  g_scope :: string

datatype token_response = TokenError string string | Granted token_grant

text \<open>The API key that the \<open>client_secret\<close> of the request names, if it validates.\<close>

definition secret_bound_key :: "oauth_cfg \<Rightarrow> int \<Rightarrow> key_db \<Rightarrow> string option \<Rightarrow> string option" where
  "secret_bound_key cfg today db secret =
     (if \<not> truthy secret then None
      else case validateApiKeyFromDB (sha cfg) today (the secret) db of
        Inr (Valid info) \<Rightarrow> Some (keyId info) | _ \<Rightarrow> None)"

definition effective_bound :: "string option \<Rightarrow> string option \<Rightarrow> string option" where
  "effective_bound secretBound old = js_or secretBound (js_or old None)"

definition new_token ::
  "string \<Rightarrow> int \<Rightarrow> int \<Rightarrow> string option \<Rightarrow> string \<Rightarrow> bool \<Rightarrow> string option \<Rightarrow> string option \<Rightarrow> token_data" where
  "new_token type now life cid scope isKey bound resource =
     \<lparr>t_type = type, t_client_id = cid, t_scope = scope, t_is_api_key = isKey, t_bound_key_id = bound,
      t_resource = resource, t_created_at = now, t_expires_at = now + life\<rparr>"

definition refresh_grant ::
  "oauth_cfg \<Rightarrow> int \<Rightarrow> string \<Rightarrow> string \<Rightarrow> string option \<Rightarrow> token_params \<Rightarrow> oauth_state
     \<Rightarrow> token_response \<times> oauth_state" where
  "refresh_grant cfg now newAccess newRefresh secretBound p s =
     (if \<not> truthy (refresh_token p) then (TokenError ''invalid_request'' ''refresh_token is required'', s)
      else let old = the (refresh_token p) in
        case get_token cfg now s old of
          None \<Rightarrow> (TokenError ''invalid_grant'' ''Invalid refresh token'', s)
        | Some d \<Rightarrow>
            if t_type d \<noteq> ''refresh'' then (TokenError ''invalid_grant'' ''Invalid refresh token'', s)
            else if now > t_expires_at d
            then (TokenError ''invalid_grant'' ''Refresh token expired'', del_token cfg old s)
            else
              let bound = effective_bound secretBound (t_bound_key_id d);
                  isKey = (if truthy bound then True else t_is_api_key d);
                  res = js_or (p_resource p) (js_or (t_resource d) None);
                  access = new_token ''access'' now (TOKEN_TTL_MS cfg) (t_client_id d) (t_scope d) isKey bound res;
                  refresh = new_token ''refresh'' now (OAUTH_REFRESH_TTL_SECONDS cfg * 1000)
                              (t_client_id d) (t_scope d) isKey bound res
              in (Granted \<lparr>access_token = newAccess, expires_in = TOKEN_TTL_MS cfg div 1000,
                           g_refresh_token = newRefresh, g_scope = t_scope d\<rparr>,
                  del_token cfg old
                    (put_token cfg now (OAUTH_REFRESH_TTL_SECONDS cfg) newRefresh refresh
                      (put_token cfg now (OAUTH_TOKEN_TTL_SECONDS cfg) newAccess access s))))"

definition code_grant ::
  "oauth_cfg \<Rightarrow> int \<Rightarrow> string \<Rightarrow> string \<Rightarrow> string option \<Rightarrow> token_params \<Rightarrow> oauth_state
     \<Rightarrow> token_response \<times> oauth_state" where
  "code_grant cfg now newAccess newRefresh secretBound p s =
     (if \<not> truthy (p_code p) then (TokenError ''invalid_request'' ''code is required'', s)
      else if \<not> truthy (code_verifier p)
      then (TokenError ''invalid_request'' ''code_verifier is required (PKCE)'', s)
      else case take_code cfg now (the (p_code p)) s of
        (None, s1) \<Rightarrow> (TokenError ''invalid_grant'' ''Invalid authorization code'', s1)
      | (Some d, s1) \<Rightarrow>
          if now > c_expires_at d then (TokenError ''invalid_grant'' ''Authorization code expired'', s1)
          else if c_redirect_uri d \<noteq> p_redirect_uri p
          then (TokenError ''invalid_grant'' ''redirect_uri mismatch'', s1)
          else if \<not> verifyCodeChallenge cfg (the (code_verifier p)) (code_challenge d)
          then (TokenError ''invalid_grant'' ''code_verifier validation failed'', s1)
          else
            let bound = effective_bound secretBound (c_bound_key_id d);
                isKey = (if truthy bound then True else c_is_api_key d);
                res = js_or (p_resource p) (js_or (c_resource d) None);
                access = new_token ''access'' now (TOKEN_TTL_MS cfg) (c_client_id d) (c_scope d) isKey bound res;
                refresh = new_token ''refresh'' now (TOKEN_TTL_MS cfg * 24) (c_client_id d) (c_scope d) isKey bound res
            in (Granted \<lparr>access_token = newAccess, expires_in = TOKEN_TTL_MS cfg div 1000,
                         g_refresh_token = newRefresh, g_scope = c_scope d\<rparr>,
                put_token cfg now (OAUTH_REFRESH_TTL_SECONDS cfg) newRefresh refresh
                  (put_token cfg now (OAUTH_TOKEN_TTL_SECONDS cfg) newAccess access s1)))"

definition handleToken ::
  "oauth_cfg \<Rightarrow> int \<Rightarrow> int \<Rightarrow> string \<Rightarrow> string \<Rightarrow> key_db \<Rightarrow> token_params \<Rightarrow> oauth_state
     \<Rightarrow> token_response \<times> oauth_state" where
  "handleToken cfg now today newAccess newRefresh db p s =
     (let secretBound = secret_bound_key cfg today db (client_secret p)
      in if grant_type p = Some ''refresh_token'' then refresh_grant cfg now newAccess newRefresh secretBound p s
         else if grant_type p \<noteq> Some ''authorization_code''
         then (TokenError ''unsupported_grant_type''
                 ''Only authorization_code and refresh_token are supported'', s)
         else code_grant cfg now newAccess newRefresh secretBound p s)"

section \<open>Validation and cleaning\<close>

record access_info =
  ai_client_id :: "string option"
  ai_scope :: string
  ai_is_api_key :: bool
  ai_bound_key_id :: "string option"

definition validateAccessToken ::
  "oauth_cfg \<Rightarrow> int \<Rightarrow> string \<Rightarrow> oauth_state \<Rightarrow> (string + access_info) \<times> oauth_state" where
  "validateAccessToken cfg now token s =
     (if token = [] then (Inl ''No token provided'', s)
      else case get_token cfg now s token of
        None \<Rightarrow> (Inl ''Invalid token'', s)
      | Some d \<Rightarrow>
          if t_type d \<noteq> ''access'' then (Inl ''Invalid token'', s)
          else if now > t_expires_at d then (Inl ''Token expired'', del_token cfg token s)
          else (Inr \<lparr>ai_client_id = t_client_id d, ai_scope = t_scope d, ai_is_api_key = t_is_api_key d,
                     ai_bound_key_id = js_or (t_bound_key_id d) None\<rparr>, s))"

definition cleanupExpiredOAuthData :: "int \<Rightarrow> oauth_state \<Rightarrow> oauth_state" where
  "cleanupExpiredOAuthData now s =
     s\<lparr>authCodes := filter (\<lambda>(k, d). \<not> now > c_expires_at d) (authCodes s),
       accessTokens := filter (\<lambda>(k, d). \<not> now > t_expires_at d) (accessTokens s)\<rparr>"

end
