(* ===== verification/OAuthFlow.thy ===== *)
theory OAuthFlow
  imports OAuth
begin

text \<open>
  What the OAuth endpoints promise: a code is exchanged at most once and only with its PKCE
  verifier and redirect URI, a refresh rotates the token, an access token works exactly until its
  expiry, cleaning removes nothing that still works, and a registration never changes a client
  that is already registered.  The token store, in either mode, is an instance of \<open>kv_store\<close>.
\<close>

section \<open>The token store\<close>

definition tokens_ok :: "oauth_cfg \<Rightarrow> oauth_state \<Rightarrow> bool" where
  "tokens_ok cfg s \<longleftrightarrow> (REDIS_ENABLED cfg \<longrightarrow> up (token_redis s))"

interpretation oauth_tokens: kv_store "tokens_ok cfg" "get_token cfg now"
  "put_token cfg now (int (Suc ttl))" "del_token cfg"
  for cfg now ttl
proof unfold_locales
  fix s k v k'
  assume "tokens_ok cfg s"
  then show "get_token cfg now (put_token cfg now (int (Suc ttl)) k v s) k' = (if k' = k then Some v else get_token cfg now s k')"
    by (cases "REDIS_ENABLED cfg")
      (simp_all add: tokens_ok_def get_token_def put_token_def token_store.get_put store_simps del: of_nat_Suc)
next
  fix s k k'
  assume "tokens_ok cfg s"
  then show "get_token cfg now (del_token cfg k s) k' = (if k' = k then None else get_token cfg now s k')"
    by (cases "REDIS_ENABLED cfg")
      (simp_all add: tokens_ok_def get_token_def del_token_def token_store.get_del store_simps)
qed (auto simp: tokens_ok_def put_token_def del_token_def saveOAuthToken_def deleteOAuthToken_def)

text \<open>The same with the life times as the code has them, for a positive \<open>OAUTH_TOKEN_TTL_SECONDS\<close>.\<close>

lemma put_token_laws [store_simps]:
  assumes "0 < ttl" and "tokens_ok cfg s"
  shows "get_token cfg now (put_token cfg now ttl k v s) k' = (if k' = k then Some v else get_token cfg now s k')"
    and "tokens_ok cfg (put_token cfg now ttl k v s)"
proof -
  obtain n where "ttl = int (Suc n)" using assms(1) by (metis zero_less_imp_eq_int gr0_conv_Suc)
  with assms(2) show "get_token cfg now (put_token cfg now ttl k v s) k' = (if k' = k then Some v else get_token cfg now s k')"
    "tokens_ok cfg (put_token cfg now ttl k v s)"
    by (metis oauth_tokens.get_put, metis oauth_tokens.ok_put)
qed

lemma del_token_laws [store_simps]:
  assumes "tokens_ok cfg s"
  shows "get_token cfg now (del_token cfg k s) k' = (if k' = k then None else get_token cfg now s k')"
    and "tokens_ok cfg (del_token cfg k s)"
  using assms by (simp_all add: oauth_tokens.get_del oauth_tokens.ok_del)

text \<open>A token put at one time, read at a later one.\<close>

definition alive :: "oauth_cfg \<Rightarrow> int \<Rightarrow> int \<Rightarrow> int \<Rightarrow> bool" where
  "alive cfg since ttl t \<longleftrightarrow> (REDIS_ENABLED cfg \<longrightarrow> t < since + ttl * 1000)"

lemma get_put_later:
  assumes "tokens_ok cfg s"
  shows "get_token cfg t (put_token cfg since ttl k v s) k' =
           (if k' = k then if alive cfg since ttl t then Some v else None else get_token cfg t s k')"
  using assms
  by (cases "REDIS_ENABLED cfg")
    (auto simp: tokens_ok_def alive_def get_token_def put_token_def getOAuthToken_def saveOAuthToken_def
      redis_get_def redis_setex_def store_simps)

lemma tokens_ok_put [simp]: "tokens_ok cfg (put_token cfg since ttl k v s) = tokens_ok cfg s"
  by (simp add: tokens_ok_def put_token_def saveOAuthToken_def)

lemma tokens_ok_del [simp]: "tokens_ok cfg (del_token cfg k s) = tokens_ok cfg s"
  by (simp add: tokens_ok_def del_token_def deleteOAuthToken_def)

lemma take_code_frame:
  assumes "take_code cfg now c s = (d, s1)"
  shows "tokens_ok cfg s1 = tokens_ok cfg s" and "get_token cfg t s1 k = get_token cfg t s k"
  using assms by (auto simp: take_code_def tokens_ok_def get_token_def split: if_splits prod.splits)

section \<open>The exchange of a code\<close>

text \<open>What is stored under a code, without consuming it.\<close>

definition stored_code :: "oauth_cfg \<Rightarrow> int \<Rightarrow> oauth_state \<Rightarrow> string \<Rightarrow> code_data option" where
  "stored_code cfg now s code =
     (if REDIS_ENABLED cfg then consume_read now code (code_redis s) else map_of (authCodes s) code)"

lemma take_code_stored: "fst (take_code cfg now code s) = stored_code cfg now s code"
  by (auto simp: take_code_def stored_code_def consumeOAuthCode_def consume_read_def consume_delete_def
      split: option.splits prod.splits)

lemma code_grant_Granted:
  assumes "code_grant cfg now na nr sb p s = (Granted g, s')"
  obtains c d s1 where "p_code p = Some c" "take_code cfg now c s = (Some d, s1)" "truthy (code_verifier p)"
    "now \<le> c_expires_at d" "c_redirect_uri d = p_redirect_uri p"
    "verifyCodeChallenge cfg (the (code_verifier p)) (code_challenge d)"
    "g = \<lparr>access_token = na, expires_in = TOKEN_TTL_MS cfg div 1000, g_refresh_token = nr, g_scope = c_scope d\<rparr>"
    "s' = put_token cfg now (OAUTH_REFRESH_TTL_SECONDS cfg) nr
            (new_token ''refresh'' now (TOKEN_TTL_MS cfg * 24) (c_client_id d) (c_scope d)
               (if truthy (effective_bound sb (c_bound_key_id d)) then True else c_is_api_key d)
               (effective_bound sb (c_bound_key_id d)) (js_or (p_resource p) (js_or (c_resource d) None)))
            (put_token cfg now (OAUTH_TOKEN_TTL_SECONDS cfg) na
              (new_token ''access'' now (TOKEN_TTL_MS cfg) (c_client_id d) (c_scope d)
               (if truthy (effective_bound sb (c_bound_key_id d)) then True else c_is_api_key d)
               (effective_bound sb (c_bound_key_id d)) (js_or (p_resource p) (js_or (c_resource d) None))) s1)"
  using assms
  by (auto simp: code_grant_def Let_def elim!: truthyE split: if_split_asm option.split_asm prod.split_asm)

text \<open>
  A code is exchanged only by the party that started the flow: a grant for an authorization code
  needs a code that is stored and not expired, the redirect URI it was issued for, and a verifier
  whose S256 hash is the code challenge of the authorization request; the granted scope is the scope
  of that request.
\<close>

theorem code_exchange_requires_pkce:
  assumes "handleToken cfg now today na nr db p s = (Granted g, s')"
    and "grant_type p = Some ''authorization_code''"
  shows "\<exists>c v d. p_code p = Some c \<and> code_verifier p = Some v \<and> v \<noteq> [] \<and>
           stored_code cfg now s c = Some d \<and> now \<le> c_expires_at d \<and> c_redirect_uri d = p_redirect_uri p \<and>
           code_challenge d = Some (base64UrlEncode (sha64 cfg v)) \<and> g_scope g = c_scope d"
proof -
  from assms have "code_grant cfg now na nr (secret_bound_key cfg today db (client_secret p)) p s = (Granted g, s')"
    by (simp add: handleToken_def)
  then show ?thesis
    by (elim code_grant_Granted) (auto simp: take_code_stored [symmetric] verifyCodeChallenge_def elim!: truthyE)
qed

fun granted :: "token_response \<Rightarrow> bool" where
  "granted (Granted g) = True"
| "granted (TokenError e d) = False"

lemma granted_iff: "granted (fst r) \<longleftrightarrow> (\<exists>g s. r = (Granted g, s))"
  by (cases r; cases "fst r") auto

text \<open>A sample configuration and state; the sample hash is the identity and every URI has the host \<open>h\<close>.\<close>

definition sample_cfg :: oauth_cfg where
  "sample_cfg =
     \<lparr>ACCESS_KEY = ''master'', REDIS_ENABLED = False, OAUTH_TRUSTED_ORIGINS = [''h''],
      OAUTH_ALLOWED_REDIRECT_URIS = [], OAUTH_TOKEN_TTL_SECONDS = 60, sha = rev, sha64 = id,
      parse_url = (\<lambda>u. Some (''h'', ''h''))\<rparr>"

definition sample_code :: code_data where
  "sample_code =
     \<lparr>c_client_id = Some ''cl'', c_redirect_uri = Some ''u'', code_challenge = Some ''v-'', c_scope = ''mcp'',
      c_state = None, c_is_api_key = False, c_bound_key_id = None, c_resource = None, c_created_at = 0,
      c_expires_at = 600000\<rparr>"

definition sample_oauth :: oauth_state where
  "sample_oauth =
     \<lparr>code_redis = empty_redis, token_redis = empty_redis, authCodes = [(''c'', sample_code)],
      accessTokens = [(''old'', new_token ''refresh'' 0 100000 (Some ''cl'') ''mcp'' False None None)],
      oauth_clients = []\<rparr>"

definition sample_exchange :: token_params where
  "sample_exchange =
     \<lparr>grant_type = Some ''authorization_code'', p_code = Some ''c'', p_redirect_uri = Some ''u'',
      code_verifier = Some ''v+='', refresh_token = None, client_secret = None, p_resource = None\<rparr>"

lemmas sample_defs = sample_cfg_def sample_code_def sample_oauth_def sample_exchange_def

theorem code_exchange_requires_pkce_witness:
  "\<exists>g s'. handleToken sample_cfg 5 0 ''na'' ''nr'' sample_db sample_exchange sample_oauth = (Granted g, s') \<and>
     (\<exists>c v d. p_code sample_exchange = Some c \<and> code_verifier sample_exchange = Some v \<and> v \<noteq> [] \<and>
        stored_code sample_cfg 5 sample_oauth c = Some d \<and> 5 \<le> c_expires_at d \<and>
        c_redirect_uri d = p_redirect_uri sample_exchange \<and>
        code_challenge d = Some (base64UrlEncode (sha64 sample_cfg v)) \<and> g_scope g = c_scope d)"
proof -
  have "granted (fst (handleToken sample_cfg 5 0 ''na'' ''nr'' sample_db sample_exchange sample_oauth))"
    by (simp add: sample_defs handleToken_def code_grant_def take_code_def secret_bound_key_def
        verifyCodeChallenge_def base64UrlEncode_def Let_def)
  then obtain g s' where g: "handleToken sample_cfg 5 0 ''na'' ''nr'' sample_db sample_exchange sample_oauth = (Granted g, s')"
    unfolding granted_iff by blast
  have "grant_type sample_exchange = Some ''authorization_code''" by (simp add: sample_exchange_def)
  from code_exchange_requires_pkce [OF g this] g show ?thesis by blast
qed

section \<open>Runs of the endpoints\<close>

text \<open>
  A run is a list of calls, one after the other, each with its clock, its random values and the
  state of the key tables; \<open>Link\<close> changes the Redis connections.
\<close>

datatype oauth_call =
    Register int int string key_db "string option" register_body
  | Authorize int int string key_db authorize_params
  | Exchange int int string string key_db token_params
  | Validate int string
  | Cleanup int
  | Link bool bool

fun oauth_exec :: "oauth_cfg \<Rightarrow> oauth_call \<Rightarrow> oauth_state \<Rightarrow> oauth_state" where
  "oauth_exec cfg (Register now today r db bearer body) s = snd (handleOAuthRegister cfg now today r db bearer body s)"
| "oauth_exec cfg (Authorize now today code db p) s = snd (handleAuthorize cfg now today code db p s)"
| "oauth_exec cfg (Exchange now today na nr db p) s = snd (handleToken cfg now today na nr db p s)"
| "oauth_exec cfg (Validate now token) s = snd (validateAccessToken cfg now token s)"
| "oauth_exec cfg (Cleanup now) s = cleanupExpiredOAuthData now s"
| "oauth_exec cfg (Link a b) s =
     s\<lparr>code_redis := (code_redis s)\<lparr>up := a\<rparr>, token_redis := (token_redis s)\<lparr>up := b\<rparr>\<rparr>"

fun exchanged :: "oauth_cfg \<Rightarrow> string \<Rightarrow> oauth_call \<Rightarrow> oauth_state \<Rightarrow> nat" where
  "exchanged cfg c (Exchange now today na nr db p) s =
     (case fst (handleToken cfg now today na nr db p s) of
        Granted _ \<Rightarrow> if grant_type p = Some ''authorization_code'' \<and> p_code p = Some c then 1 else 0
      | TokenError _ _ \<Rightarrow> 0)"
| "exchanged cfg c _ s = 0"

fun issued :: "string \<Rightarrow> oauth_call \<Rightarrow> nat" where
  "issued c (Authorize now today code db p) = (if code = c then 1 else 0)"
| "issued c _ = 0"

fun exchanges :: "oauth_cfg \<Rightarrow> string \<Rightarrow> oauth_call list \<Rightarrow> oauth_state \<Rightarrow> nat" where
  "exchanges cfg c [] s = 0"
| "exchanges cfg c (a # as) s = exchanged cfg c a s + exchanges cfg c as (oauth_exec cfg a s)"

definition code_present :: "oauth_cfg \<Rightarrow> string \<Rightarrow> oauth_state \<Rightarrow> nat" where
  "code_present cfg c s =
     (if REDIS_ENABLED cfg then (if map_of (data (code_redis s)) (getOAuthCodeKey c) = None then 0 else 1)
      else if map_of (authCodes s) c = None then 0 else 1)"

lemma code_present_frame:
  "code_redis s' = code_redis s \<Longrightarrow> authCodes s' = authCodes s \<Longrightarrow> code_present cfg c s' = code_present cfg c s"
  by (simp add: code_present_def)

lemma token_ops_frame [simp]:
  "code_redis (put_token cfg now ttl k v s) = code_redis s" "authCodes (put_token cfg now ttl k v s) = authCodes s"
  "code_redis (del_token cfg k s) = code_redis s" "authCodes (del_token cfg k s) = authCodes s"
  "oauth_clients (put_token cfg now ttl k v s) = oauth_clients s" "oauth_clients (del_token cfg k s) = oauth_clients s"
  by (simp_all add: put_token_def del_token_def)

lemma code_present_token_ops [simp]:
  "code_present cfg c (put_token cfg now ttl k v s) = code_present cfg c s"
  "code_present cfg c (del_token cfg k s) = code_present cfg c s"
  by (simp_all add: code_present_def)

lemma code_present_put:
  "code_present cfg c (put_code cfg now code d s) \<le> code_present cfg c s + (if code = c then 1 else 0)"
  by (auto simp: code_present_def put_code_def saveOAuthCode_def redis_setex_def store_simps)

lemma code_present_take:
  assumes "take_code cfg now code s = (d, s1)"
  shows "code_present cfg c s1 + (if d \<noteq> None \<and> code = c then 1 else 0) \<le> code_present cfg c s"
  using assms
  by (auto simp: code_present_def take_code_def consumeOAuthCode_def consume_delete_def consume_read_def
      redis_del_def redis_get_def store_simps split: if_splits option.splits prod.splits)

lemma identify_client_frame:
  assumes "identify_client cfg now today db p s = (r, s1)"
  shows "code_redis s1 = code_redis s \<and> authCodes s1 = authCodes s \<and>
         token_redis s1 = token_redis s \<and> accessTokens s1 = accessTokens s"
  using assms
  by (auto simp: identify_client_def getClient_def Let_def split: if_splits option.splits prod.splits sum.splits)

lemma issue_code_snd:
  "\<exists>d. snd (issue_code cfg now code p k b s) = put_code cfg now code d s"
  by (auto simp: issue_code_def Let_def)

lemma handleAuthorize_state:
  obtains s1 where "identify_client cfg now today db p s = (fst (identify_client cfg now today db p s), s1)"
    "snd (handleAuthorize cfg now today code db p s) = s \<or> snd (handleAuthorize cfg now today code db p s) = s1 \<or>
     (\<exists>d. snd (handleAuthorize cfg now today code db p s) = put_code cfg now code d s1)"
proof
  let ?s1 = "snd (identify_client cfg now today db p s)"
  show "identify_client cfg now today db p s = (fst (identify_client cfg now today db p s), ?s1)" by simp
  show "snd (handleAuthorize cfg now today code db p s) = s \<or> snd (handleAuthorize cfg now today code db p s) = ?s1 \<or>
     (\<exists>d. snd (handleAuthorize cfg now today code db p s) = put_code cfg now code d ?s1)"
    using issue_code_snd by (simp add: handleAuthorize_def split: prod.split sum.split option.split)
qed

lemma code_present_authorize:
  "code_present cfg c (snd (handleAuthorize cfg now today code db p s)) \<le> code_present cfg c s + (if code = c then 1 else 0)"
proof -
  obtain s1 where id: "identify_client cfg now today db p s = (fst (identify_client cfg now today db p s), s1)"
    and out: "snd (handleAuthorize cfg now today code db p s) = s \<or> snd (handleAuthorize cfg now today code db p s) = s1 \<or>
     (\<exists>d. snd (handleAuthorize cfg now today code db p s) = put_code cfg now code d s1)"
    by (rule handleAuthorize_state)
  have "code_present cfg c s1 = code_present cfg c s"
    using identify_client_frame [OF id] by (intro code_present_frame) auto
  with out code_present_put [of cfg c now code _ s1] show ?thesis by fastforce
qed

lemma code_present_exchange:
  "code_present cfg c (snd (handleToken cfg now today na nr db p s)) + exchanged cfg c (Exchange now today na nr db p) s
     \<le> code_present cfg c s"
proof -
  let ?sb = "secret_bound_key cfg today db (client_secret p)"
  have "code_present cfg c (snd (code_grant cfg now na nr ?sb p s)) +
      (case fst (code_grant cfg now na nr ?sb p s) of Granted _ \<Rightarrow> if p_code p = Some c then 1 else 0 | TokenError _ _ \<Rightarrow> 0)
      \<le> code_present cfg c s"
    using code_present_take [of cfg now "the (p_code p)" s "fst (take_code cfg now (the (p_code p)) s)"
        "snd (take_code cfg now (the (p_code p)) s)" c]
    by (auto simp: code_grant_def Let_def split: prod.split option.split)
  moreover have "code_present cfg c (snd (refresh_grant cfg now na nr ?sb p s)) = code_present cfg c s"
    by (simp add: refresh_grant_def Let_def split: option.split)
  ultimately show ?thesis
    by (auto simp: handleToken_def Let_def split: token_response.split token_response.split_asm)
qed

lemma map_of_filter_None: "map_of m k = None \<Longrightarrow> map_of (filter P m) k = None"
  by (metis filter_is_subset image_mono map_of_eq_None_iff subsetD)

lemma code_present_exec:
  "code_present cfg c (oauth_exec cfg a s) + exchanged cfg c a s \<le> code_present cfg c s + issued c a"
proof (cases a)
  case (Register now today r db bearer body)
  have "code_present cfg c (snd (handleOAuthRegister cfg now today r db bearer body s)) = code_present cfg c s"
    by (auto simp: handleOAuthRegister_def registerClient_def Let_def code_present_def split: option.split)
  then show ?thesis using Register by simp
next
  case (Authorize now today code db p)
  then show ?thesis using code_present_authorize by simp
next
  case (Exchange now today na nr db p)
  then show ?thesis using code_present_exchange [of cfg c now today na nr db p s] by simp
next
  case (Validate now token)
  have "code_present cfg c (snd (validateAccessToken cfg now token s)) = code_present cfg c s"
    by (simp add: validateAccessToken_def split: option.split)
  then show ?thesis using Validate by simp
next
  case (Cleanup now)
  then show ?thesis by (simp add: code_present_def cleanupExpiredOAuthData_def map_of_filter_None)
qed (simp add: code_present_def)


definition sample_run :: "oauth_call list" where
  "sample_run =
     [Authorize 1 0 ''c'' sample_db \<lparr>response_type = Some ''code'', a_client_id = None, a_redirect_uri = Some ''u'',
        a_code_challenge = Some ''v-'', code_challenge_method = Some ''S256'', a_state = None, a_scope = None,
        a_resource = None\<rparr>,
      Exchange 2 0 ''n1'' ''n2'' sample_db sample_exchange, Exchange 3 0 ''n3'' ''n4'' sample_db sample_exchange]"


text \<open>
  In Redis mode \<open>consumeOAuthCode\<close> reads and deletes in two commands: when a second request
  reads before the first one deletes, both obtain the code, so two overlapping exchanges of one code
  both go through; one after the other, the second finds nothing.
\<close>

theorem code_consume_race:
  assumes "up r" and "redis_get now r (getOAuthCodeKey code) = Some d"
  shows "(let a = consume_read now code r; b = consume_read now code r;
              r1 = snd (consume_delete code a r)
          in fst (consume_delete code a r) = Some d \<and> fst (consume_delete code b r1) = Some d) \<and>
         (let r1 = snd (consumeOAuthCode now code r)
          in fst (consumeOAuthCode now code r) = Some d \<and> fst (consumeOAuthCode later code r1) = None)"
  using assms
  by (simp add: consume_read_def consume_delete_def consumeOAuthCode_def Let_def redis_get_del)

theorem code_consume_race_witness:
  "let r = redis_setex 0 (getOAuthCodeKey ''c'') 600 sample_code empty_redis
   in fst (consume_delete ''c'' (consume_read 1 ''c'' r) r) = Some sample_code \<and>
      fst (consume_delete ''c'' (consume_read 1 ''c'' r) (snd (consume_delete ''c'' (consume_read 1 ''c'' r) r))) = Some sample_code"
  using code_consume_race [of "redis_setex 0 (getOAuthCodeKey ''c'') 600 sample_code empty_redis" 1 "''c''" sample_code 2]
  by (simp add: empty_redis_def redis_get_setex redis_get_def redis_setex_def Let_def)

section \<open>The life of a token\<close>

lemma new_token_simps [simp]:
  "t_type (new_token ty now life cid sc k b r) = ty" "t_client_id (new_token ty now life cid sc k b r) = cid"
  "t_scope (new_token ty now life cid sc k b r) = sc" "t_is_api_key (new_token ty now life cid sc k b r) = k"
  "t_bound_key_id (new_token ty now life cid sc k b r) = b" "t_expires_at (new_token ty now life cid sc k b r) = now + life"
  by (simp_all add: new_token_def)

lemma refresh_grant_Granted:
  assumes "refresh_grant cfg now na nr sb p s = (Granted g, s')"
  obtains old d where "refresh_token p = Some old" "old \<noteq> []" "get_token cfg now s old = Some d"
    "t_type d = ''refresh''" "now \<le> t_expires_at d"
    "g = \<lparr>access_token = na, expires_in = TOKEN_TTL_MS cfg div 1000, g_refresh_token = nr, g_scope = t_scope d\<rparr>"
    "s' = del_token cfg old (put_token cfg now (OAUTH_REFRESH_TTL_SECONDS cfg) nr
            (new_token ''refresh'' now (OAUTH_REFRESH_TTL_SECONDS cfg * 1000) (t_client_id d) (t_scope d)
               (if truthy (effective_bound sb (t_bound_key_id d)) then True else t_is_api_key d)
               (effective_bound sb (t_bound_key_id d)) (js_or (p_resource p) (js_or (t_resource d) None)))
            (put_token cfg now (OAUTH_TOKEN_TTL_SECONDS cfg) na
              (new_token ''access'' now (TOKEN_TTL_MS cfg) (t_client_id d) (t_scope d)
               (if truthy (effective_bound sb (t_bound_key_id d)) then True else t_is_api_key d)
               (effective_bound sb (t_bound_key_id d)) (js_or (p_resource p) (js_or (t_resource d) None))) s))"
  using assms
  by (auto simp: refresh_grant_def Let_def elim!: truthyE split: if_split_asm option.split_asm)

text \<open>
  A refresh rotates the token: after a granted refresh, with fresh random tokens and a working
  store, the old refresh token is refused by every further refresh, at any time; the new pair is
  stored and carries the client and scope of the old token, and its key binding unless the request
  proved another key by \<open>client_secret\<close>; every other token is as before.
\<close>

theorem refresh_rotation:
  assumes "handleToken cfg now today na nr db p s = (Granted g, s')" and "grant_type p = Some ''refresh_token''"
    and "refresh_token p = Some old" and "distinct [na, nr, old]"
    and "tokens_ok cfg s" and "0 < OAUTH_TOKEN_TTL_SECONDS cfg"
  shows "\<exists>d. get_token cfg now s old = Some d \<and> t_type d = ''refresh'' \<and> now \<le> t_expires_at d \<and>
           (\<forall>t today' a r db' q. refresh_token q = Some old \<longrightarrow> grant_type q = Some ''refresh_token'' \<longrightarrow>
              handleToken cfg t today' a r db' q s' = (TokenError ''invalid_grant'' ''Invalid refresh token'', s')) \<and>
           (\<forall>k\<in>{na, nr}. \<exists>d'. get_token cfg now s' k = Some d' \<and> t_client_id d' = t_client_id d \<and> t_scope d' = t_scope d \<and>
              t_bound_key_id d' = effective_bound (secret_bound_key cfg today db (client_secret p)) (t_bound_key_id d)) \<and>
           (\<forall>k. k \<notin> {na, nr, old} \<longrightarrow> get_token cfg now s' k = get_token cfg now s k)"
proof -
  let ?sb = "secret_bound_key cfg today db (client_secret p)"
  from assms(1,2) have "refresh_grant cfg now na nr ?sb p s = (Granted g, s')" by (simp add: handleToken_def)
  then obtain d A R where d: "get_token cfg now s old = Some d" "t_type d = ''refresh''" "now \<le> t_expires_at d" "old \<noteq> []"
    and s': "s' = del_token cfg old (put_token cfg now (OAUTH_REFRESH_TTL_SECONDS cfg) nr R
                   (put_token cfg now (OAUTH_TOKEN_TTL_SECONDS cfg) na A s))"
    and AR: "t_client_id A = t_client_id d" "t_scope A = t_scope d" "t_bound_key_id A = effective_bound ?sb (t_bound_key_id d)"
      "t_client_id R = t_client_id d" "t_scope R = t_scope d" "t_bound_key_id R = effective_bound ?sb (t_bound_key_id d)"
  proof (rule refresh_grant_Granted, goal_cases)
    case (1 old' d)
    with assms(3) have "old' = old" by simp
    with 1(2-) show ?case by (intro 1(1)) (rule 1(8) | simp)+
  qed
  have pos: "0 < OAUTH_REFRESH_TTL_SECONDS cfg" using assms(6) by (simp add: OAUTH_REFRESH_TTL_SECONDS_def)
  have get': "get_token cfg now s' k = (if k = old then None else if k = nr then Some R else if k = na then Some A
                else get_token cfg now s k)" for k
    unfolding s' using assms(5,6) pos by (simp add: store_simps)
  have gone: "get_token cfg t s' old = None" for t
    unfolding s' using assms(5) by (simp add: del_token_laws)
  have "handleToken cfg t today' a r db' q s' = (TokenError ''invalid_grant'' ''Invalid refresh token'', s')"
    if "refresh_token q = Some old" "grant_type q = Some ''refresh_token''" for t today' a r db' q
    using that gone d(4) by (simp add: handleToken_def refresh_grant_def)
  with d get' AR assms(4) show ?thesis by auto
qed

definition sample_refresh :: token_params where
  "sample_refresh =
     \<lparr>grant_type = Some ''refresh_token'', p_code = None, p_redirect_uri = None, code_verifier = None,
      refresh_token = Some ''old'', client_secret = None, p_resource = None\<rparr>"

lemma sample_refresh_granted:
  "\<exists>g s'. handleToken sample_cfg 5 0 ''na'' ''nr'' sample_db sample_refresh sample_oauth = (Granted g, s')"
  by (simp add: sample_defs sample_refresh_def handleToken_def refresh_grant_def get_token_def Let_def)

theorem refresh_rotation_witness:
  "\<exists>s'. handleToken sample_cfg 9 0 ''x'' ''y'' sample_db sample_refresh s' =
          (TokenError ''invalid_grant'' ''Invalid refresh token'', s') \<and>
        get_token sample_cfg 5 s' ''nr'' \<noteq> None"
proof -
  obtain g s' where g: "handleToken sample_cfg 5 0 ''na'' ''nr'' sample_db sample_refresh sample_oauth = (Granted g, s')"
    using sample_refresh_granted by blast
  have hyps: "grant_type sample_refresh = Some ''refresh_token''" "refresh_token sample_refresh = Some ''old''"
    "distinct [''na'', ''nr'', ''old'']" "tokens_ok sample_cfg sample_oauth" "0 < OAUTH_TOKEN_TTL_SECONDS sample_cfg"
    by (simp_all add: sample_refresh_def tokens_ok_def sample_defs)
  show ?thesis using refresh_rotation [OF g hyps] hyps(1,2) by fastforce
qed

definition put_pair :: "oauth_cfg \<Rightarrow> int \<Rightarrow> string \<Rightarrow> token_data \<Rightarrow> string \<Rightarrow> token_data \<Rightarrow> oauth_state \<Rightarrow> oauth_state" where
  "put_pair cfg now na A nr R s =
     put_token cfg now (OAUTH_REFRESH_TTL_SECONDS cfg) nr R (put_token cfg now (OAUTH_TOKEN_TTL_SECONDS cfg) na A s)"

lemma pair_reads:
  assumes "tokens_ok cfg s" and "na \<noteq> nr"
    and "s' = put_pair cfg now na A nr R s \<or> 
         old \<notin> {na, nr} \<and> s' = del_token cfg old (put_pair cfg now na A nr R s)"
  shows "get_token cfg t s' na = (if alive cfg now (OAUTH_TOKEN_TTL_SECONDS cfg) t then Some A else None)"
    and "get_token cfg t s' nr = (if alive cfg now (OAUTH_REFRESH_TTL_SECONDS cfg) t then Some R else None)"
  using assms by (auto simp: put_pair_def get_put_later del_token_laws)

lemma granted_shape:
  assumes "handleToken cfg now today na nr db p s = (Granted g, s')" and "refresh_token p \<notin> {Some na, Some nr}"
  obtains A R s0 old where
    "s' = put_pair cfg now na A nr R s0 \<or> 
     old \<notin> {na, nr} \<and> s' = del_token cfg old (put_pair cfg now na A nr R s0)"
    "tokens_ok cfg s0 = tokens_ok cfg s" "access_token g = na" "g_refresh_token g = nr"
    "t_type A = ''access''" "t_expires_at A = now + TOKEN_TTL_MS cfg" "t_type R = ''refresh''" "t_scope A = g_scope g"
proof -
  let ?sb = "secret_bound_key cfg today db (client_secret p)"
  from assms(1) consider "refresh_grant cfg now na nr ?sb p s = (Granted g, s')"
    | "code_grant cfg now na nr ?sb p s = (Granted g, s')"
    by (auto simp: handleToken_def Let_def split: if_split_asm)
  then show thesis
  proof cases
    case 1
    then show ?thesis
    proof (rule refresh_grant_Granted, goal_cases)
      case (1 old d)
      have "old \<notin> {na, nr}" using 1(1) assms(2) by auto
      note shape = disjI2 [OF conjI [OF this 1(7) [folded put_pair_def]]]
      show ?case by (rule that [OF shape]) (simp_all add: 1(6))
    qed
  next
    case 2
    then show ?thesis
    proof (rule code_grant_Granted, goal_cases)
      case (1 c d s1)
      show ?case by (rule that [OF disjI1 [OF 1(8) [folded put_pair_def]]])
          (simp_all add: 1(7) take_code_frame(1) [OF 1(2)])
    qed
  qed
qed

text \<open>
  A granted access token lives exactly as long as its \<open>expires_in\<close> says: after a grant with fresh
  random tokens and a working store it validates, with the granted scope, at every moment up to
  \<open>expires_in\<close> seconds later (in Redis the last instant is already too late), and at none after that;
  the refresh token never validates as an access token.
\<close>

theorem access_token_lifetime:
  assumes "handleToken cfg now today na nr db p s = (Granted g, s')" and "tokens_ok cfg s"
    and "na \<noteq> nr" and "na \<noteq> []" and "refresh_token p \<notin> {Some na, Some nr}"
  shows "((\<exists>i. fst (validateAccessToken cfg t (access_token g) s') = Inr i \<and> ai_scope i = g_scope g) \<longleftrightarrow>
            (if REDIS_ENABLED cfg then t < now + expires_in g * 1000 else t \<le> now + expires_in g * 1000)) \<and>
         (\<exists>e. fst (validateAccessToken cfg t (g_refresh_token g) s') = Inl e)"
proof -
  obtain A R s0 old where shape:
    "s' = put_pair cfg now na A nr R s0 \<or> 
     old \<notin> {na, nr} \<and> s' = del_token cfg old (put_pair cfg now na A nr R s0)"
    "tokens_ok cfg s0 = tokens_ok cfg s"
    and g: "access_token g = na" "g_refresh_token g = nr"
    and AR: "t_type A = ''access''" "t_expires_at A = now + TOKEN_TTL_MS cfg" "t_type R = ''refresh''" "t_scope A = g_scope g"
    by (rule granted_shape [OF assms(1,5)])
  note reads = pair_reads [OF _ assms(3) shape(1)]
  have ok: "tokens_ok cfg s0" using shape(2) assms(2) by simp
  have e: "expires_in g = OAUTH_TOKEN_TTL_SECONDS cfg"
    using assms(1)
    by (auto simp: handleToken_def refresh_grant_def code_grant_def TOKEN_TTL_MS_def Let_def
        split: if_split_asm option.split_asm prod.split_asm)
  have "fst (validateAccessToken cfg t na s') =
      (if alive cfg now (OAUTH_TOKEN_TTL_SECONDS cfg) t then
         if t > now + TOKEN_TTL_MS cfg then Inl ''Token expired''
         else Inr \<lparr>ai_client_id = t_client_id A, ai_scope = t_scope A, ai_is_api_key = t_is_api_key A,
                   ai_bound_key_id = js_or (t_bound_key_id A) None\<rparr>
       else Inl ''Invalid token'')"
    using assms(4) reads(1) [OF ok] AR by (simp add: validateAccessToken_def)
  moreover have "\<exists>e. fst (validateAccessToken cfg t nr s') = Inl e"
    using reads(2) [OF ok] AR by (simp add: validateAccessToken_def)
  ultimately show ?thesis
    using AR(4) by (auto simp: g e alive_def TOKEN_TTL_MS_def)
qed

theorem access_token_lifetime_witness:
  "\<exists>g s'. handleToken sample_cfg 5 0 ''na'' ''nr'' sample_db sample_refresh sample_oauth = (Granted g, s') \<and>
     (\<exists>e. fst (validateAccessToken sample_cfg 6 (g_refresh_token g) s') = Inl e)"
proof -
  obtain g s' where g: "handleToken sample_cfg 5 0 ''na'' ''nr'' sample_db sample_refresh sample_oauth = (Granted g, s')"
    using sample_refresh_granted by blast
  have hyps: "tokens_ok sample_cfg sample_oauth" "''na'' \<noteq> ''nr''" "''na'' \<noteq> []"
    "refresh_token sample_refresh \<notin> {Some ''na'', Some ''nr''}"
    by (simp_all add: sample_refresh_def tokens_ok_def sample_defs)
  from access_token_lifetime [OF g hyps, of 6] g show ?thesis by blast
qed

section \<open>Cleaning\<close>

definition maps_ok :: "oauth_state \<Rightarrow> bool" where
  "maps_ok s \<longleftrightarrow> distinct (map fst (authCodes s)) \<and> distinct (map fst (accessTokens s))"

lemma map_of_filter_live:
  "distinct (map fst m) \<Longrightarrow> map_of (filter (\<lambda>(k, d). P d) m) k =
     (case map_of m k of None \<Rightarrow> None | Some d \<Rightarrow> if P d then Some d else None)"
  by (induction m) (auto split: option.splits simp: map_of_eq_None_iff rev_image_eqI)

lemma maps_ok_cleanup: "maps_ok s \<Longrightarrow> maps_ok (cleanupExpiredOAuthData now s)"
  by (simp add: maps_ok_def cleanupExpiredOAuthData_def distinct_map_filter)

lemma get_token_cleanup:
  assumes "maps_ok s" and "\<not> REDIS_ENABLED cfg"
  shows "get_token cfg t (cleanupExpiredOAuthData now s) k =
           (case get_token cfg t s k of None \<Rightarrow> None | Some d \<Rightarrow> if now > t_expires_at d then None else Some d)"
  using assms
  by (auto simp: get_token_def cleanupExpiredOAuthData_def maps_ok_def map_of_filter_live split: option.splits)

lemma take_code_cleanup:
  assumes "maps_ok s" and "\<not> REDIS_ENABLED cfg"
  shows "fst (take_code cfg t c (cleanupExpiredOAuthData now s)) =
           (case fst (take_code cfg t c s) of None \<Rightarrow> None | Some d \<Rightarrow> if now > c_expires_at d then None else Some d)"
  using assms
  by (auto simp: take_code_def cleanupExpiredOAuthData_def maps_ok_def map_of_filter_live split: option.splits)

text \<open>
  Cleaning is invisible: in memory mode, every token validation and every token request made at
  or after the time of a cleaning succeeds with the same answer as without it, and nothing that had
  expired by then is left in the maps.
\<close>

theorem cleanup_invisible:
  assumes "maps_ok s" and "\<not> REDIS_ENABLED cfg" and "now \<le> t"
  shows "(fst (validateAccessToken cfg t token (cleanupExpiredOAuthData now s)) = Inr i \<longleftrightarrow>
            fst (validateAccessToken cfg t token s) = Inr i) \<and>
         (fst (handleToken cfg t today na nr db p (cleanupExpiredOAuthData now s)) = Granted g \<longleftrightarrow>
            fst (handleToken cfg t today na nr db p s) = Granted g) \<and>
         (\<forall>d\<in>snd ` set (accessTokens (cleanupExpiredOAuthData now s)). now \<le> t_expires_at d) \<and>
         (\<forall>d\<in>snd ` set (authCodes (cleanupExpiredOAuthData now s)). now \<le> c_expires_at d)"
proof (intro conjI)
  let ?s = "cleanupExpiredOAuthData now s"
  note tok = get_token_cleanup [OF assms(1,2), of t now]
  show "fst (validateAccessToken cfg t token ?s) = Inr i \<longleftrightarrow> fst (validateAccessToken cfg t token s) = Inr i"
    using assms(3) by (auto simp: validateAccessToken_def tok split: option.split)
  have "fst (refresh_grant cfg t na nr sb p ?s) = Granted g \<longleftrightarrow> fst (refresh_grant cfg t na nr sb p s) = Granted g" for sb
    using assms(3) by (auto simp: refresh_grant_def tok Let_def split: option.split)
  moreover have "fst (code_grant cfg t na nr sb p ?s) = Granted g \<longleftrightarrow> fst (code_grant cfg t na nr sb p s) = Granted g" for sb
    using assms(3) take_code_cleanup [OF assms(1,2), of t "the (p_code p)" now]
    by (auto simp: code_grant_def Let_def split: prod.split option.split option.split_asm if_split_asm)
  ultimately show "fst (handleToken cfg t today na nr db p ?s) = Granted g \<longleftrightarrow> fst (handleToken cfg t today na nr db p s) = Granted g"
    by (simp add: handleToken_def Let_def)
qed (auto simp: cleanupExpiredOAuthData_def)

theorem cleanup_invisible_witness:
  "\<exists>e. fst (validateAccessToken sample_cfg 200000 ''old'' (cleanupExpiredOAuthData 150000 sample_oauth)) = Inl e \<and>
   accessTokens (cleanupExpiredOAuthData 150000 sample_oauth) = []"
proof -
  have hyps: "maps_ok sample_oauth" "\<not> REDIS_ENABLED sample_cfg" "(150000 :: int) \<le> 200000"
    by (simp_all add: maps_ok_def sample_defs)
  have "fst (validateAccessToken sample_cfg 200000 ''old'' sample_oauth) \<noteq> Inr i" for i
    by (simp add: validateAccessToken_def get_token_def sample_defs)
  with cleanup_invisible [OF hyps, of "''old''"]
  have "fst (validateAccessToken sample_cfg 200000 ''old'' (cleanupExpiredOAuthData 150000 sample_oauth)) \<noteq> Inr i" for i
    by blast
  then show ?thesis
    by (cases "fst (validateAccessToken sample_cfg 200000 ''old'' (cleanupExpiredOAuthData 150000 sample_oauth))")
      (auto simp: cleanupExpiredOAuthData_def sample_defs)
qed

section \<open>Registered clients\<close>

definition client_core :: "oauth_client \<Rightarrow> string \<times> string option \<times> string list \<times> string" where
  "client_core r = (client_id r, client_name r, redirect_uris r, oc_scope r)"

fun oauth_run :: "oauth_cfg \<Rightarrow> oauth_call list \<Rightarrow> oauth_state \<Rightarrow> oauth_state" where
  "oauth_run cfg [] s = s"
| "oauth_run cfg (a # as) s = oauth_run cfg as (oauth_exec cfg a s)"

lemma client_core_touch [simp]:
  "client_core (if client_id r = c then r\<lparr>oc_last_used_at := u\<rparr> else r) = client_core r"
  by (simp add: client_core_def)

lemma client_core_fst [simp]: "fst (client_core r) = client_id r"
  by (simp add: client_core_def)

lemma clients_registerClient:
  "\<exists>new. map client_core (oauth_clients (snd (registerClient now r ok opts s))) = map client_core (oauth_clients s) @ new \<and>
     (\<forall>x\<in>set new. fst x \<notin> client_id ` set (oauth_clients s)) \<and> length new \<le> 1"
  by (auto simp: registerClient_def Let_def o_def find_None_iff split: option.split)

lemma oauth_clients_take_code: "oauth_clients (snd (take_code cfg now c s)) = oauth_clients s"
  by (simp add: take_code_def split: prod.split)

lemma oauth_clients_put_code: "oauth_clients (put_code cfg now c d s) = oauth_clients s"
  by (simp add: put_code_def)

lemma clients_identify:
  assumes "identify_client cfg now today db p s = (r, s1)"
  shows "map client_core (oauth_clients s1) = map client_core (oauth_clients s)"
  using assms
  by (auto simp: identify_client_def getClient_def Let_def o_def
      split: if_splits option.splits prod.splits sum.splits)

lemma clients_token: "oauth_clients (snd (handleToken cfg now today na nr db p s)) = oauth_clients s"
proof -
  have "oauth_clients (snd (code_grant cfg now na nr sb p s)) = oauth_clients s" for sb
    using oauth_clients_take_code [of cfg now "the (p_code p)" s]
    by (auto simp: code_grant_def Let_def split: prod.split option.split)
  moreover have "oauth_clients (snd (refresh_grant cfg now na nr sb p s)) = oauth_clients s" for sb
    by (simp add: refresh_grant_def Let_def split: option.split)
  ultimately show ?thesis by (simp add: handleToken_def Let_def)
qed

lemma clients_exec:
  "\<exists>new. map client_core (oauth_clients (oauth_exec cfg a s)) = map client_core (oauth_clients s) @ new \<and>
     (\<forall>x\<in>set new. fst x \<notin> client_id ` set (oauth_clients s)) \<and> length new \<le> 1"
proof (cases a)
  case (Register now today r db bearer body)
  then show ?thesis using clients_registerClient [of now r "db_up db"]
    by (auto simp: handleOAuthRegister_def Let_def split: option.split)
next
  case (Authorize now today code db p)
  obtain s1 where id: "identify_client cfg now today db p s = (fst (identify_client cfg now today db p s), s1)"
    and out: "snd (handleAuthorize cfg now today code db p s) = s \<or> snd (handleAuthorize cfg now today code db p s) = s1 \<or>
     (\<exists>d. snd (handleAuthorize cfg now today code db p s) = put_code cfg now code d s1)"
    by (rule handleAuthorize_state)
  with clients_identify [OF id] show ?thesis
    by (auto simp: Authorize oauth_clients_put_code intro!: exI [of _ "[]"])
next
  case (Validate now token)
  then show ?thesis by (simp add: validateAccessToken_def split: option.split)
qed (simp_all add: clients_token cleanupExpiredOAuthData_def)

text \<open>
  A registration is for good: over any run of the endpoints the registered clients keep their
  identifier, name, redirect URIs and scope, in particular when the same identifier registers again,
  and no identifier is registered twice.
\<close>

theorem registration_immutable:
  "\<exists>new. map client_core (oauth_clients (oauth_run cfg calls s)) = map client_core (oauth_clients s) @ new \<and>
     (distinct (map client_id (oauth_clients s)) \<longrightarrow> distinct (map client_id (oauth_clients (oauth_run cfg calls s))))"
proof (induction calls arbitrary: s)
  case (Cons a calls)
  let ?s = "oauth_exec cfg a s"
  have ids: "map client_id rs = map fst (map client_core rs)" for rs by simp
  obtain n1 where n1: "map client_core (oauth_clients ?s) = map client_core (oauth_clients s) @ n1"
    "\<forall>x\<in>set n1. fst x \<notin> client_id ` set (oauth_clients s)" "length n1 \<le> 1"
    using clients_exec by blast
  have "distinct (map client_id (oauth_clients ?s))" if "distinct (map client_id (oauth_clients s))"
  proof -
    have "distinct (map fst n1)" using n1(3) by (cases n1) auto
    moreover have "map client_id (oauth_clients ?s) = map client_id (oauth_clients s) @ map fst n1"
      unfolding ids n1(1) by simp
    moreover have "set (map client_id (oauth_clients s)) \<inter> set (map fst n1) = {}" using n1(2) by force
    ultimately show ?thesis using that by simp
  qed
  moreover obtain n2 where "map client_core (oauth_clients (oauth_run cfg calls ?s)) = map client_core (oauth_clients ?s) @ n2"
    "distinct (map client_id (oauth_clients ?s)) \<longrightarrow> distinct (map client_id (oauth_clients (oauth_run cfg calls ?s)))"
    using Cons by blast
  ultimately show ?case using n1(1) by auto
qed simp

definition sample_client :: oauth_client where
  "sample_client =
     \<lparr>client_id = ''wdm_1'', client_name = Some ''app'', redirect_uris = [''u''], oc_scope = ''mcp'',
      client_uri = None, logo_uri = None, oc_created_at = 0, oc_last_used_at = None\<rparr>"

definition sample_register :: oauth_call where
  "sample_register = Register 5 0 ''1'' sample_db None
     \<lparr>rb_redirect_uris = [''evil''], rb_client_name = Some ''evil'', rb_scope = None, rb_client_uri = None, rb_logo_uri = None\<rparr>"

theorem registration_immutable_witness:
  "let s' = oauth_run sample_cfg [sample_register] (sample_oauth\<lparr>oauth_clients := [sample_client]\<rparr>)
   in oauth_clients s' \<noteq> [sample_client] \<and>
      (\<exists>new. map client_core (oauth_clients s') = (''wdm_1'', Some ''app'', [''u''], ''mcp'') # new) \<and>
      distinct (map client_id (oauth_clients s'))"
  using registration_immutable [of sample_cfg "[sample_register]" "sample_oauth\<lparr>oauth_clients := [sample_client]\<rparr>"]
  by (simp add: Let_def sample_client_def client_core_def sample_register_def handleOAuthRegister_def
      registerClient_def bound_names_def sample_db_def)

end
