(* ===== verification/Auth.thy ===== *)
theory Auth
  imports OAuthFlow
begin

text \<open>
  Request authentication, \<open>lib/auth.js\<close>: the access key of the server, OAuth access tokens and
  database API keys, in the order in which \<open>validateAuthentication\<close> tries them.  The result says
  who the caller is: the operator (\<open>Master\<close>), an API key, an OAuth client without a key, or nobody.
  The OAuth store and the key tables are threaded through, because a check deletes expired
  tokens, extends the life of a token in Redis and counts the use of a key.

  The theorems: who is authenticated and why, that the check fails closed, that a key that is
  refused by the key store never authenticates, and what a client name of the form
  \<open>apikey:<id>\<close> does.
\<close>

record request =
  legacy_key :: "string option"
  authorization :: "string option"

record message =
  msg_method :: string
  msg_access_key :: "string option"

datatype auth_result =
    Denied string
  | Master bool
  | OAuthClient "string option"
  | KeyAuth bool key_info

section \<open>The bearer token\<close>

definition line_end :: "char \<Rightarrow> bool" where
  "line_end c \<longleftrightarrow> c \<in> {CHR 0x0A, CHR 0x0D}"

text \<open>
  The match of \<open>/^Bearer\s+(.+)$/i\<close>: when only blanks follow, the engine gives the last one back to
  the group.
\<close>

definition extractBearerToken :: "string option \<Rightarrow> string option" where
  "extractBearerToken authHeader =
     (if \<not> truthy authHeader \<or> map to_lower (take 6 (the authHeader)) \<noteq> ''bearer'' then None
      else
        let rest = drop 6 (the authHeader);
            blanks = takeWhile js_space rest;
            tok = dropWhile js_space rest
        in if blanks = [] then None
           else if tok \<noteq> [] then (if list_ex line_end tok then None else Some tok)
           else if 2 \<le> length blanks \<and> \<not> line_end (last blanks) then Some [last blanks]
           else None)"

lemma extractBearerToken_examples:
  "extractBearerToken (Some ''bearer  k v'') = Some ''k v''" "extractBearerToken (Some ''Basic k'') = None"
  "extractBearerToken (Some ''BearerX'') = None"
  by code_simp+

lemma extractBearerToken_nonempty: "extractBearerToken h = Some t \<Longrightarrow> t \<noteq> []"
  by (auto simp: extractBearerToken_def Let_def split: if_splits)

section \<open>Decisions\<close>

datatype decision = KeyRequired | AuthOff | MasterKey | NoMatch

definition buildAuthDecision :: "(string \<Rightarrow> string) \<Rightarrow> string \<Rightarrow> bool \<Rightarrow> string option \<Rightarrow> decision" where
  "buildAuthDecision h accessKey authDisabled bearerToken =
     (if accessKey = [] \<and> \<not> authDisabled then KeyRequired
      else if accessKey = [] \<and> authDisabled then AuthOff
      else if truthy bearerToken \<and> safeCompare h (the bearerToken) accessKey then MasterKey
      else NoMatch)"

definition isInitializeRequest :: "message option \<Rightarrow> bool" where
  "isInitializeRequest msg = (case msg of None \<Rightarrow> False | Some m \<Rightarrow> msg_method m = ''initialize'')"

text \<open>
  The first and second preference for a valid OAuth token; \<open>None\<close> falls through.  The result for a bound key
  leaves the default mode of the key out.
\<close>

definition bound_key_auth ::
  "int \<Rightarrow> int \<Rightarrow> access_info \<Rightarrow> key_db \<Rightarrow> (auth_result \<times> key_db) option" where
  "bound_key_auth now today i db =
     (if \<not> truthy (ai_bound_key_id i) then None
      else case validateApiKeyById (ai_bound_key_id i) db of
        Invalid _ \<Rightarrow> None
      | Valid info \<Rightarrow> Some (KeyAuth True (info\<lparr>defaultMode := None\<rparr>), incrementUsage now today (keyId info) db))"

definition client_key_auth ::
  "(string \<Rightarrow> string) \<Rightarrow> int \<Rightarrow> int \<Rightarrow> access_info \<Rightarrow> key_db \<Rightarrow> (auth_result \<times> key_db) option" where
  "client_key_auth h now today i db =
     (if \<not> ai_is_api_key i then None
      else case ai_client_id i of
        None \<Rightarrow> None
      | Some c \<Rightarrow>
          (case validateApiKeyFromDB h today c db of
             Inr (Valid info) \<Rightarrow> Some (KeyAuth True info, incrementUsage now today (keyId info) db)
           | _ \<Rightarrow> None))"

definition extend_token :: "oauth_cfg \<Rightarrow> int \<Rightarrow> string \<Rightarrow> oauth_state \<Rightarrow> oauth_state" where
  "extend_token cfg now token s =
     s\<lparr>token_redis := extendOAuthToken (REDIS_ENABLED cfg) now token (OAUTH_TOKEN_TTL_SECONDS cfg) (token_redis s)\<rparr>"

definition oauth_auth ::
  "oauth_cfg \<Rightarrow> bool \<Rightarrow> bool \<Rightarrow> int \<Rightarrow> int \<Rightarrow> access_info \<Rightarrow> key_db \<Rightarrow> auth_result \<times> key_db" where
  "oauth_auth cfg AUTH_DISABLED REJECT_NONAPIKEY_OAUTH now today i db =
     (case bound_key_auth now today i db of
        Some r \<Rightarrow> r
      | None \<Rightarrow>
          (case client_key_auth (sha cfg) now today i db of
             Some r \<Rightarrow> r
           | None \<Rightarrow>
               if REJECT_NONAPIKEY_OAUTH \<and> ACCESS_KEY cfg \<noteq> [] \<and> \<not> AUTH_DISABLED
               then (Denied ''non-API-key OAuth denied'', db)
               else (OAuthClient (ai_client_id i), db)))"

text \<open>The \<open>Authorization\<close> header; \<open>None\<close> goes on with the body of the request.\<close>

definition header_auth ::
  "oauth_cfg \<Rightarrow> bool \<Rightarrow> bool \<Rightarrow> int \<Rightarrow> int \<Rightarrow> string option \<Rightarrow> oauth_state \<Rightarrow> key_db
     \<Rightarrow> auth_result option \<times> oauth_state \<times> key_db" where
  "header_auth cfg AUTH_DISABLED REJECT now today authHeader s db =
     (case extractBearerToken authHeader of
        None \<Rightarrow> (None, s, db)
      | Some token \<Rightarrow>
          if safeCompare (sha cfg) token (ACCESS_KEY cfg) then (Some (Master False), s, db)
          else case validateAccessToken cfg now token s of
            (Inr i, s1) \<Rightarrow>
              (case oauth_auth cfg AUTH_DISABLED REJECT now today i db of
                 (r, db1) \<Rightarrow> (Some r, extend_token cfg now token s1, db1))
          | (Inl _, s1) \<Rightarrow>
              (case validateApiKeyFromDB (sha cfg) today token db of
                 Inr (Valid info) \<Rightarrow> (Some (KeyAuth False info), s1, incrementUsage now today (keyId info) db)
               | _ \<Rightarrow> (None, s1, db)))"

definition validateAuthentication ::
  "oauth_cfg \<Rightarrow> bool \<Rightarrow> bool \<Rightarrow> int \<Rightarrow> int \<Rightarrow> request \<Rightarrow> message option \<Rightarrow> oauth_state \<Rightarrow> key_db
     \<Rightarrow> auth_result \<times> oauth_state \<times> key_db" where
  "validateAuthentication cfg AUTH_DISABLED REJECT now today req msg s db =
     (if ACCESS_KEY cfg = []
      then (case buildAuthDecision (sha cfg) (ACCESS_KEY cfg) AUTH_DISABLED None of
              AuthOff \<Rightarrow> (Master True, s, db)
            | MasterKey \<Rightarrow> (Master False, s, db)
            | _ \<Rightarrow> (Denied ''Server authentication is not configured.'', s, db))
      else if truthy (legacy_key req) \<and> safeCompare (sha cfg) (the (legacy_key req)) (ACCESS_KEY cfg)
      then (Master False, s, db)
      else case header_auth cfg AUTH_DISABLED REJECT now today (authorization req) s db of
        (Some r, s1, db1) \<Rightarrow> (r, s1, db1)
      | (None, s1, db1) \<Rightarrow>
          if isInitializeRequest msg \<and> truthy (msg_access_key (the msg)) \<and>
             safeCompare (sha cfg) (the (msg_access_key (the msg))) (ACCESS_KEY cfg)
          then (Master False, s1, db1)
          else (Denied ''Invalid or missing access key'', s1, db1))"

definition validateMasterKey :: "oauth_cfg \<Rightarrow> bool \<Rightarrow> request \<Rightarrow> bool" where
  "validateMasterKey cfg AUTH_DISABLED req =
     (if ACCESS_KEY cfg = [] \<and> AUTH_DISABLED then True
      else if ACCESS_KEY cfg = [] then False
      else if \<not> truthy (authorization req) then False
      else case extractBearerToken (authorization req) of
        None \<Rightarrow> False
      | Some token \<Rightarrow> safeCompare (sha cfg) token (ACCESS_KEY cfg))"

text \<open>\<open>requireAuthentication\<close> answers 401 and the name of the realm's metadata when the check denies.\<close>

definition requireAuthentication ::
  "oauth_cfg \<Rightarrow> bool \<Rightarrow> bool \<Rightarrow> int \<Rightarrow> int \<Rightarrow> request \<Rightarrow> message option \<Rightarrow> oauth_state \<Rightarrow> key_db
     \<Rightarrow> (nat \<times> string) option \<times> oauth_state \<times> key_db" where
  "requireAuthentication cfg AUTH_DISABLED REJECT now today req msg s db =
     (case validateAuthentication cfg AUTH_DISABLED REJECT now today req msg s db of
        (Denied e, s1, db1) \<Rightarrow> (Some (401, e), s1, db1)
      | (_, s1, db1) \<Rightarrow> (None, s1, db1))"

section \<open>Who is authenticated\<close>

text \<open>Presented secrets: the strings of the request that are compared with the access key.\<close>

definition presents :: "request \<Rightarrow> message option \<Rightarrow> string set" where
  "presents req msg =
     set_option (legacy_key req) \<union> set_option (extractBearerToken (authorization req)) \<union>
     (if isInitializeRequest msg then set_option (msg_access_key (the msg)) else {})"

text \<open>The credential of a bearer token for an API key.\<close>

definition proves_key :: "oauth_cfg \<Rightarrow> int \<Rightarrow> oauth_state \<Rightarrow> string \<Rightarrow> api_key \<Rightarrow> bool" where
  "proves_key cfg now s token k \<longleftrightarrow>
     key_hash k = sha cfg token \<or>
     (\<exists>i. fst (validateAccessToken cfg now token s) = Inr i \<and>
          (ai_bound_key_id i = Some (k_id k) \<or>
           ai_is_api_key i \<and> (\<exists>c. ai_client_id i = Some c \<and> key_hash k = sha cfg c)))"

lemma oauth_auth_KeyAuth:
  assumes "oauth_auth cfg ad rej now today i db = (KeyAuth b info, db')"
  obtains k where "k \<in> set (api_keys db)" "status k = ''active''" "keyId info = k_id k" "i_permissions info = permissions k"
    "ai_bound_key_id i = Some (k_id k) \<or> ai_is_api_key i \<and> (\<exists>c. ai_client_id i = Some c \<and> key_hash k = sha cfg c)"
proof -
  from assms consider info0 where "validateApiKeyById (ai_bound_key_id i) db = Valid info0" "info = info0\<lparr>defaultMode := None\<rparr>"
    | c where "ai_is_api_key i" "ai_client_id i = Some c" "validateApiKeyFromDB (sha cfg) today c db = Inr (Valid info)"
    by (auto simp: oauth_auth_def bound_key_auth_def client_key_auth_def
        split: option.split_asm if_split_asm key_result.split_asm sum.split_asm)
  then show thesis
  proof cases
    case 1
    from 1(1) show ?thesis by (rule validate_Id_Valid) (use 1(2) in \<open>auto simp: row_info_def intro: that\<close>)
  next
    case 2
    from 2(3) show ?thesis by (rule validate_DB_Valid) (use 2(1,2) in \<open>auto simp: row_info_def intro: that\<close>)
  qed
qed

lemma oauth_auth_not_master: "oauth_auth cfg ad rej now today i db \<noteq> (Master m, db')"
  by (auto simp: oauth_auth_def bound_key_auth_def client_key_auth_def
      split: option.splits if_splits key_result.splits sum.splits)

lemma header_auth_KeyAuth:
  assumes "header_auth cfg ad rej now today h s db = (Some (KeyAuth b info), s', db')"
  obtains token k where "extractBearerToken h = Some token" "k \<in> set (api_keys db)" "status k = ''active''"
    "keyId info = k_id k" "i_permissions info = permissions k" "proves_key cfg now s token k"
proof -
  from assms obtain token where t: "extractBearerToken h = Some token"
    by (auto simp: header_auth_def split: option.split_asm)
  with assms consider i s1 where "validateAccessToken cfg now token s = (Inr i, s1)"
      "oauth_auth cfg ad rej now today i db = (KeyAuth b info, db')"
    | "validateApiKeyFromDB (sha cfg) today token db = Inr (Valid info)"
    by (auto simp: header_auth_def split: if_split_asm prod.split_asm sum.split_asm key_result.split_asm)
  then show thesis
  proof cases
    case 1
    from 1(2) show ?thesis
      by (rule oauth_auth_KeyAuth) (use 1(1) t in \<open>auto simp: proves_key_def intro: that\<close>)
  next
    case 2
    then show ?thesis
      by (rule validate_DB_Valid) (use t in \<open>auto simp: proves_key_def row_info_def intro: that\<close>)
  qed
qed

lemma header_auth_Master:
  assumes "header_auth cfg ad rej now today h s db = (Some (Master m), s', db')"
  shows "\<exists>token. extractBearerToken h = Some token \<and> sha cfg token = sha cfg (ACCESS_KEY cfg)"
  using assms oauth_auth_not_master
  by (auto simp: header_auth_def safeCompare_def
      split: option.split_asm if_split_asm prod.split_asm sum.split_asm key_result.split_asm)


definition sample_request :: "string \<Rightarrow> request" where
  "sample_request t = \<lparr>legacy_key = None, authorization = Some (''Bearer '' @ t)\<rparr>"

definition empty_oauth :: oauth_state where
  "empty_oauth =
     \<lparr>code_redis = empty_redis, token_redis = empty_redis, authCodes = [], accessTokens = [], oauth_clients = []\<rparr>"

lemmas auth_defs = validateAuthentication_def header_auth_def safeCompare_def validateAccessToken_def get_token_def
  validateApiKeyFromDB_def usage_today_def getGroupKeyIds_def

lemma sample_bearer: "extractBearerToken (Some ''Bearer wdm_a_1'') = Some ''wdm_a_1''"
  by code_simp

lemma sample_key_authenticates:
  "\<exists>info s' db'. validateAuthentication sample_cfg False True 0 0 (sample_request ''wdm_a_1'') None empty_oauth sample_db =
     (KeyAuth False info, s', db')"
  by (simp add: auth_defs sample_request_def sample_bearer sample_cfg_def empty_oauth_def sample_db_def sample_key_def)


text \<open>
  A key that the key store refuses is nobody: while neither its raw key nor its id validates, no
  request, with no token, bound or not, in no state of the OAuth store, authenticates as that key;
  and no check touches the rows of the other keys except to count and date the use of the
  authenticated one.
\<close>

theorem refused_key_never_authenticates:
  assumes "refused (sha cfg) i db"
    and "validateAuthentication cfg ad rej now today req msg s db = (KeyAuth b info, s', db')"
  shows "keyId info \<noteq> i \<and> db' = incrementUsage now today (keyId info) db"
proof -
  have byId: "keyId info \<noteq> i" if "validateApiKeyById j db = Valid info" for j info
    using assms(1) that by (auto simp: refused_def)
  have byRaw: "keyId info \<noteq> i" if "validateApiKeyFromDB (sha cfg) today raw db = Inr (Valid info)" for raw info
    using assms(1) that by (auto simp: refused_def)
  have oauth: "keyId info \<noteq> i \<and> db' = incrementUsage now today (keyId info) db"
    if "oauth_auth cfg ad rej now today ai db = (KeyAuth b info, db')" for ai
    using that
    by (auto simp: oauth_auth_def bound_key_auth_def client_key_auth_def dest: byId byRaw
        split: option.split_asm if_split_asm key_result.split_asm sum.split_asm)
  have "ACCESS_KEY cfg \<noteq> [] \<and> header_auth cfg ad rej now today (authorization req) s db = (Some (KeyAuth b info), s', db')"
    using assms(2)
    by (auto simp: validateAuthentication_def split: if_split_asm prod.split_asm option.split_asm decision.split_asm)
  then show ?thesis
    by (auto simp: header_auth_def dest: byRaw oauth
        split: option.split_asm if_split_asm prod.split_asm sum.split_asm key_result.split_asm)
qed

theorem refused_key_never_authenticates_witness:
  "\<exists>info s' db'. validateAuthentication sample_cfg False True 0 0 (sample_request ''wdm_a_1'') None empty_oauth sample_db =
     (KeyAuth False info, s', db') \<and> keyId info \<noteq> ''gone''"
proof -
  have "refused (sha sample_cfg) ''gone'' sample_db" by (rule refusedI) (auto simp: sample_db_def sample_key_def)
  then show ?thesis using refused_key_never_authenticates sample_key_authenticates by blast
qed

section \<open>What a client name can do\<close>

lemma find_snoc: "find P xs = None \<Longrightarrow> find P (xs @ [x]) = (if P x then Some x else None)"
  by (induction xs) (auto split: if_splits)

lemma find_distinct: "distinct (map f ks) \<Longrightarrow> k \<in> set ks \<Longrightarrow> find (\<lambda>r. f r = f k) ks = Some k"
  by (induction ks) (auto simp: rev_image_eqI)

lemma validateApiKeyById_active:
  assumes "keys_ok db" "db_up db" "k \<in> set (api_keys db)" "status k = ''active''"
  shows "\<exists>gs. validateApiKeyById (Some (k_id k)) db = Valid (row_info k gs Undef)"
proof -
  have "find (\<lambda>r. k_id r = k_id k) (api_keys db) = Some k"
    using assms(1,3) by (simp add: keys_ok_def find_distinct)
  moreover have "k_id k \<noteq> []" using assms(1,3) by (auto simp: keys_ok_def image_iff)
  ultimately show ?thesis using assms(2,4) by (auto simp: validateApiKeyById_def getGroupKeyIds_def Let_def)
qed

text \<open>The three requests: an open registration, an authorization and an exchange, without any secret.\<close>

definition forged_register :: "string \<Rightarrow> string \<Rightarrow> register_body" where
  "forged_register keyid u =
     \<lparr>rb_redirect_uris = [u], rb_client_name = Some (''apikey:'' @ keyid), rb_scope = None,
      rb_client_uri = None, rb_logo_uri = None\<rparr>"

definition forged_authorize :: "oauth_cfg \<Rightarrow> string \<Rightarrow> string \<Rightarrow> string \<Rightarrow> authorize_params" where
  "forged_authorize cfg cid u v =
     \<lparr>response_type = Some ''code'', a_client_id = Some cid, a_redirect_uri = Some u,
      a_code_challenge = Some (base64UrlEncode (sha64 cfg v)), code_challenge_method = Some ''S256'',
      a_state = None, a_scope = None, a_resource = None\<rparr>"

definition forged_exchange :: "string \<Rightarrow> string \<Rightarrow> string \<Rightarrow> token_params" where
  "forged_exchange code u v =
     \<lparr>grant_type = Some ''authorization_code'', p_code = Some code, p_redirect_uri = Some u,
      code_verifier = Some v, refresh_token = None, client_secret = None, p_resource = None\<rparr>"

definition forged_state ::
  "oauth_cfg \<Rightarrow> int \<Rightarrow> int \<Rightarrow> key_db \<Rightarrow> string \<Rightarrow> string \<Rightarrow> string \<Rightarrow> string \<Rightarrow> string \<Rightarrow> string \<Rightarrow> string
     \<Rightarrow> oauth_state \<Rightarrow> oauth_state" where
  "forged_state cfg now today db keyid r code na nr u v s =
     oauth_run cfg
       [Register now today r db None (forged_register keyid u),
        Authorize now today code db (forged_authorize cfg (''wdm_'' @ r) u v),
        Exchange now today na nr db (forged_exchange code u v)] s"

lemma forged_flow:
  assumes "ACCESS_KEY cfg \<noteq> []" "\<not> REDIS_ENABLED cfg" "parse_url cfg u \<noteq> None" "u \<noteq> []" "v \<noteq> []" "code \<noteq> []"
    and "base64UrlEncode (sha64 cfg v) \<noteq> []" "sha cfg (''wdm_'' @ r) \<noteq> sha cfg (ACCESS_KEY cfg)"
    and "sha cfg (''wdm_'' @ r) \<notin> key_hash ` set (api_keys db)" "''wdm_'' @ r \<notin> client_id ` set (oauth_clients s)"
    and "db_up db" "validateApiKeyById (Some keyid) db = Valid info" "bound_name_key (''apikey:'' @ keyid) = Some keyid"
    and "na \<noteq> nr"
  shows "\<exists>d. map_of (accessTokens (forged_state cfg now today db keyid r code na nr u v s)) na = Some d \<and>
           t_type d = ''access'' \<and> now \<le> t_expires_at d - TOKEN_TTL_MS cfg \<and> t_bound_key_id d = Some keyid"
proof -
  let ?cid = "''wdm_'' @ r"
  have kid: "keyid \<noteq> []" using assms(12) by (auto simp: validateApiKeyById_def)
  have "find (\<lambda>c. client_id c = ?cid) (oauth_clients s) = None" using assms(10) by (auto simp: find_None_iff image_iff)
  then obtain cl where cl: "oauth_exec cfg (Register now today r db None (forged_register keyid u)) s = s\<lparr>oauth_clients := oauth_clients s @ [cl]\<rparr>"
      "client_id cl = ?cid" "client_name cl = Some (''apikey:'' @ keyid)" "redirect_uris cl = [u]"
    using assms(11)
    by (simp add: handleOAuthRegister_def registerClient_def bound_names_def forged_register_def Let_def)
  let ?s1 = "s\<lparr>oauth_clients := oauth_clients s @ [cl]\<rparr>"
  have "find (\<lambda>c. client_id c = ?cid) (oauth_clients ?s1) = Some cl"
    using \<open>find _ _ = None\<close> cl(2) by (simp add: find_snoc)
  moreover have "find (\<lambda>k. key_hash k = sha cfg ?cid) (api_keys db) = None"
    using assms(9) by (auto simp: find_None_iff image_iff)
  ultimately obtain s2 where s2: "identify_client cfg now today db (forged_authorize cfg ?cid u v) ?s1 = (Inr (Some cl, True, Some keyid), s2)"
    using assms(1,8,11,12,13) cl(3)
    by (simp add: identify_client_def is_access_key_def safeCompare_def client_is_key_def getClient_def
        validateApiKeyFromDB_def client_bound_key_def forged_authorize_def Let_def)
  define cd where "cd = \<lparr>c_client_id = Some ?cid, c_redirect_uri = Some u, code_challenge = Some (base64UrlEncode (sha64 cfg v)),
     c_scope = ''mcp'', c_state = None, c_is_api_key = True, c_bound_key_id = Some keyid, c_resource = None,
     c_created_at = now, c_expires_at = now + CODE_TTL_MS\<rparr>"
  have auth: "snd (handleAuthorize cfg now today code db (forged_authorize cfg ?cid u v) ?s1) = put_code cfg now code cd s2"
  proof -
    have "handleAuthorize cfg now today code db (forged_authorize cfg ?cid u v) ?s1 =
        issue_code cfg now code (forged_authorize cfg ?cid u v) True (Some keyid) s2"
      using assms(4,7) s2 cl(4) by (simp add: handleAuthorize_def validateRedirectUri_def forged_authorize_def)
    then show ?thesis using kid by (simp add: issue_code_def forged_authorize_def cd_def Let_def)
  qed
  have "accessTokens (snd (handleToken cfg now today na nr db (forged_exchange code u v) (put_code cfg now code cd s2))) =
      AList.update nr (new_token ''refresh'' now (TOKEN_TTL_MS cfg * 24) (Some ?cid) ''mcp'' True (Some keyid) None)
        (AList.update na (new_token ''access'' now (TOKEN_TTL_MS cfg) (Some ?cid) ''mcp'' True (Some keyid) None) (accessTokens s2))"
    using assms(2,5,6) kid
    by (simp add: handleToken_def code_grant_def take_code_def put_code_def put_token_def forged_exchange_def cd_def
        secret_bound_key_def verifyCodeChallenge_def effective_bound_def store_simps CODE_TTL_MS_def Let_def)
  then show ?thesis
    using cl(1) auth assms(14) by (simp add: forged_state_def store_simps)
qed

text \<open>
  C12. A client name is taken at its word: the open registration stores any \<open>client_name\<close>, and the
  authorization endpoint binds a client named \<open>apikey:<id>\<close> to the API key with that id.  So whoever
  knows the id of an active key, and none of its secrets, registers such a client, runs the code flow
  and is then authenticated as that key, with its permissions and its groups.
\<close>

theorem registered_name_impersonates_key:
  assumes "ACCESS_KEY cfg \<noteq> []" "\<not> REDIS_ENABLED cfg" "0 \<le> OAUTH_TOKEN_TTL_SECONDS cfg"
    and "parse_url cfg u \<noteq> None" "u \<noteq> []" "v \<noteq> []" "code \<noteq> []" "base64UrlEncode (sha64 cfg v) \<noteq> []"
    and "\<forall>x\<in>{''wdm_'' @ r, na}. sha cfg x \<noteq> sha cfg (ACCESS_KEY cfg) \<and> sha cfg x \<notin> key_hash ` set (api_keys db)"
    and "''wdm_'' @ r \<notin> client_id ` set (oauth_clients s)" "na \<noteq> nr"
    and "extractBearerToken (Some (''Bearer '' @ na)) = Some na"
    and "keys_ok db" "db_up db" "k \<in> set (api_keys db)" "status k = ''active''"
    and "bound_name_key (''apikey:'' @ k_id k) = Some (k_id k)"
  shows "\<exists>gs. fst (validateAuthentication cfg ad True now today (sample_request na) None
                (forged_state cfg now today db (k_id k) r code na nr u v s) db) =
              KeyAuth True ((row_info k gs Undef)\<lparr>defaultMode := None\<rparr>)"
proof -
  obtain gs where valid: "validateApiKeyById (Some (k_id k)) db = Valid (row_info k gs Undef)"
    using validateApiKeyById_active [OF assms(13-16)] by blast
  then have kid: "k_id k \<noteq> []" by (auto simp: validateApiKeyById_def)
  let ?s = "forged_state cfg now today db (k_id k) r code na nr u v s"
  obtain d where d: "map_of (accessTokens ?s) na = Some d" "t_type d = ''access''"
      "now \<le> t_expires_at d - TOKEN_TTL_MS cfg" "t_bound_key_id d = Some (k_id k)"
    using forged_flow [OF assms(1,2,4-8) _ _ assms(10,14) valid assms(17,11)] assms(9) by blast
  have na: "na \<noteq> []" using assms(12) extractBearerToken_nonempty by blast
  have "\<not> now > t_expires_at d" using d(3) assms(3) by (simp add: TOKEN_TTL_MS_def)
  then have tok: "fst (validateAccessToken cfg now na ?s) =
      Inr \<lparr>ai_client_id = t_client_id d, ai_scope = t_scope d, ai_is_api_key = t_is_api_key d, ai_bound_key_id = Some (k_id k)\<rparr>"
    using d na assms(2) kid by (simp add: validateAccessToken_def get_token_def)
  have "fst (header_auth cfg ad True now today (Some (''Bearer '' @ na)) ?s db) = Some (KeyAuth True ((row_info k gs Undef)\<lparr>defaultMode := None\<rparr>))"
    using tok valid kid assms(9,12)
    by (cases "validateAccessToken cfg now na ?s")
      (auto simp: header_auth_def safeCompare_def oauth_auth_def bound_key_auth_def)
  then show ?thesis
    using assms(1)
    by (cases "header_auth cfg ad True now today (Some (''Bearer '' @ na)) ?s db")
      (auto simp: validateAuthentication_def sample_request_def)
qed

definition uuid_key :: api_key where
  "uuid_key = sample_key ''00000000-0000-4000-8000-0000000000aF'' ''wdm_a_1''"

theorem registered_name_impersonates_key_witness:
  "\<exists>gs. fst (validateAuthentication sample_cfg False True 5 0 (sample_request ''na'') None
          (forged_state sample_cfg 5 0 (sample_db\<lparr>api_keys := [uuid_key]\<rparr>) (k_id uuid_key) ''1'' ''c'' ''na'' ''nr'' ''u'' ''v''
            empty_oauth) (sample_db\<lparr>api_keys := [uuid_key]\<rparr>)) =
        KeyAuth True ((row_info uuid_key gs Undef)\<lparr>defaultMode := None\<rparr>)"
proof -
  have na: "extractBearerToken (Some (''Bearer '' @ ''na'')) = Some ''na''" by code_simp
  have name: "bound_name_key (''apikey:'' @ k_id uuid_key) = Some (k_id uuid_key)" by code_simp
  show ?thesis
    by (rule registered_name_impersonates_key [OF _ _ _ _ _ _ _ _ _ _ _ na _ _ _ _ name])
      (simp_all add: sample_cfg_def uuid_key_def sample_key_def sample_db_def empty_oauth_def base64UrlEncode_def keys_ok_def)
qed

end
