(* ===== verification/Sessions.thy ===== *)
theory Sessions
  imports Redis
begin

text \<open>
  Sessions, \<open>lib/sessions.js\<close>: streamable HTTP sessions with their copy in Redis, legacy SSE sessions,
  validation with a sliding expiry, restoration after a restart, rotation, and the periodic cleaning.

  The state holds the two maps, the session part of Redis, and the list of the sessions that were
  handed to \<open>autoReflect\<close> (whose failures are swallowed).  What is stored in Redis is the record
  without its connection: \<open>persistable\<close>.  An SSE connection is \<open>Some n\<close>, with \<open>n\<close> failed
  heartbeats in a row.
\<close>

record sess_cfg =
  SESSION_TTL_MS :: int
  CACHE_SESSION_TTL :: int
  S_REDIS_ENABLED :: bool
  IDLE_REFLECT_HOURS :: int
  SSE_MAX_HEARTBEAT_FAILURES :: nat
  SUPPORTED_PROTOCOL_VERSIONS :: "string list"

record session =
  sessionId :: string
  authenticated :: bool
  s_keyId :: "string option"
  s_groupKeyIds :: "string list option"
  s_permissions :: "string list option"
  s_defaultWorkspace :: "string option"
  s_mode :: "string option"
  createdAt :: int
  expiresAt :: int
  lastAccessedAt :: int
  lastReflectedAt :: "int option"
  negotiatedVersion :: "string option"
  restored :: bool
  sse :: "nat option"

record legacy_session =
  l_authenticated :: bool
  l_createdAt :: int
  l_expiresAt :: int
  l_lastAccessedAt :: int
  l_failures :: nat

record sess_state =
  streamableSessions :: "(string, session) jsmap"
  legacySseSessions :: "(string, legacy_session) jsmap"
  session_redis :: "session redis"
  reflected :: "string list"

definition persistable :: "session \<Rightarrow> session" where
  "persistable s = s\<lparr>restored := False, sse := None\<rparr>"

definition save_redis :: "sess_cfg \<Rightarrow> int \<Rightarrow> string \<Rightarrow> session \<Rightarrow> int \<Rightarrow> sess_state \<Rightarrow> sess_state" where
  "save_redis c now i s ttl st =
     (if S_REDIS_ENABLED c
      then st\<lparr>session_redis := snd (saveSession now i (persistable s) ttl (session_redis st))\<rparr> else st)"

definition put_session :: "string \<Rightarrow> session \<Rightarrow> sess_state \<Rightarrow> sess_state" where
  "put_session i s st = st\<lparr>streamableSessions := AList.update i s (streamableSessions st)\<rparr>"

section \<open>Creation and closing\<close>

definition createStreamableSessionWithId ::
  "sess_cfg \<Rightarrow> int \<Rightarrow> string \<Rightarrow> bool \<Rightarrow> string option \<Rightarrow> string list option \<Rightarrow> string list option \<Rightarrow> string option
     \<Rightarrow> string option \<Rightarrow> string option \<Rightarrow> sess_state \<Rightarrow> sess_state" where
  "createStreamableSessionWithId c now i auth key groups perms ws mode ver st =
     (let s = \<lparr>sessionId = i, authenticated = auth, s_keyId = key, s_groupKeyIds = groups, s_permissions = perms,
               s_defaultWorkspace = ws, s_mode = mode, createdAt = now, expiresAt = now + SESSION_TTL_MS c,
               lastAccessedAt = now, lastReflectedAt = None, negotiatedVersion = ver, restored = False, sse = None\<rparr>
      in save_redis c now i s (CACHE_SESSION_TTL c) (put_session i s st))"

text \<open>The \<open>close\<close> method of a session; \<open>closeStreamableSession\<close> reflects first.\<close>

definition close_session :: "sess_cfg \<Rightarrow> string \<Rightarrow> bool \<Rightarrow> sess_state \<Rightarrow> sess_state" where
  "close_session c i preserveRedis st =
     (let st1 = st\<lparr>streamableSessions := AList.delete i (streamableSessions st)\<rparr>
      in if S_REDIS_ENABLED c \<and> \<not> preserveRedis
         then st1\<lparr>session_redis := snd (deleteSession i (session_redis st1))\<rparr> else st1)"

definition closeStreamableSession :: "sess_cfg \<Rightarrow> string \<Rightarrow> bool \<Rightarrow> sess_state \<Rightarrow> sess_state" where
  "closeStreamableSession c i preserveRedis st =
     (case map_of (streamableSessions st) i of
        None \<Rightarrow> st
      | Some _ \<Rightarrow> close_session c i preserveRedis (st\<lparr>reflected := reflected st @ [i]\<rparr>))"

section \<open>The SSE connection\<close>

definition setSseResponse :: "string \<Rightarrow> bool \<Rightarrow> sess_state \<Rightarrow> sess_state" where
  "setSseResponse i res st =
     (case map_of (streamableSessions st) i of
        None \<Rightarrow> st
      | Some s \<Rightarrow> if restored s then st
                  else put_session i (s\<lparr>sse := (if res then Some 0 else None)\<rparr>) st)"

definition heartbeat :: "sess_cfg \<Rightarrow> string \<Rightarrow> bool \<Rightarrow> sess_state \<Rightarrow> sess_state" where
  "heartbeat c i ok st =
     (case map_of (streamableSessions st) i of
        None \<Rightarrow> st
      | Some s \<Rightarrow>
          (case sse s of
             None \<Rightarrow> st
           | Some n \<Rightarrow>
               let n' = (if ok then 0 else Suc n)
               in if n' \<ge> SSE_MAX_HEARTBEAT_FAILURES c then closeStreamableSession c i False st
                  else put_session i (s\<lparr>sse := Some n'\<rparr>) st))"

section \<open>Validation\<close>

definition restore_session :: "sess_cfg \<Rightarrow> int \<Rightarrow> string option \<Rightarrow> session \<Rightarrow> session" where
  "restore_session c now ver r =
     (let s = r\<lparr>lastAccessedAt := now, expiresAt := now + SESSION_TTL_MS c, restored := True, sse := None\<rparr>
      in (case ver of
            None \<Rightarrow> s
          | Some v \<Rightarrow> if v \<in> set (SUPPORTED_PROTOCOL_VERSIONS c) then s\<lparr>negotiatedVersion := Some v\<rparr> else s))"

text \<open>The session in memory, after the attempt to restore it from Redis.\<close>

definition find_session :: "sess_cfg \<Rightarrow> int \<Rightarrow> string \<Rightarrow> string option \<Rightarrow> sess_state \<Rightarrow> session option \<times> sess_state" where
  "find_session c now i ver st =
     (case map_of (streamableSessions st) i of
        Some s \<Rightarrow> (Some s, st)
      | None \<Rightarrow>
          if \<not> S_REDIS_ENABLED c then (None, st)
          else case getSession now i (session_redis st) of
            None \<Rightarrow> (None, st)
          | Some r \<Rightarrow>
              let s = restore_session c now ver r
              in (Some s, save_redis c now i s (ceil_div (SESSION_TTL_MS c) 1000) (put_session i s st)))"

definition validateStreamableSession ::
  "sess_cfg \<Rightarrow> int \<Rightarrow> string \<Rightarrow> string option \<Rightarrow> sess_state \<Rightarrow> (string + session) \<times> sess_state" where
  "validateStreamableSession c now i ver st =
     (case find_session c now i ver st of
        (None, st1) \<Rightarrow> (Inl ''Session not found'', st1)
      | (Some s, st1) \<Rightarrow>
          if now > expiresAt s then (Inl ''Session expired'', closeStreamableSession c i False st1)
          else
            let s' = s\<lparr>lastAccessedAt := now, expiresAt := now + SESSION_TTL_MS c\<rparr>
            in (Inr s', save_redis c now i s' (max (ceil_div (expiresAt s' - now) 1000) 60) (put_session i s' st1)))"

section \<open>Legacy sessions\<close>

definition createLegacySseSession :: "sess_cfg \<Rightarrow> int \<Rightarrow> string \<Rightarrow> sess_state \<Rightarrow> sess_state" where
  "createLegacySseSession c now i st =
     st\<lparr>legacySseSessions := AList.update i
          \<lparr>l_authenticated = False, l_createdAt = now, l_expiresAt = now + SESSION_TTL_MS c, l_lastAccessedAt = now,
           l_failures = 0\<rparr> (legacySseSessions st)\<rparr>"

definition closeLegacySseSession :: "string \<Rightarrow> sess_state \<Rightarrow> sess_state" where
  "closeLegacySseSession i st =
     (case map_of (legacySseSessions st) i of
        None \<Rightarrow> st
      | Some _ \<Rightarrow> st\<lparr>reflected := reflected st @ [i], legacySseSessions := AList.delete i (legacySseSessions st)\<rparr>)"

definition legacy_heartbeat :: "sess_cfg \<Rightarrow> string \<Rightarrow> bool \<Rightarrow> sess_state \<Rightarrow> sess_state" where
  "legacy_heartbeat c i ok st =
     (case map_of (legacySseSessions st) i of
        None \<Rightarrow> st
      | Some s \<Rightarrow>
          let n = (if ok then 0 else Suc (l_failures s));
              st1 = st\<lparr>legacySseSessions := AList.update i (s\<lparr>l_failures := n\<rparr>) (legacySseSessions st)\<rparr>
          in if n \<ge> SSE_MAX_HEARTBEAT_FAILURES c then closeLegacySseSession i st1 else st1)"

definition validateLegacySseSession ::
  "sess_cfg \<Rightarrow> int \<Rightarrow> string \<Rightarrow> sess_state \<Rightarrow> (string + legacy_session) \<times> sess_state" where
  "validateLegacySseSession c now i st =
     (case map_of (legacySseSessions st) i of
        None \<Rightarrow> (Inl ''Session not found'', st)
      | Some s \<Rightarrow>
          if now > l_expiresAt s then (Inl ''Session expired'', closeLegacySseSession i st)
          else let s' = s\<lparr>l_lastAccessedAt := now, l_expiresAt := now + SESSION_TTL_MS c\<rparr>
               in (Inr s', st\<lparr>legacySseSessions := AList.update i s' (legacySseSessions st)\<rparr>))"

section \<open>Rotation\<close>

definition rotateSession ::
  "sess_cfg \<Rightarrow> int \<Rightarrow> string \<Rightarrow> string \<Rightarrow> sess_state
     \<Rightarrow> (nat \<times> string + string \<times> string \<times> int \<times> string option \<times> string option) \<times> sess_state" where
  "rotateSession c now newId oldId st =
     (case (case map_of (streamableSessions st) oldId of
              Some s \<Rightarrow> Some s
            | None \<Rightarrow> if S_REDIS_ENABLED c then getSession now oldId (session_redis st) else None) of
        None \<Rightarrow> (Inl (404, ''Session not found''), st)
      | Some e \<Rightarrow>
          if now > expiresAt e
          then (Inl (401, ''Session expired''), closeStreamableSession c oldId False st)
          else
            let st1 = createStreamableSessionWithId c now newId (authenticated e) (s_keyId e) (s_groupKeyIds e)
                        (s_permissions e) (s_defaultWorkspace e) (s_mode e) None st;
                st2 = (if map_of (streamableSessions st1) oldId \<noteq> None then close_session c oldId False st1
                       else if S_REDIS_ENABLED c
                       then st1\<lparr>session_redis := snd (deleteSession oldId (session_redis st1))\<rparr> else st1)
            in (Inr (oldId, newId,
                     (case map_of (streamableSessions st2) newId of Some s \<Rightarrow> expiresAt s | None \<Rightarrow> now + SESSION_TTL_MS c),
                     s_keyId e, s_defaultWorkspace e), st2))"

section \<open>Cleaning, counts and lists\<close>

text \<open>
  One turn of the loop of \<open>cleanupExpiredSessions\<close> for the entry \<open>(i, s)\<close>; \<open>reflects i\<close> says whether
  \<open>autoReflect\<close> succeeds.
\<close>

definition cleanup_one :: "sess_cfg \<Rightarrow> (string \<Rightarrow> bool) \<Rightarrow> int \<Rightarrow> string \<times> session \<Rightarrow> sess_state \<Rightarrow> sess_state" where
  "cleanup_one c reflects now e st =
     (case e of (i, s) \<Rightarrow>
        let idleThresholdMs = IDLE_REFLECT_HOURS c * 3600 * 1000
        in if now > expiresAt s then closeStreamableSession c i False st
           else
             let lastAccess = (if lastAccessedAt s = 0 then createdAt s else lastAccessedAt s);
                 needs = (case lastReflectedAt s of None \<Rightarrow> True | Some t \<Rightarrow> t = 0 \<or> now - t > idleThresholdMs)
             in if now - lastAccess > idleThresholdMs \<and> needs \<and> reflects i
                then put_session i (s\<lparr>lastReflectedAt := Some now\<rparr>) (st\<lparr>reflected := reflected st @ [i]\<rparr>)
                else st)"

definition cleanup_legacy :: "int \<Rightarrow> string \<times> legacy_session \<Rightarrow> sess_state \<Rightarrow> sess_state" where
  "cleanup_legacy now e st = (if now > l_expiresAt (snd e) then closeLegacySseSession (fst e) st else st)"

definition cleanupExpiredSessions :: "sess_cfg \<Rightarrow> (string \<Rightarrow> bool) \<Rightarrow> int \<Rightarrow> sess_state \<Rightarrow> sess_state" where
  "cleanupExpiredSessions c reflects now st =
     (let st1 = fold (cleanup_one c reflects now) (streamableSessions st) st
      in fold (cleanup_legacy now) (legacySseSessions st) st1)"

definition getSessionCounts :: "sess_state \<Rightarrow> nat \<times> nat \<times> nat" where
  "getSessionCounts st =
     (length (streamableSessions st), length (legacySseSessions st),
      length (streamableSessions st) + length (legacySseSessions st))"

definition listAllSessions :: "sess_state \<Rightarrow> (string \<times> string \<times> bool \<times> string option \<times> int \<times> int \<times> int) list" where
  "listAllSessions st =
     map (\<lambda>(i, s). (i, ''streamable'', authenticated s, s_keyId s, createdAt s, expiresAt s, lastAccessedAt s))
       (streamableSessions st) @
     map (\<lambda>(i, s). (i, ''legacy'', l_authenticated s, None, l_createdAt s, l_expiresAt s, l_lastAccessedAt s))
       (legacySseSessions st)"

definition getAllSessionIds :: "sess_state \<Rightarrow> string list \<times> string list" where
  "getAllSessionIds st = (map fst (streamableSessions st), map fst (legacySseSessions st))"

section \<open>Identity\<close>

text \<open>The authentication context of a session, which the handlers copy into every tool call.\<close>

definition ident :: "session \<Rightarrow> bool \<times> string option \<times> string list option \<times> string list option \<times> string option \<times> string option" where
  "ident s = (authenticated s, s_keyId s, s_groupKeyIds s, s_permissions s, s_defaultWorkspace s, s_mode s)"

lemma ident_update [simp]:
  "ident (s\<lparr>lastAccessedAt := a\<rparr>) = ident s" "ident (s\<lparr>expiresAt := e\<rparr>) = ident s" "ident (s\<lparr>restored := r\<rparr>) = ident s"
  "ident (s\<lparr>sse := x\<rparr>) = ident s" "ident (s\<lparr>lastReflectedAt := y\<rparr>) = ident s" "ident (s\<lparr>negotiatedVersion := v\<rparr>) = ident s"
  by (simp_all add: ident_def)

lemma ident_persistable [simp]: "ident (persistable s) = ident s"
  by (simp add: persistable_def)

lemma ident_restore [simp]: "ident (restore_session c now ver r) = ident r"
  by (simp add: restore_session_def Let_def split: option.split)

text \<open>Every copy of session \<open>i\<close>, in memory or in Redis (expired or not), has the identity \<open>d\<close>.\<close>

definition known_as :: "string \<Rightarrow> bool \<times> string option \<times> string list option \<times> string list option \<times> string option \<times> string option \<Rightarrow> sess_state \<Rightarrow> bool" where
  "known_as i d st \<longleftrightarrow>
     (\<forall>s. map_of (streamableSessions st) i = Some s \<longrightarrow> ident s = d) \<and>
     (\<forall>s e. map_of (data (session_redis st)) (getSessionKey i) = Some (s, e) \<longrightarrow> ident s = d)"

lemma known_as_put: "known_as i d st \<Longrightarrow> (j = i \<Longrightarrow> ident s = d) \<Longrightarrow> known_as i d (put_session j s st)"
  by (simp add: known_as_def put_session_def store_simps)

lemma known_as_save: "known_as i d st \<Longrightarrow> (j = i \<Longrightarrow> ident s = d) \<Longrightarrow> known_as i d (save_redis c now j s ttl st)"
  by (simp add: known_as_def save_redis_def saveSession_def redis_setex_def store_simps)

lemma known_as_reflected [simp]: "known_as i d (st\<lparr>reflected := r\<rparr>) = known_as i d st"
  by (simp add: known_as_def)

lemma known_as_legacy [simp]: "known_as i d (st\<lparr>legacySseSessions := l\<rparr>) = known_as i d st"
  by (simp add: known_as_def)

lemma known_as_close: "known_as i d st \<Longrightarrow> known_as i d (close_session c j p st)"
  by (simp add: known_as_def close_session_def deleteSession_def redis_del_def store_simps Let_def)

lemma known_as_closeStreamable: "known_as i d st \<Longrightarrow> known_as i d (closeStreamableSession c j p st)"
  by (simp add: closeStreamableSession_def known_as_close split: option.split)

lemma known_as_create:
  "known_as i d st \<Longrightarrow> (j = i \<Longrightarrow> (auth, key, groups, perms, ws, mode) = d) \<Longrightarrow>
     known_as i d (createStreamableSessionWithId c now j auth key groups perms ws mode ver st)"
  by (auto simp: createStreamableSessionWithId_def Let_def ident_def intro!: known_as_put known_as_save)

lemma find_session_known:
  assumes "find_session c now j ver st = (r, st1)" and "known_as i d st"
  shows "known_as i d st1" and "r = Some s \<Longrightarrow> j = i \<Longrightarrow> ident s = d"
proof -
  have "ident r = d" if "getSession now i (session_redis st) = Some r" for r
    using that assms(2)
    by (auto simp: getSession_def redis_get_def known_as_def split: if_split_asm option.split_asm)
  moreover have "ident s = d" if "map_of (streamableSessions st) i = Some s" for s
    using that assms(2) by (simp add: known_as_def)
  ultimately show "known_as i d st1" "r = Some s \<Longrightarrow> j = i \<Longrightarrow> ident s = d"
    using assms
    by (auto simp: find_session_def Let_def intro!: known_as_put known_as_save split: option.split_asm if_split_asm)
qed

lemma validate_known:
  assumes "validateStreamableSession c now j ver st = (r, st1)" and "known_as i d st"
  shows "known_as i d st1" and "r = Inr s \<Longrightarrow> j = i \<Longrightarrow> ident s = d"
proof -
  obtain f st2 where f: "find_session c now j ver st = (f, st2)" by fastforce
  note known = find_session_known [OF f assms(2)]
  show "known_as i d st1" "r = Inr s \<Longrightarrow> j = i \<Longrightarrow> ident s = d"
    using assms(1) [unfolded validateStreamableSession_def f] known
    by (auto simp: Let_def intro!: known_as_put known_as_save known_as_closeStreamable split: option.split_asm if_split_asm)
qed

lemma cleanup_one_known:
  "known_as i d st \<Longrightarrow> (fst e = i \<Longrightarrow> ident (snd e) = d) \<Longrightarrow> known_as i d (cleanup_one c reflects now e st)"
  by (cases e) (auto simp: cleanup_one_def Let_def intro!: known_as_put known_as_closeStreamable)

lemma fold_cleanup_known:
  "known_as i d st \<Longrightarrow> (\<forall>e\<in>set es. fst e = i \<longrightarrow> ident (snd e) = d) \<Longrightarrow> known_as i d (fold (cleanup_one c reflects now) es st)"
  by (induction es arbitrary: st) (auto intro: cleanup_one_known)

lemma fold_legacy_known: "known_as i d st \<Longrightarrow> known_as i d (fold (cleanup_legacy now) es st)"
  by (induction es arbitrary: st) (auto simp: cleanup_legacy_def closeLegacySseSession_def split: option.split)

section \<open>Runs\<close>

text \<open>
  The operations in any order; \<open>Restart\<close> is a restart of the process, which empties the maps, and
  \<open>Redis_link\<close> a change of the connection.
\<close>

datatype sess_op =
    Create int string bool "string option" "string list option" "string list option" "string option" "string option" "string option"
  | Validate int string "string option"
  | Close string bool
  | Rotate int string string
  | Sse string bool
  | Heartbeat string bool
  | Clean int "string \<Rightarrow> bool"
  | Restart
  | Redis_link bool

fun sess_exec :: "sess_cfg \<Rightarrow> sess_op \<Rightarrow> sess_state \<Rightarrow> sess_state" where
  "sess_exec c (Create now i a k g p w m v) st = createStreamableSessionWithId c now i a k g p w m v st"
| "sess_exec c (Validate now i ver) st = snd (validateStreamableSession c now i ver st)"
| "sess_exec c (Close i p) st = closeStreamableSession c i p st"
| "sess_exec c (Rotate now newId oldId) st = snd (rotateSession c now newId oldId st)"
| "sess_exec c (Sse i res) st = setSseResponse i res st"
| "sess_exec c (Heartbeat i ok) st = heartbeat c i ok st"
| "sess_exec c (Clean now reflects) st = cleanupExpiredSessions c reflects now st"
| "sess_exec c Restart st = st\<lparr>streamableSessions := [], legacySseSessions := []\<rparr>"
| "sess_exec c (Redis_link b) st = st\<lparr>session_redis := (session_redis st)\<lparr>up := b\<rparr>\<rparr>"

fun sess_run :: "sess_cfg \<Rightarrow> sess_op list \<Rightarrow> sess_state \<Rightarrow> sess_state" where
  "sess_run c [] st = st"
| "sess_run c (x # xs) st = sess_run c xs (sess_exec c x st)"

fun creates :: "sess_op \<Rightarrow> string option" where
  "creates (Create now i a k g p w m v) = Some i"
| "creates (Rotate now newId oldId) = Some newId"
| "creates _ = None"

definition maps_distinct :: "sess_state \<Rightarrow> bool" where
  "maps_distinct st \<longleftrightarrow> distinct (map fst (streamableSessions st))"

lemma rotate_known:
  assumes "known_as i d st" and "newId \<noteq> i"
  shows "known_as i d (snd (rotateSession c now newId oldId st))"
proof -
  have del: "known_as i d (st'\<lparr>session_redis := snd (deleteSession j (session_redis st'))\<rparr>)" if "known_as i d st'" for st' j
    using that by (simp add: known_as_def deleteSession_def redis_del_def store_simps)
  show ?thesis
    using assms by (auto simp: rotateSession_def Let_def
        intro!: known_as_create known_as_closeStreamable known_as_close del split: option.split)
qed

lemma exec_known:
  assumes "known_as i d st" and "creates x \<noteq> Some i" and "maps_distinct st"
  shows "known_as i d (sess_exec c x st)"
proof (cases x)
  case (Validate now j ver)
  then show ?thesis
    using validate_known(1) [OF _ assms(1), of c now j ver] by (cases "validateStreamableSession c now j ver st") simp
next
  case (Rotate now newId oldId)
  then show ?thesis using rotate_known assms(1,2) by simp
next
  case (Sse j res)
  then show ?thesis
    using assms(1) by (auto simp: setSseResponse_def known_as_def [of i d st] intro!: known_as_put [OF assms(1)] split: option.split)
next
  case (Heartbeat j ok)
  then show ?thesis
    using assms(1) known_as_def [of i d st]
    by (auto simp: heartbeat_def Let_def intro!: known_as_put [OF assms(1)] known_as_closeStreamable [OF assms(1)] split: option.split)
next
  case (Clean now reflects)
  have "ident (snd e) = d" if "e \<in> set (streamableSessions st)" "fst e = i" for e
  proof -
    from that assms(3) have "map_of (streamableSessions st) i = Some (snd e)"
      by (metis map_of_is_SomeI maps_distinct_def prod.collapse)
    then show ?thesis using assms(1) by (simp add: known_as_def)
  qed
  then show ?thesis
    using Clean assms(1) by (simp add: cleanupExpiredSessions_def Let_def fold_cleanup_known fold_legacy_known)
next
  case Restart
  then show ?thesis using assms(1) by (simp add: known_as_def)
next
  case (Redis_link b)
  then show ?thesis using assms(1) by (simp add: known_as_def)
qed (use assms in \<open>auto intro!: known_as_create known_as_closeStreamable\<close>)

lemma distinct_simps [simp]:
  "maps_distinct st \<Longrightarrow> maps_distinct (put_session i s st)"
  "maps_distinct (save_redis c now i s ttl st) = maps_distinct st"
  "maps_distinct (st\<lparr>reflected := r\<rparr>) = maps_distinct st"
  "maps_distinct (st\<lparr>session_redis := rd\<rparr>) = maps_distinct st"
  "maps_distinct (st\<lparr>legacySseSessions := l\<rparr>) = maps_distinct st"
  "maps_distinct st \<Longrightarrow> maps_distinct (close_session c i p st)"
  by (simp_all add: maps_distinct_def put_session_def save_redis_def close_session_def distinct_update distinct_delete Let_def)

lemma distinct_closeStreamable [simp]: "maps_distinct st \<Longrightarrow> maps_distinct (closeStreamableSession c i p st)"
  by (simp add: closeStreamableSession_def split: option.split)

lemma distinct_create [simp]:
  "maps_distinct st \<Longrightarrow> maps_distinct (createStreamableSessionWithId c now i a k g p w m v st)"
  by (simp add: createStreamableSessionWithId_def Let_def)

lemma distinct_find: "maps_distinct st \<Longrightarrow> maps_distinct (snd (find_session c now i ver st))"
  by (simp add: find_session_def Let_def split: option.split)

lemma distinct_validate: "maps_distinct st \<Longrightarrow> maps_distinct (snd (validateStreamableSession c now i ver st))"
  using distinct_find [of st c now i ver]
  by (cases "find_session c now i ver st") (simp add: validateStreamableSession_def Let_def split: option.split)

lemma distinct_cleanup:
  "maps_distinct st \<Longrightarrow> maps_distinct (fold (cleanup_one c reflects now) es st)"
  "maps_distinct st \<Longrightarrow> maps_distinct (fold (cleanup_legacy now) ls st)"
  by (induction es arbitrary: st, simp_all add: cleanup_one_def Let_def split: prod.split option.split)
    (induction ls arbitrary: st, simp_all add: cleanup_legacy_def closeLegacySseSession_def split: option.split)

lemma exec_distinct: "maps_distinct st \<Longrightarrow> maps_distinct (sess_exec c x st)"
proof (cases x)
  case (Clean now reflects)
  then show "maps_distinct st \<Longrightarrow> ?thesis" by (simp add: cleanupExpiredSessions_def Let_def distinct_cleanup)
qed (simp_all add: distinct_validate rotateSession_def setSseResponse_def heartbeat_def Let_def maps_distinct_def [of "_\<lparr>streamableSessions := []\<rparr>"]
    maps_distinct_def [of "_\<lparr>streamableSessions := [], legacySseSessions := []\<rparr>"] split: option.split)

lemma run_known:
  "known_as i d st \<Longrightarrow> maps_distinct st \<Longrightarrow> \<forall>x\<in>set xs. creates x \<noteq> Some i \<Longrightarrow> known_as i d (sess_run c xs st)"
  by (induction xs arbitrary: st) (auto simp: exec_known exec_distinct)

definition fresh_session :: "string \<Rightarrow> sess_state \<Rightarrow> bool" where
  "fresh_session i st \<longleftrightarrow>
     map_of (streamableSessions st) i = None \<and> map_of (data (session_redis st)) (getSessionKey i) = None"


definition sample_sess_cfg :: "bool \<Rightarrow> sess_cfg" where
  "sample_sess_cfg r =
     \<lparr>SESSION_TTL_MS = 60000, CACHE_SESSION_TTL = 60, S_REDIS_ENABLED = r, IDLE_REFLECT_HOURS = 1,
      SSE_MAX_HEARTBEAT_FAILURES = 3, SUPPORTED_PROTOCOL_VERSIONS = [''v1'', ''v2'']\<rparr>"

definition empty_sess :: sess_state where
  "empty_sess = \<lparr>streamableSessions = [], legacySseSessions = [], session_redis = empty_redis, reflected = []\<rparr>"

lemmas sess_defs = sample_sess_cfg_def empty_sess_def empty_redis_def createStreamableSessionWithId_def save_redis_def
  put_session_def persistable_def saveSession_def redis_setex_def validateStreamableSession_def find_session_def
  getSession_def redis_get_def restore_session_def Let_def


section \<open>Sliding expiry\<close>

lemma streamable_save [simp]: "streamableSessions (save_redis c now i s ttl st) = streamableSessions st"
  by (simp add: save_redis_def)

lemma map_of_put [simp]:
  "map_of (streamableSessions (put_session i s st)) j = (if j = i then Some s else map_of (streamableSessions st) j)"
  by (simp add: put_session_def store_simps)

lemma map_of_create [simp]:
  "\<exists>s. map_of (streamableSessions (createStreamableSessionWithId c now i a k g p w m v st)) i = Some s \<and>
       expiresAt s = now + SESSION_TTL_MS c \<and> ident s = (a, k, g, p, w, m)"
  by (simp add: createStreamableSessionWithId_def Let_def ident_def)

lemma map_of_create_other [simp]:
  "j \<noteq> i \<Longrightarrow> map_of (streamableSessions (createStreamableSessionWithId c now i a k g p w m v st)) j =
     map_of (streamableSessions st) j"
  by (simp add: createStreamableSessionWithId_def Let_def)

lemma map_of_close [simp]:
  "map_of (streamableSessions (close_session c i p st)) j = (if j = i then None else map_of (streamableSessions st) j)"
  by (simp add: close_session_def Let_def store_simps)

lemma map_of_closeStreamable [simp]:
  "map_of (streamableSessions (closeStreamableSession c i p st)) j = (if j = i then None else map_of (streamableSessions st) j)"
  by (simp add: closeStreamableSession_def split: option.split)

lemma validate_in_memory:
  assumes "map_of (streamableSessions st) i = Some s"
  shows "fst (validateStreamableSession c t i ver st) =
           (if t > expiresAt s then Inl ''Session expired''
            else Inr (s\<lparr>lastAccessedAt := t, expiresAt := t + SESSION_TTL_MS c\<rparr>))"
    and "t \<le> expiresAt s \<Longrightarrow> map_of (streamableSessions (snd (validateStreamableSession c t i ver st))) i =
           Some (s\<lparr>lastAccessedAt := t, expiresAt := t + SESSION_TTL_MS c\<rparr>)"
  using assms by (simp_all add: validateStreamableSession_def find_session_def Let_def)

fun all_valid :: "sess_cfg \<Rightarrow> string \<Rightarrow> int list \<Rightarrow> sess_state \<Rightarrow> bool" where
  "all_valid c i [] st = True"
| "all_valid c i (t # ts) st =
     (case validateStreamableSession c t i None st of
        (Inl _, st') \<Rightarrow> False
      | (Inr _, st') \<Rightarrow> all_valid c i ts st')"

fun in_time :: "int \<Rightarrow> int \<Rightarrow> int list \<Rightarrow> bool" where
  "in_time ttl seen [] = True"
| "in_time ttl seen (t # ts) = (t \<le> seen + ttl \<and> in_time ttl t ts)"

lemma all_valid_iff:
  assumes "map_of (streamableSessions st) i = Some s"
  shows "all_valid c i ts st \<longleftrightarrow> (case ts of [] \<Rightarrow> True | t # ts' \<Rightarrow> t \<le> expiresAt s \<and> in_time (SESSION_TTL_MS c) t ts')"
  using assms
proof (induction ts arbitrary: st s)
  case (Cons t ts)
  note v = validate_in_memory [OF Cons.prems, where c = c and t = t and ver = None]
  obtain r st' where r: "validateStreamableSession c t i None st = (r, st')" by fastforce
  show ?case
  proof (cases "t \<le> expiresAt s")
    case True
    with v r have "map_of (streamableSessions st') i = Some (s\<lparr>lastAccessedAt := t, expiresAt := t + SESSION_TTL_MS c\<rparr>)"
      "\<exists>x. r = Inr x" by simp_all
    with Cons.IH [OF this(1)] True r show ?thesis by (cases ts) auto
  next
    case False
    with v(1) r have "r = Inl ''Session expired''" by simp
    with False r show ?thesis by simp
  qed
qed simp

lemma cleanup_one_other [simp]:
  "j \<noteq> fst e \<Longrightarrow> map_of (streamableSessions (cleanup_one c reflects now e st)) j = map_of (streamableSessions st) j"
  by (cases e) (simp add: cleanup_one_def Let_def split: option.split)

lemma fold_cleanup_other:
  "j \<notin> fst ` set es \<Longrightarrow> map_of (streamableSessions (fold (cleanup_one c reflects now) es st)) j = map_of (streamableSessions st) j"
  by (induction es arbitrary: st) auto

lemma legacy_streamable [simp]: "streamableSessions (fold (cleanup_legacy now) ls st) = streamableSessions st"
  by (induction ls arbitrary: st) (auto simp: cleanup_legacy_def closeLegacySseSession_def split: option.split)

lemma fold_cleanup_mem:
  assumes "distinct (map fst es)" and "(i, s) \<in> set es" and "map_of (streamableSessions st) i = Some s"
  shows "map_of (streamableSessions (fold (cleanup_one c reflects now) es st)) i = None \<longleftrightarrow> now > expiresAt s"
  using assms
proof (induction es arbitrary: st)
  case (Cons e es)
  show ?case
  proof (cases "e = (i, s)")
    case True
    with Cons.prems(1) have "i \<notin> fst ` set es" by auto
    moreover have "map_of (streamableSessions (cleanup_one c reflects now (i, s) st)) i = None \<longleftrightarrow> now > expiresAt s"
      using Cons.prems(3) by (simp add: cleanup_one_def Let_def)
    ultimately show ?thesis using True by (simp add: fold_cleanup_other)
  next
    case False
    with Cons.prems(1,2) have "i \<noteq> fst e" "(i, s) \<in> set es" by (auto simp: rev_image_eqI)
    then show ?thesis using Cons by simp
  qed
qed simp

text \<open>
  Expiry slides: a session answers a sequence of requests, in either mode, exactly when none of
  them comes more than \<open>SESSION_TTL_MS\<close> after the one before (the first, after the creation), so a
  session in use never expires; and the periodic cleaning removes from memory exactly the sessions
  that a request at that moment would find expired.
\<close>

theorem session_expiry_slides:
  assumes "maps_distinct st"
  shows "(all_valid c i ts (createStreamableSessionWithId c now i auth key groups perms ws mode v st)
            \<longleftrightarrow> in_time (SESSION_TTL_MS c) now ts) \<and>
         (\<forall>j s. map_of (streamableSessions st) j = Some s \<longrightarrow>
            (map_of (streamableSessions (cleanupExpiredSessions c reflects t st)) j = None \<longleftrightarrow>
             fst (validateStreamableSession c t j ver st) = Inl ''Session expired''))"
proof (intro conjI allI impI)
  obtain s where s: "map_of (streamableSessions (createStreamableSessionWithId c now i auth key groups perms ws mode v st)) i = Some s"
    "expiresAt s = now + SESSION_TTL_MS c"
    using map_of_create by blast
  show "all_valid c i ts (createStreamableSessionWithId c now i auth key groups perms ws mode v st) \<longleftrightarrow> in_time (SESSION_TTL_MS c) now ts"
    unfolding all_valid_iff [OF s(1)] s(2) by (cases ts) auto
next
  fix j s assume s: "map_of (streamableSessions st) j = Some s"
  have "map_of (streamableSessions (cleanupExpiredSessions c reflects t st)) j = None \<longleftrightarrow> t > expiresAt s"
    unfolding cleanupExpiredSessions_def Let_def legacy_streamable
    by (rule fold_cleanup_mem [OF assms [unfolded maps_distinct_def] map_of_SomeD [OF s] s])
  then show "map_of (streamableSessions (cleanupExpiredSessions c reflects t st)) j = None \<longleftrightarrow>
      fst (validateStreamableSession c t j ver st) = Inl ''Session expired''"
    using validate_in_memory(1) [OF s, where c = c and t = t and ver = ver] by simp
qed

theorem session_expiry_slides_witness:
  "all_valid (sample_sess_cfg False) ''i'' [60000, 120000]
     (createStreamableSessionWithId (sample_sess_cfg False) 0 ''i'' True None None None None None None empty_sess) \<and>
   \<not> all_valid (sample_sess_cfg False) ''i'' [60000, 120001]
     (createStreamableSessionWithId (sample_sess_cfg False) 0 ''i'' True None None None None None None empty_sess)"
proof -
  have "maps_distinct empty_sess" by (simp add: maps_distinct_def empty_sess_def)
  note slides = session_expiry_slides [OF this, THEN conjunct1]
  show ?thesis unfolding slides by (simp add: sample_sess_cfg_def)
qed

section \<open>Rotation\<close>

text \<open>
  Rotation moves the session: with a working store and a new random id, a successful rotation makes
  the old id unknown at every later validation, from memory and from Redis, gives the new id the same
  authentication context with a full life time, and leaves every other session alone.
\<close>

theorem rotation_moves_session:
  assumes "rotateSession c now newId oldId st = (Inr r, st')" and "newId \<noteq> oldId"
    and "S_REDIS_ENABLED c \<longrightarrow> up (session_redis st)"
  shows "\<exists>e s. (map_of (streamableSessions st) oldId = Some e \<or>
                map_of (streamableSessions st) oldId = None \<and> S_REDIS_ENABLED c \<and> getSession now oldId (session_redis st) = Some e) \<and>
           now \<le> expiresAt e \<and>
           map_of (streamableSessions st') newId = Some s \<and> ident s = ident e \<and> expiresAt s = now + SESSION_TTL_MS c \<and>
           r = (oldId, newId, expiresAt s, s_keyId e, s_defaultWorkspace e) \<and>
           (\<forall>t ver. fst (validateStreamableSession c t oldId ver st') = Inl ''Session not found'') \<and>
           (\<forall>j. j \<notin> {oldId, newId} \<longrightarrow> map_of (streamableSessions st') j = map_of (streamableSessions st) j \<and>
                 map_of (data (session_redis st')) (getSessionKey j) = map_of (data (session_redis st)) (getSessionKey j))"
proof -
  from assms(1) obtain e where e: "map_of (streamableSessions st) oldId = Some e \<or>
      map_of (streamableSessions st) oldId = None \<and> S_REDIS_ENABLED c \<and> getSession now oldId (session_redis st) = Some e"
    "now \<le> expiresAt e"
    by (auto simp: rotateSession_def Let_def split: option.split_asm if_split_asm)
  let ?st1 = "createStreamableSessionWithId c now newId (authenticated e) (s_keyId e) (s_groupKeyIds e)
                (s_permissions e) (s_defaultWorkspace e) (s_mode e) None st"
  let ?st2 = "if map_of (streamableSessions ?st1) oldId \<noteq> None then close_session c oldId False ?st1
              else if S_REDIS_ENABLED c then ?st1\<lparr>session_redis := snd (deleteSession oldId (session_redis ?st1))\<rparr> else ?st1"
  obtain s where s: "map_of (streamableSessions ?st1) newId = Some s" "expiresAt s = now + SESSION_TTL_MS c" "ident s = ident e"
    using map_of_create by (metis ident_def)
  have rr: "r = (oldId, newId, expiresAt s, s_keyId e, s_defaultWorkspace e) \<and> st' = ?st2"
    using assms(1,2) e s(1) by (auto simp: rotateSession_def Let_def split: option.split_asm if_split_asm)
  have mem: "map_of (streamableSessions ?st2) j = (if j = oldId then None else if j = newId then Some s else map_of (streamableSessions st) j)" for j
    using s(1) assms(2) by auto
  have dat: "map_of (data (session_redis ?st2)) (getSessionKey j) =
      (if S_REDIS_ENABLED c \<and> j = oldId then None else map_of (data (session_redis ?st1)) (getSessionKey j))" for j
  proof (cases "S_REDIS_ENABLED c")
    case True
    with assms(3) have "up (session_redis ?st1)"
      by (simp add: createStreamableSessionWithId_def save_redis_def saveSession_def put_session_def Let_def)
    with True show ?thesis
      by (simp add: close_session_def deleteSession_def redis_del_def store_simps Let_def)
  qed (simp add: close_session_def Let_def)
  have other: "map_of (data (session_redis ?st1)) (getSessionKey j) = map_of (data (session_redis st)) (getSessionKey j)"
    if "j \<noteq> newId" for j
    using that by (simp add: createStreamableSessionWithId_def save_redis_def saveSession_def redis_setex_def put_session_def
        store_simps Let_def)
  have "fst (validateStreamableSession c t oldId ver st') = Inl ''Session not found''" for t ver
    using rr mem [of oldId] dat [of oldId]
    by (simp add: validateStreamableSession_def find_session_def getSession_def redis_get_def)
  with e s rr mem dat other assms(2) show ?thesis by (intro exI [of _ e] exI [of _ s]) auto
qed

theorem rotation_moves_session_witness:
  "\<exists>r st'. rotateSession (sample_sess_cfg True) 7 ''new'' ''i''
       (createStreamableSessionWithId (sample_sess_cfg True) 0 ''i'' True (Some ''k1'') None None None None None empty_sess) =
       (Inr r, st') \<and>
     fst (validateStreamableSession (sample_sess_cfg True) 8 ''i'' None st') = Inl ''Session not found''"
proof -
  let ?st = "createStreamableSessionWithId (sample_sess_cfg True) 0 ''i'' True (Some ''k1'') None None None None None empty_sess"
  have "\<exists>r st'. rotateSession (sample_sess_cfg True) 7 ''new'' ''i'' ?st = (Inr r, st')"
    by (simp add: rotateSession_def sess_defs split: option.split)
  moreover have "up (session_redis ?st)" by (simp add: sess_defs)
  ultimately show ?thesis
    using rotation_moves_session [of "sample_sess_cfg True" 7 "''new''" "''i''" ?st] by fastforce
qed

end
