(* ===== verification/Rpc.thy ===== *)
theory Rpc
  imports Prelude
begin

text \<open>
  The path of a tool call: \<open>lib/rbac.js\<close> (permissions of tools), \<open>lib/memory/ModeRegistry.js\<close> (mode
  presets), \<open>injectSessionContext\<close> and \<open>_resolveMode\<close> of \<open>lib/handlers/mcp-handler.js\<close>, and the
  dispatcher of \<open>lib/jsonrpc.js\<close>.

  A property lookup \<open>obj[name]\<close> on an object literal also finds the names of \<open>Object.prototype\<close>;
  \<open>lookup\<close> says which of the three cases occurs.  The handlers of the tools are a parameter; the
  model records which handler ran with which arguments.
\<close>

section \<open>Values and lookups\<close>

datatype jv = JUndef | JNull | JBool bool | JNum int | JStr string | JArr "jv list" | JObj "(string \<times> jv) list"

datatype 'v lookup = Own 'v | Inherited | Missing

definition object_prototype :: "string list" where
  "object_prototype =
     [''constructor'', ''__defineGetter__'', ''__defineSetter__'', ''hasOwnProperty'', ''__lookupGetter__'',
      ''__lookupSetter__'', ''isPrototypeOf'', ''propertyIsEnumerable'', ''toString'', ''valueOf'', ''__proto__'',
      ''toLocaleString'']"

definition lookup :: "(string \<times> 'v) list \<Rightarrow> string \<Rightarrow> 'v lookup" where
  "lookup table k =
     (case map_of table k of
        Some v \<Rightarrow> Own v
      | None \<Rightarrow> if k \<in> set object_prototype then Inherited else Missing)"

section \<open>Permissions\<close>

definition TOOL_PERMISSIONS :: "(string \<times> string) list" where
  "TOOL_PERMISSIONS =
     [(''remember'', ''write''), (''batch_remember'', ''write''), (''batch_status'', ''read''), (''recall'', ''read''),
      (''forget'', ''write''), (''link'', ''write''), (''amend'', ''write''), (''reflect'', ''write''),
      (''context'', ''read''), (''tool_feedback'', ''write''), (''memory_stats'', ''read''),
      (''memory_consolidate'', ''admin''), (''graph_explore'', ''read''), (''fragment_history'', ''read''),
      (''reconstruct_history'', ''read''), (''search_traces'', ''read''), (''get_skill_guide'', ''read''),
      (''check_update'', ''admin''), (''apply_update'', ''admin''), (''session_rotate'', ''read'')]"

text \<open>
  The permissions are \<open>null\<close> or an array when the server set them; the stdio transport passes on what
  the client sent, so the methods are applied to whatever value there is: \<open>includes\<close> of a string is a
  substring test, and \<open>None\<close> where it is no method of the value.
\<close>

definition js_falsy :: "jv \<Rightarrow> bool" where
  "js_falsy v \<longleftrightarrow> v \<in> {JUndef, JNull, JBool False, JNum 0, JStr []}"

definition js_includes :: "jv \<Rightarrow> string \<Rightarrow> bool option" where
  "js_includes v x =
     (case v of JArr xs \<Rightarrow> Some (JStr x \<in> set xs) | JStr s \<Rightarrow> Some (contains x s) | _ \<Rightarrow> None)"

datatype permission = Allowed | Unknown_tool | Requires string | Throws

definition checkPermission :: "jv \<Rightarrow> string \<Rightarrow> permission" where
  "checkPermission permissions toolName =
     (case lookup TOOL_PERMISSIONS toolName of
        Missing \<Rightarrow> Unknown_tool
      | Inherited \<Rightarrow>
          if js_falsy permissions then Allowed
          else (case js_includes permissions ''admin'' of
                  None \<Rightarrow> Throws | Some b \<Rightarrow> if b then Allowed else Requires ''[inherited]'')
      | Own required \<Rightarrow>
          if js_falsy permissions then Allowed
          else case js_includes permissions required of
            None \<Rightarrow> Throws
          | Some True \<Rightarrow> Allowed
          | Some False \<Rightarrow> if js_includes permissions ''admin'' = Some True then Allowed else Requires required)"

text \<open>The registry: every tool with its metadata (the handlers are a parameter of the dispatcher).\<close>

record tool_meta =
  capabilities :: "string list"
  riskLevel :: string
  requires_master :: bool
  beta :: bool
  idempotent :: bool

definition TOOL_REGISTRY :: "(string \<times> tool_meta) list" where
  "TOOL_REGISTRY =
     [(''remember'', tool_meta.make [''memory:write''] ''caution'' False False False),
      (''batch_remember'', tool_meta.make [''memory:write''] ''caution'' False False False),
      (''batch_status'', tool_meta.make [''memory:read''] ''safe'' False False True),
      (''recall'', tool_meta.make [''memory:read''] ''safe'' False False True),
      (''forget'', tool_meta.make [''memory:destructive''] ''destructive'' False False False),
      (''link'', tool_meta.make [''memory:write''] ''caution'' False False False),
      (''amend'', tool_meta.make [''memory:write''] ''caution'' False False False),
      (''reflect'', tool_meta.make [''memory:write''] ''caution'' False False False),
      (''context'', tool_meta.make [''memory:read''] ''safe'' False False True),
      (''tool_feedback'', tool_meta.make [''memory:write''] ''caution'' False False False),
      (''memory_stats'', tool_meta.make [''analytics:read''] ''safe'' False False True),
      (''memory_consolidate'', tool_meta.make [''memory:destructive'', ''admin''] ''destructive'' True False False),
      (''graph_explore'', tool_meta.make [''memory:read''] ''safe'' False False True),
      (''fragment_history'', tool_meta.make [''memory:read''] ''safe'' False False True),
      (''get_skill_guide'', tool_meta.make [''memory:read''] ''safe'' False False True),
      (''reconstruct_history'', tool_meta.make [''memory:read''] ''safe'' False False True),
      (''search_traces'', tool_meta.make [''memory:read''] ''safe'' False False True),
      (''session_rotate'', tool_meta.make [''session:write''] ''caution'' False False False),
      (''check_update'', tool_meta.make [''admin''] ''safe'' False False True),
      (''apply_update'', tool_meta.make [''admin''] ''caution'' True False False)]"

definition TOOL_NAMES :: "string list" where
  "TOOL_NAMES = map fst TOOL_REGISTRY"

section \<open>Mode presets\<close>

record preset =
  p_name :: string
  excluded_tools :: "string list"
  fixed_tools :: "string list"
  skill_guide_override :: "string option"
  requiresMaster :: bool

text \<open>What the parser made of one file of \<open>modes/\<close>: nothing, when it threw.\<close>

record raw_preset =
  rp_name :: jv
  rp_excluded :: jv
  rp_fixed :: jv
  rp_override :: jv
  rp_master :: jv

fun js_strings :: "jv list \<Rightarrow> string list" where
  "js_strings [] = []"
| "js_strings (JStr s # xs) = s # js_strings xs"
| "js_strings (_ # xs) = js_strings xs"

definition array_or_empty :: "jv \<Rightarrow> string list" where
  "array_or_empty v = (case v of JArr xs \<Rightarrow> js_strings xs | _ \<Rightarrow> [])"

fun load_presets :: "raw_preset option list \<Rightarrow> (string, preset) jsmap \<Rightarrow> (string, preset) jsmap" where
  "load_presets [] m = m"
| "load_presets (None # fs) m = load_presets fs m"
| "load_presets (Some r # fs) m =
     (case rp_name r of
        JStr n \<Rightarrow>
          if n = [] then load_presets fs m
          else load_presets fs (AList.update n
                 \<lparr>p_name = n, excluded_tools = array_or_empty (rp_excluded r), fixed_tools = array_or_empty (rp_fixed r),
                  skill_guide_override = (case rp_override r of JStr s \<Rightarrow> Some s | _ \<Rightarrow> None),
                  requiresMaster = (rp_master r = JBool True)\<rparr> m)
      | _ \<Rightarrow> load_presets fs m)"

type_synonym presets = "(string, preset) jsmap"

definition getPreset :: "presets \<Rightarrow> string \<Rightarrow> preset option" where
  "getPreset ps n = map_of ps n"

definition listPresets :: "presets \<Rightarrow> string list" where
  "listPresets ps = map fst ps"

definition filterTools :: "presets \<Rightarrow> string list \<Rightarrow> string option \<Rightarrow> bool \<Rightarrow> string list" where
  "filterTools ps tools presetName isMaster =
     (if \<not> truthy presetName then tools
      else case map_of ps (the presetName) of
        None \<Rightarrow> tools
      | Some p \<Rightarrow>
          if requiresMaster p \<and> \<not> isMaster then tools
          else if excluded_tools p = [] then tools
          else filter (\<lambda>t. t \<notin> set (excluded_tools p)) tools)"

definition getSkillGuideOverride :: "presets \<Rightarrow> string option \<Rightarrow> bool \<Rightarrow> string option" where
  "getSkillGuideOverride ps presetName isMaster =
     (if \<not> truthy presetName then None
      else case map_of ps (the presetName) of
        None \<Rightarrow> None
      | Some p \<Rightarrow> if requiresMaster p \<and> \<not> isMaster then None else skill_guide_override p)"

text \<open>Header, then the parameter of an initialize request, then the default of the key.\<close>

definition resolveMode :: "presets \<Rightarrow> string option \<Rightarrow> string option \<Rightarrow> string option \<Rightarrow> string option" where
  "resolveMode ps headerMode initMode dbDefault =
     (let known = (\<lambda>m. if getPreset ps (the m) \<noteq> None then m else None)
      in if truthy headerMode then known headerMode
         else if truthy initMode then known initMode
         else if truthy dbDefault then known dbDefault
         else None)"

definition tools_definition :: "string option \<Rightarrow> string list" where
  "tools_definition keyId =
     [''remember'', ''recall'', ''context'', ''batch_remember'', ''forget'', ''link'', ''amend'', ''reflect'',
      ''tool_feedback'', ''memory_stats'', ''memory_consolidate'', ''graph_explore'', ''fragment_history'',
      ''get_skill_guide'', ''reconstruct_history'', ''search_traces'', ''session_rotate'', ''batch_status''] @
     (if keyId = None then [''check_update'', ''apply_update''] else [])"

section \<open>The context of the session\<close>

type_synonym jobj = "(string, jv) jsmap"

text \<open>
  The \<open>arguments\<close> of a call: falsy (absent), an object (an array is the object of its indices), or a
  truthy primitive, on which the assignments throw.
\<close>

datatype call_args = NoArgs | ArgObj jobj | ArgPrimitive

record tool_ctx =
  x_sessionId :: jv
  x_keyId :: "string option"
  x_groupKeyIds :: "string list option"
  x_permissions :: "string list option"
  x_workspace :: "string option"
  x_mode :: "string option"
  x_clientIp :: "string option"
  x_userAgent :: "string option"

definition js_str :: "string option \<Rightarrow> jv" where
  "js_str x = (case x of None \<Rightarrow> JNull | Some s \<Rightarrow> JStr s)"

definition js_list :: "string list option \<Rightarrow> jv" where
  "js_list x = (case x of None \<Rightarrow> JNull | Some xs \<Rightarrow> JArr (map JStr xs))"

definition internal_fields :: "string list" where
  "internal_fields =
     [''_keyId'', ''_groupKeyIds'', ''_sessionId'', ''_permissions'', ''_defaultWorkspace'', ''_mode'',
      ''_clientIp'', ''_userAgent'']"

definition context_fields :: "tool_ctx \<Rightarrow> (string \<times> jv) list" where
  "context_fields x =
     [(''_sessionId'', x_sessionId x), (''_keyId'', js_str (x_keyId x)), (''_groupKeyIds'', js_list (x_groupKeyIds x)),
      (''_permissions'', js_list (x_permissions x)), (''_defaultWorkspace'', js_str (x_workspace x)),
      (''_mode'', js_str (x_mode x)), (''_clientIp'', JStr (nullish_to (x_clientIp x) ''unknown'')),
      (''_userAgent'', JStr (nullish_to (x_userAgent x) ''unknown''))]"

definition inject_args :: "tool_ctx \<Rightarrow> jobj \<Rightarrow> jobj" where
  "inject_args x args = fold (\<lambda>(k, v). AList.update k v) (context_fields x) (fold AList.delete internal_fields args)"

record rpc_msg =
  rpc_version :: "string option"
  rpc_id :: "jv option"
  rpc_method :: jv
  rpc_tool :: jv
  rpc_args :: call_args

definition injectSessionContext :: "tool_ctx \<Rightarrow> rpc_msg \<Rightarrow> rpc_msg option" where
  "injectSessionContext x msg =
     (if rpc_method msg \<noteq> JStr ''tools/call'' then Some msg
      else case rpc_args msg of
        NoArgs \<Rightarrow> Some (msg\<lparr>rpc_args := ArgObj (inject_args x [])\<rparr>)
      | ArgObj a \<Rightarrow> Some (msg\<lparr>rpc_args := ArgObj (inject_args x a)\<rparr>)
      | ArgPrimitive \<Rightarrow> None)"

section \<open>Dispatch\<close>

datatype err_code = NumCode int | StrCode string

datatype rpc_exn = Exn "err_code option" string | PolicyViolation string "string list" "string option"

datatype call_result = CallOk jv bool | Result jv

text \<open>
  \<open>handleToolsCall\<close>: the second component is the call of a handler, if one was made.  A tool result
  is an error for the client when it says so in one of three ways.  A primitive in the place of the
  arguments has none of the properties that are read.
\<close>

definition obj_get :: "jv \<Rightarrow> string \<Rightarrow> jv" where
  "obj_get v k = (case v of JObj m \<Rightarrow> nullish_to (map_of m k) JUndef | _ \<Rightarrow> JUndef)"

definition is_tool_error :: "jv \<Rightarrow> bool" where
  "is_tool_error r \<longleftrightarrow>
     obj_get r ''isError'' = JBool True \<or> obj_get r ''success'' = JBool False \<or>
     (obj_get r ''error'' \<noteq> JUndef \<and> obj_get r ''error'' \<noteq> JNull)"

definition quoted :: "string \<Rightarrow> string" where
  "quoted s = CHR 0x27 # s @ [CHR 0x27]"

definition permission_denied :: "string \<Rightarrow> string \<Rightarrow> rpc_exn" where
  "permission_denied name required =
     Exn (Some (NumCode (-32600)))
       (''Permission denied: '' @ quoted name @ '' requires '' @ quoted required @ '' permission'')"

type_synonym handlers = "string \<Rightarrow> jobj \<Rightarrow> rpc_exn + jv"

definition handleToolsCall ::
  "handlers \<Rightarrow> jv \<Rightarrow> call_args \<Rightarrow> (rpc_exn + call_result) \<times> (string \<times> jobj) option" where
  "handleToolsCall run tool args =
     (case tool of
        JStr name \<Rightarrow>
          let a = (case args of ArgObj m \<Rightarrow> m | _ \<Rightarrow> [])
          in if name \<notin> set TOOL_NAMES
             then (Inl (Exn (Some (NumCode (-32601))) (''Unknown tool: '' @ name)), None)
             else (case checkPermission (case nullish_to (map_of a ''_permissions'') JUndef of JUndef \<Rightarrow> JNull | v \<Rightarrow> v) name of
                     Allowed \<Rightarrow>
                       (case run name a of
                          Inl e \<Rightarrow> (Inl e, Some (name, a))
                        | Inr r \<Rightarrow> (Inr (CallOk r (is_tool_error r)), Some (name, a)))
                   | Unknown_tool \<Rightarrow> (Inl (permission_denied name ''undefined''), None)
                   | Requires p \<Rightarrow> (Inl (permission_denied name p), None)
                   | Throws \<Rightarrow> (Inl (Exn None ''permissions.includes is not a function''), None))
      | _ \<Rightarrow> (Inl (Exn None ''Tool name is required''), None))"

datatype rpc_response =
    Accepted
  | ErrorKind jv int string
  | Reply jv call_result
  | Failure jv err_code string
  | PolicyFailure jv string "string list" "string option"

definition method_names :: "string list" where
  "method_names =
     [''initialize'', ''tools/list'', ''tools/call'', ''prompts/list'', ''prompts/get'', ''resources/list'',
      ''resources/read'']"

text \<open>
  The other methods are the parameter \<open>other\<close>.  A method name that only \<open>Object.prototype\<close> has is
  found too: \<open>inherited\<close> is what calling that function gives.
\<close>

definition run_method ::
  "handlers \<Rightarrow> (string \<Rightarrow> rpc_exn + jv) \<Rightarrow> (string \<Rightarrow> rpc_exn + jv) \<Rightarrow> string \<Rightarrow> rpc_msg
     \<Rightarrow> ((rpc_exn + call_result) option) \<times> (string \<times> jobj) option" where
  "run_method run other inherited method msg =
     (if method = ''tools/call''
      then (case handleToolsCall run (rpc_tool msg) (rpc_args msg) of (r, c) \<Rightarrow> (Some r, c))
      else if method \<in> set method_names
      then (Some (case other method of Inl e \<Rightarrow> Inl e | Inr v \<Rightarrow> Inr (Result v)), None)
      else if method \<in> set object_prototype
      then (Some (case inherited method of Inl e \<Rightarrow> Inl e | Inr v \<Rightarrow> Inr (Result v)), None)
      else (None, None))"

definition exn_response :: "jv \<Rightarrow> rpc_exn \<Rightarrow> rpc_response" where
  "exn_response i e =
     (case e of
        PolicyViolation m vs ft \<Rightarrow> PolicyFailure i m vs ft
      | Exn c m \<Rightarrow>
          let code = (case c of None \<Rightarrow> NumCode (-32603)
                      | Some x \<Rightarrow> if x \<in> {NumCode 0, StrCode []} then NumCode (-32603) else x)
          in Failure i code (if code \<in> {NumCode (-32601), NumCode (-32602)} then m else ''Internal error''))"

definition dispatchJsonRpc ::
  "handlers \<Rightarrow> (string \<Rightarrow> rpc_exn + jv) \<Rightarrow> (string \<Rightarrow> rpc_exn + jv) \<Rightarrow> rpc_msg option
     \<Rightarrow> rpc_response \<times> (string \<times> jobj) option" where
  "dispatchJsonRpc run other inherited m =
     (case m of
        None \<Rightarrow> (ErrorKind JNull (-32600) ''Invalid Request'', None)
      | Some msg \<Rightarrow>
          let i = nullish_to (rpc_id msg) JNull; notification = (rpc_id msg = None)
          in if the (js_or (rpc_version msg) (Some ''2.0'')) \<noteq> ''2.0''
             then (ErrorKind i (-32600) ''Invalid Request'', None)
             else case rpc_method msg of
               JStr method \<Rightarrow>
                 if method = ''notifications/initialized'' then (Accepted, None)
                 else (case run_method run other inherited method msg of
                         (None, c) \<Rightarrow>
                           (if notification then Accepted
                            else Failure i (NumCode (-32601)) (''Method not found: '' @ method), c)
                       | (Some (Inr r), c) \<Rightarrow> (if notification then Accepted else Reply i r, c)
                       | (Some (Inl e), c) \<Rightarrow> (if notification then Accepted else exn_response i e, c))
             | _ \<Rightarrow> (ErrorKind i (-32600) ''Invalid Request'', None))"

section \<open>Confinement of tool calls\<close>

lemma TOOL_NAMES_listed: "t \<in> set TOOL_NAMES \<Longrightarrow> map_of TOOL_PERMISSIONS t \<noteq> None"
proof -
  have "list_all (\<lambda>t. map_of TOOL_PERMISSIONS t \<noteq> None) TOOL_NAMES"
    by (simp add: TOOL_NAMES_def TOOL_REGISTRY_def TOOL_PERMISSIONS_def)
  then show "t \<in> set TOOL_NAMES \<Longrightarrow> map_of TOOL_PERMISSIONS t \<noteq> None" by (simp add: list_all_iff)
qed

definition permitted :: "string list option \<Rightarrow> string \<Rightarrow> bool" where
  "permitted ps t \<longleftrightarrow>
     (\<exists>r. map_of TOOL_PERMISSIONS t = Some r \<and> (ps = None \<or> (\<exists>p\<in>set (the ps). p = r \<or> p = ''admin'')))"

lemma checkPermission_listed:
  assumes "map_of TOOL_PERMISSIONS t \<noteq> None"
  shows "checkPermission (js_list ps) t = Allowed \<longleftrightarrow> permitted ps t"
    and "checkPermission (js_list ps) t \<noteq> Throws"
  using assms
  by (cases ps; auto simp: checkPermission_def lookup_def permitted_def js_list_def js_falsy_def js_includes_def
      split: option.splits bool.splits)+

lemma map_of_fold_update:
  "distinct (map fst fs) \<Longrightarrow> map_of (fold (\<lambda>(k, v). AList.update k v) fs m) k =
     (case map_of fs k of Some v \<Rightarrow> Some v | None \<Rightarrow> map_of m k)"
proof (induction fs arbitrary: m)
  case (Cons e fs)
  obtain a b where e: "e = (a, b)" by fastforce
  with Cons.prems have "map_of fs a = None" by (simp add: map_of_eq_None_iff)
  with Cons e show ?case by (simp add: store_simps split: option.split)
qed simp

lemma map_of_inject:
  "map_of (inject_args x args) k =
     (if k \<in> set internal_fields then map_of (context_fields x) k else map_of args k)"
proof -
  have "distinct (map fst (context_fields x))" "set (map fst (context_fields x)) = set internal_fields"
    by (auto simp: context_fields_def internal_fields_def)
  moreover have "map_of (context_fields x) k = None \<longleftrightarrow> k \<notin> set (map fst (context_fields x))"
    by (simp add: map_of_eq_None_iff)
  ultimately show ?thesis
    by (auto simp: inject_args_def map_of_fold_update js_map.get_fold_del split: option.split)
qed

lemma injected_permissions: "map_of (inject_args x args) ''_permissions'' = Some (js_list (x_permissions x))"
  by (simp add: map_of_inject internal_fields_def context_fields_def)

lemma js_list_not_undef: "(case js_list ps of JUndef \<Rightarrow> JNull | v \<Rightarrow> v) = js_list ps"
  by (simp add: js_list_def split: option.split)

lemma handleToolsCall_injected:
  "handleToolsCall run (JStr t) (ArgObj (inject_args x a)) =
     (if t \<notin> set TOOL_NAMES then (Inl (Exn (Some (NumCode (-32601))) (''Unknown tool: '' @ t)), None)
      else if permitted (x_permissions x) t
      then (case run t (inject_args x a) of
              Inl e \<Rightarrow> (Inl e, Some (t, inject_args x a))
            | Inr r \<Rightarrow> (Inr (CallOk r (is_tool_error r)), Some (t, inject_args x a)))
      else (Inl (case checkPermission (js_list (x_permissions x)) t of
                   Requires p \<Rightarrow> permission_denied t p | _ \<Rightarrow> permission_denied t ''undefined''), None))"
proof (cases "t \<in> set TOOL_NAMES")
  case True
  note checkPermission_listed [OF TOOL_NAMES_listed [OF True], of "x_permissions x"]
  with True show ?thesis
    by (cases "checkPermission (js_list (x_permissions x)) t")
      (simp_all add: handleToolsCall_def injected_permissions js_list_not_undef Let_def)
qed (simp add: handleToolsCall_def)

definition client_args :: "rpc_msg \<Rightarrow> jobj" where
  "client_args msg = (case rpc_args msg of ArgObj a \<Rightarrow> a | _ \<Rightarrow> [])"

text \<open>
  C28. Tool calls are confined to the session: after \<open>injectSessionContext\<close> the dispatcher runs a tool
  exactly when the call is well formed, the tool is registered and the permissions of the session
  (whatever the client wrote into its arguments) allow it, it runs that tool once, and the
  arguments are those of the client except that every internal field is the one of the session.
\<close>

theorem tool_calls_confined:
  assumes "rpc_method msg = JStr ''tools/call''" and "injectSessionContext x msg = Some msg'"
  shows "snd (dispatchJsonRpc run other inherited (Some msg')) = Some (t, args) \<longleftrightarrow>
           the (js_or (rpc_version msg) (Some ''2.0'')) = ''2.0'' \<and> rpc_tool msg = JStr t \<and> t \<in> set TOOL_NAMES \<and>
           permitted (x_permissions x) t \<and> args = inject_args x (client_args msg)"
    (is "?run \<longleftrightarrow> ?ok")
proof -
  have m: "msg' = msg\<lparr>rpc_args := ArgObj (inject_args x (client_args msg))\<rparr>"
    using assms by (auto simp: injectSessionContext_def client_args_def split: call_args.split_asm)
  show ?thesis
  proof (cases "rpc_tool msg")
    case (JStr n)
    then show ?thesis
      using assms(1)
      by (auto simp: m dispatchJsonRpc_def run_method_def handleToolsCall_injected Let_def split: sum.split)
  qed (use assms(1) in \<open>auto simp: m dispatchJsonRpc_def run_method_def handleToolsCall_def Let_def split: sum.split\<close>)
qed

definition sample_ctx :: tool_ctx where
  "sample_ctx =
     \<lparr>x_sessionId = JStr ''s'', x_keyId = Some ''k1'', x_groupKeyIds = Some [''k1''], x_permissions = Some [''read'', ''write''],
      x_workspace = None, x_mode = Some ''recall-only'', x_clientIp = None, x_userAgent = None\<rparr>"

definition sample_call :: "string \<Rightarrow> rpc_msg" where
  "sample_call t =
     \<lparr>rpc_version = Some ''2.0'', rpc_id = Some (JNum 1), rpc_method = JStr ''tools/call'', rpc_tool = JStr t,
      rpc_args = ArgObj [(''_keyId'', JStr ''other''), (''content'', JStr ''x'')]\<rparr>"

lemma permitted_write: "permitted (Some [''read'', ''write'']) ''remember''"
  by (simp add: permitted_def TOOL_PERMISSIONS_def)

lemma sample_remember_listed: "''remember'' \<in> set TOOL_NAMES"
  by (simp add: TOOL_NAMES_def TOOL_REGISTRY_def)

theorem tool_calls_confined_witness:
  "\<exists>msg'. injectSessionContext sample_ctx (sample_call ''remember'') = Some msg' \<and>
     snd (dispatchJsonRpc (\<lambda>t a. Inr JNull) (\<lambda>m. Inr JNull) (\<lambda>m. Inr JNull) (Some msg')) =
       Some (''remember'', inject_args sample_ctx (client_args (sample_call ''remember'')))"
proof -
  have m: "rpc_method (sample_call ''remember'') = JStr ''tools/call''" by (simp add: sample_call_def)
  obtain msg' where i: "injectSessionContext sample_ctx (sample_call ''remember'') = Some msg'"
    by (simp add: injectSessionContext_def sample_call_def)
  have "permitted (x_permissions sample_ctx) ''remember''" using permitted_write by (simp add: sample_ctx_def)
  moreover have "the (js_or (rpc_version (sample_call ''remember'')) (Some ''2.0'')) = ''2.0''"
    "rpc_tool (sample_call ''remember'') = JStr ''remember''" by (simp_all add: sample_call_def)
  ultimately show ?thesis using tool_calls_confined [OF m i] i sample_remember_listed by blast
qed

text \<open>
  A mode preset hides tools and blocks none: the list of tools omits exactly the tools that the
  preset excludes (for a preset that is in force), but a call of an excluded tool in a session with
  that mode runs like any other, if the permissions of the session allow it.
\<close>

theorem mode_hides_without_blocking:
  assumes "map_of ps mode = Some p" and "mode \<noteq> []" and "requiresMaster p \<longrightarrow> x_keyId x = None"
    and "t \<in> set (excluded_tools p)" and "t \<in> set TOOL_NAMES" and "permitted (x_permissions x) t"
    and "x_mode x = Some mode" and "rpc_version msg = Some ''2.0''" and "rpc_method msg = JStr ''tools/call''"
    and "rpc_tool msg = JStr t" and "injectSessionContext x msg = Some msg'"
  shows "(\<forall>u. u \<in> set (filterTools ps (tools_definition (x_keyId x)) (x_mode x) (x_keyId x = None)) \<longleftrightarrow>
              u \<in> set (tools_definition (x_keyId x)) \<and> u \<notin> set (excluded_tools p)) \<and>
         snd (dispatchJsonRpc run other inherited (Some msg')) = Some (t, inject_args x (client_args msg))"
proof
  show "\<forall>u. u \<in> set (filterTools ps (tools_definition (x_keyId x)) (x_mode x) (x_keyId x = None)) \<longleftrightarrow>
              u \<in> set (tools_definition (x_keyId x)) \<and> u \<notin> set (excluded_tools p)"
    using assms(1-3,7) by (auto simp: filterTools_def)
  have m: "msg' = msg\<lparr>rpc_args := ArgObj (inject_args x (client_args msg))\<rparr>"
    using assms(9,11) by (auto simp: injectSessionContext_def client_args_def split: call_args.split_asm)
  show "snd (dispatchJsonRpc run other inherited (Some msg')) = Some (t, inject_args x (client_args msg))"
    using assms(5,6,8-10)
    by (simp add: m dispatchJsonRpc_def run_method_def handleToolsCall_injected Let_def split: sum.split)
qed

definition recall_only :: raw_preset where
  "recall_only =
     \<lparr>rp_name = JStr ''recall-only'',
      rp_excluded = JArr (map JStr [''remember'', ''batch_remember'', ''amend'', ''forget'', ''link'', ''reflect'', ''memory_consolidate'']),
      rp_fixed = JArr [], rp_override = JNull, rp_master = JBool False\<rparr>"

theorem mode_hides_without_blocking_witness:
  "\<exists>msg'. injectSessionContext sample_ctx (sample_call ''remember'') = Some msg' \<and>
     ''remember'' \<notin> set (filterTools (load_presets [Some recall_only] []) (tools_definition (Some ''k1'')) (Some ''recall-only'') False) \<and>
     snd (dispatchJsonRpc (\<lambda>t a. Inr JNull) (\<lambda>m. Inr JNull) (\<lambda>m. Inr JNull) (Some msg')) \<noteq> None"
proof -
  obtain msg' where i: "injectSessionContext sample_ctx (sample_call ''remember'') = Some msg'"
    by (simp add: injectSessionContext_def sample_call_def)
  define p where "p = the (map_of (load_presets [Some recall_only] []) ''recall-only'')"
  have p: "map_of (load_presets [Some recall_only] []) ''recall-only'' = Some p" "requiresMaster p = False"
    "''remember'' \<in> set (excluded_tools p)"
    by (simp_all add: p_def recall_only_def array_or_empty_def)
  have x: "x_mode sample_ctx = Some ''recall-only''" "x_keyId sample_ctx = Some ''k1''" "permitted (x_permissions sample_ctx) ''remember''"
    using permitted_write by (simp_all add: sample_ctx_def)
  have c: "rpc_version (sample_call ''remember'') = Some ''2.0''" "rpc_method (sample_call ''remember'') = JStr ''tools/call''"
    "rpc_tool (sample_call ''remember'') = JStr ''remember''" by (simp_all add: sample_call_def)
  have "requiresMaster p \<longrightarrow> x_keyId sample_ctx = None" using p(2) by simp
  from mode_hides_without_blocking [OF p(1) _ this p(3) sample_remember_listed x(3) x(1) c i, of "\<lambda>t a. Inr JNull" "\<lambda>m. Inr JNull" "\<lambda>m. Inr JNull"]
  show ?thesis using i p x by auto
qed

end
