(* ===== verification/Quota.thy ===== *)
theory Quota
  imports Prelude
begin

text \<open>
  The fragment quota of API keys, \<open>lib/memory/QuotaChecker.js\<close>: the usage of a key with a cache of ten
  seconds and a thousand entries, and the check in front of every \<open>remember\<close>, which trusts the cache
  while more than \<open>QUOTA_NEAR_LIMIT_MARGIN\<close> is left and counts exactly otherwise.

  The database is the limits of the keys and the keys of the live fragments; the transaction and its
  row lock have no effect on one caller at a time, which is what the runs here are.
\<close>

record usage =
  limit :: "int option"
  current :: int
  remaining :: "int option"

record quota_db =
  has_pool :: bool
  q_up :: bool
  fragment_limits :: "(string, int option) jsmap"
  live_keys :: "string list"

type_synonym usage_cache = "(string, usage \<times> int) jsmap"

definition CACHE_TTL_MS :: int where "CACHE_TTL_MS = 10000"
definition CACHE_MAX :: nat where "CACHE_MAX = 1000"

definition unlimited :: usage where
  "unlimited = \<lparr>limit = None, current = 0, remaining = None\<rparr>"

definition live_count :: "string \<Rightarrow> quota_db \<Rightarrow> int" where
  "live_count k db = int (length (filter (\<lambda>x. x = k) (live_keys db)))"

definition cacheGet :: "int \<Rightarrow> string \<Rightarrow> usage_cache \<Rightarrow> usage option \<times> usage_cache" where
  "cacheGet now k cache =
     (case map_of cache k of
        None \<Rightarrow> (None, cache)
      | Some (v, expiresAt) \<Rightarrow> if now > expiresAt then (None, AList.delete k cache) else (Some v, cache))"

definition cacheSet :: "int \<Rightarrow> string \<Rightarrow> usage \<Rightarrow> usage_cache \<Rightarrow> usage_cache" where
  "cacheSet now k v cache =
     (let c = (if length cache \<ge> CACHE_MAX then AList.delete (fst (hd cache)) cache else cache)
      in AList.update k (v, now + CACHE_TTL_MS) c)"

definition invalidateUsageCache :: "string option \<Rightarrow> usage_cache \<Rightarrow> usage_cache" where
  "invalidateUsageCache k cache = (if truthy k then AList.delete (the k) cache else cache)"

text \<open>The usage as the database has it.\<close>

definition query_usage :: "string \<Rightarrow> quota_db \<Rightarrow> usage" where
  "query_usage k db =
     (case map_of (fragment_limits db) k of
        Some (Some l) \<Rightarrow> \<lparr>limit = Some l, current = live_count k db, remaining = Some (max 0 (l - live_count k db))\<rparr>
      | _ \<Rightarrow> unlimited)"

definition getUsage :: "int \<Rightarrow> string option \<Rightarrow> quota_db \<Rightarrow> usage_cache \<Rightarrow> (unit + usage) \<times> usage_cache" where
  "getUsage now keyId db cache =
     (if \<not> truthy keyId then (Inr unlimited, cache)
      else case cacheGet now (the keyId) cache of
        (Some u, c) \<Rightarrow> (Inr u, c)
      | (None, c) \<Rightarrow>
          if \<not> has_pool db then (Inr unlimited, c)
          else if \<not> q_up db then (Inl (), c)
          else let u = query_usage (the keyId) db in (Inr u, cacheSet now (the keyId) u c))"

datatype quota_error = DbFailure | FragmentLimitExceeded int int

definition check :: "int \<Rightarrow> int \<Rightarrow> string option \<Rightarrow> quota_db \<Rightarrow> usage_cache \<Rightarrow> (quota_error + unit) \<times> usage_cache" where
  "check margin now keyId db cache =
     (if \<not> truthy keyId then (Inr (), cache)
      else case getUsage now keyId db cache of
        (Inl _, c) \<Rightarrow> (Inl DbFailure, c)
      | (Inr u, c) \<Rightarrow>
          if limit u = None then (Inr (), c)
          else if (case remaining u of Some r \<Rightarrow> r > margin | None \<Rightarrow> False) then (Inr (), c)
          else if \<not> has_pool db then (Inr (), c)
          else if \<not> q_up db then (Inl DbFailure, c)
          else (case map_of (fragment_limits db) (the keyId) of
                  Some (Some l) \<Rightarrow>
                    if live_count (the keyId) db \<ge> l
                    then (Inl (FragmentLimitExceeded (live_count (the keyId) db) l), c)
                    else (Inr (), invalidateUsageCache keyId c)
                | _ \<Rightarrow> (Inr (), invalidateUsageCache keyId c)))"

text \<open>\<open>remember\<close> without \<open>WEASLEY_DEEPMIND_REMEMBER_ATOMIC\<close>: the check, then the insertion.\<close>

definition remember :: "int \<Rightarrow> string \<Rightarrow> int \<Rightarrow> quota_db \<times> usage_cache \<Rightarrow> quota_db \<times> usage_cache" where
  "remember margin k now s =
     (case s of (db, cache) \<Rightarrow>
        (case check margin now (Some k) db cache of
           (Inl _, c) \<Rightarrow> (db, c)
         | (Inr _, c) \<Rightarrow> (db\<lparr>live_keys := k # live_keys db\<rparr>, c)))"

section \<open>The exact check\<close>

lemma cacheSet_get: "map_of (cacheSet now k v cache) k = Some (v, now + CACHE_TTL_MS)"
  by (simp add: cacheSet_def store_simps Let_def)

lemma length_update_le: "length (AList.update k v m) \<le> Suc (length m)"
  by (induction m) auto

lemma length_delete_hd: "m \<noteq> [] \<Longrightarrow> length (AList.delete (fst (hd m)) m) < length m"
  using length_filter_le by (cases m) (auto simp: AList.delete_eq less_Suc_eq_le)

lemma cacheSet_bound: "length cache \<le> CACHE_MAX \<Longrightarrow> length (cacheSet now k v cache) \<le> CACHE_MAX"
proof -
  assume le: "length cache \<le> CACHE_MAX"
  let ?c = "if length cache \<ge> CACHE_MAX then AList.delete (fst (hd cache)) cache else cache"
  have "length ?c < CACHE_MAX"
    using le length_delete_hd [of cache] by (cases "cache = []") (auto simp: CACHE_MAX_def)
  then show ?thesis
    using length_update_le [of k "(v, now + CACHE_TTL_MS)" ?c] by (simp add: cacheSet_def Let_def)
qed

lemma length_delete_le: "length (AList.delete k m) \<le> length m"
  by (simp add: AList.delete_eq)

lemma cacheGet_bound: "length (snd (cacheGet now k cache)) \<le> length cache"
  by (simp add: cacheGet_def length_delete_le split: option.split prod.split)

lemma getUsage_bound: "length cache \<le> CACHE_MAX \<Longrightarrow> length (snd (getUsage now k db cache)) \<le> CACHE_MAX"
proof -
  assume le: "length cache \<le> CACHE_MAX"
  obtain u c where g: "cacheGet now (the k) cache = (u, c)" by fastforce
  with le cacheGet_bound [of now "the k" cache] have "length c \<le> CACHE_MAX" by simp
  then show ?thesis using le by (simp add: getUsage_def g cacheSet_bound Let_def split: option.split)
qed

text \<open>
  C29. Without a cached value the quota is exact: for a key with a limit, while the database answers, the
  check passes exactly when fewer fragments than the limit are live, and reports the count and the
  limit otherwise; and the cache never holds more than a thousand entries.
\<close>

theorem quota_check_exact:
  assumes "k \<noteq> []" and "has_pool db" and "q_up db" and "0 \<le> margin"
    and "map_of (fragment_limits db) k = Some (Some l)" and "fst (cacheGet now k cache) = None"
    and "length cache \<le> CACHE_MAX"
  shows "fst (check margin now (Some k) db cache) =
           (if live_count k db < l then Inr () else Inl (FragmentLimitExceeded (live_count k db) l)) \<and>
         length (snd (check margin now (Some k) db cache)) \<le> CACHE_MAX"
proof -
  obtain c where g: "cacheGet now k cache = (None, c)" using assms(6) by (cases "cacheGet now k cache") auto
  let ?u = "query_usage k db"
  have u: "getUsage now (Some k) db cache = (Inr ?u, cacheSet now k ?u c)"
    using assms(1-3) by (simp add: getUsage_def g Let_def)
  have "limit ?u = Some l" "remaining ?u = Some (max 0 (l - live_count k db))"
    using assms(5) by (simp_all add: query_usage_def)
  moreover have "length (cacheSet now k ?u c) \<le> CACHE_MAX" using getUsage_bound [OF assms(7)] u by (metis snd_conv)
  moreover have "length (AList.delete k (cacheSet now k ?u c)) \<le> CACHE_MAX"
    using length_delete_le calculation(3) by (rule order_trans)
  ultimately show ?thesis
    using assms(1-5) by (auto simp: check_def u invalidateUsageCache_def)
qed

definition sample_quota :: quota_db where
  "sample_quota = \<lparr>has_pool = True, q_up = True, fragment_limits = [(''k'', Some 5)], live_keys = [''k'']\<rparr>"

theorem quota_check_exact_witness:
  "fst (check 10 0 (Some ''k'') sample_quota []) = Inr ()"
  using quota_check_exact [of "''k''" sample_quota 10 5 0 "[]"]
  by (simp add: sample_quota_def cacheGet_def live_count_def)

section \<open>The stale cache\<close>

lemma remember_cached:
  assumes "k \<noteq> []" and "map_of cache k = Some (u, e)" and "now \<le> e"
    and "limit u \<noteq> None" and "remaining u = Some r" and "margin < r"
  shows "remember margin k now (db, cache) = (db\<lparr>live_keys := k # live_keys db\<rparr>, cache)"
  using assms by (auto simp: remember_def check_def getUsage_def cacheGet_def)

lemma remembers_cached:
  assumes "k \<noteq> []" and "map_of cache k = Some (u, e)" and "\<forall>t\<in>set ts. t \<le> e"
    and "limit u \<noteq> None" and "remaining u = Some r" and "margin < r"
  shows "live_count k (fst (fold (remember margin k) ts (db, cache))) = live_count k db + int (length ts)"
  using assms(3)
proof (induction ts arbitrary: db)
  case (Cons t ts)
  then show ?case using remember_cached [OF assms(1,2) _ assms(4-6)] by (simp add: live_count_def)
qed simp

text \<open>
  A cached value is not corrected by the insertions it lets through: after a first \<open>remember\<close> with
  more than the margin left, every further one within the ten seconds of the cache passes, however
  many there are, so the number of live fragments exceeds the limit by any amount.
\<close>

theorem quota_cache_overrun:
  assumes "k \<noteq> []" and "has_pool db" and "q_up db"
    and "map_of (fragment_limits db) k = Some (Some l)" and "margin < l - live_count k db"
    and "\<forall>t\<in>set ts. t \<le> now + CACHE_TTL_MS" and "0 \<le> margin"
  shows "live_count k (fst (fold (remember margin k) (now # ts) (db, []))) = live_count k db + 1 + int (length ts)"
proof -
  let ?u = "query_usage k db"
  have u: "limit ?u = Some l" "remaining ?u = Some (max 0 (l - live_count k db))"
    using assms(4) by (simp_all add: query_usage_def)
  have first: "remember margin k now (db, []) = (db\<lparr>live_keys := k # live_keys db\<rparr>, cacheSet now k ?u [])"
    using assms(1-3) u less_max_iff_disj [of margin 0 "l - live_count k db"] assms(5)
    by (simp add: remember_def check_def getUsage_def cacheGet_def Let_def)
  have "live_count k (fst (fold (remember margin k) ts (db\<lparr>live_keys := k # live_keys db\<rparr>, cacheSet now k ?u []))) =
      live_count k (db\<lparr>live_keys := k # live_keys db\<rparr>) + int (length ts)"
    by (rule remembers_cached [OF assms(1) cacheSet_get assms(6)]) (use u assms(5,7) in auto)
  then show ?thesis by (simp add: first live_count_def)
qed

theorem quota_cache_overrun_witness:
  "live_count ''k'' (fst (fold (remember 1 ''k'') (0 # replicate 100 9000) (sample_quota, []))) = 102"
  using quota_cache_overrun [of "''k''" sample_quota 5 1 "replicate 100 9000" 0]
  by (simp add: sample_quota_def live_count_def CACHE_TTL_MS_def)

end
