(* ===== verification/Links.thy ===== *)
theory Links
  imports Prelude
begin

text \<open>
  Links between fragments, \<open>lib/memory/link/LinkStore.js\<close>: the table \<open>fragment_links\<close>, the array
  \<open>linked_to\<close> of every fragment, reachability, and \<open>wouldCreateCycle\<close> of
  \<open>lib/memory/link/SessionLinker.js\<close>.

  The SQL statements are functions on the two tables.  The order inside \<open>linked_to\<close> is that of
  insertion (the batch statement of the code sorts it; nothing reads the order).  The recursive query
  of \<open>isReachable\<close> is the function \<open>reach\<close>, which expands one set of fragments after the other, at
  most 20 hops.

  The interface \<open>link_graph\<close> states what a sequence of link creations relies on.
\<close>

record frag_row =
  f_id :: string
  f_key :: "string option"
  f_live :: bool
  linked_to :: "string list"

record link_row =
  l_from :: string
  l_to :: string
  relation :: string
  weight :: rat
  l_deleted :: bool

record graph_db =
  frags :: "frag_row list"
  links :: "link_row list"

definition frag_exists :: "string \<Rightarrow> graph_db \<Rightarrow> bool" where
  "frag_exists i db = list_ex (\<lambda>f. f_id f = i) (frags db)"

section \<open>Creating links\<close>

text \<open>\<open>INSERT ... ON CONFLICT (from_id, to_id) DO UPDATE\<close>: relation replaced, weight not lowered.\<close>

definition upsert_link :: "string \<Rightarrow> string \<Rightarrow> string \<Rightarrow> rat \<Rightarrow> link_row list \<Rightarrow> link_row list" where
  "upsert_link a b r w ls =
     (if list_ex (\<lambda>l. l_from l = a \<and> l_to l = b) ls
      then map (\<lambda>l. if l_from l = a \<and> l_to l = b then l\<lparr>relation := r, weight := max (weight l) w\<rparr> else l) ls
      else ls @ [\<lparr>l_from = a, l_to = b, relation = r, weight = w, l_deleted = False\<rparr>])"

definition append_linked :: "string \<Rightarrow> string \<Rightarrow> frag_row list \<Rightarrow> frag_row list" where
  "append_linked i x fs = map (\<lambda>f. if f_id f = i \<and> x \<notin> set (linked_to f) then f\<lparr>linked_to := linked_to f @ [x]\<rparr> else f) fs"

definition link_allowed :: "string \<Rightarrow> string \<Rightarrow> string \<Rightarrow> graph_db \<Rightarrow> bool" where
  "link_allowed a b r db \<longleftrightarrow>
     frag_exists a db \<and> frag_exists b db \<and>
     r \<in> {''related'', ''caused_by'', ''resolved_by'', ''part_of'', ''contradicts'', ''superseded_by'',
          ''co_retrieved'', ''temporal''}"

definition createLink :: "string \<Rightarrow> string \<Rightarrow> string \<Rightarrow> rat \<Rightarrow> graph_db \<Rightarrow> unit + graph_db" where
  "createLink a b r w db =
     (if \<not> link_allowed a b r db then Inl ()
      else Inr \<lparr>frags = append_linked b a (append_linked a b (frags db)), links = upsert_link a b r w (links db)\<rparr>)"

text \<open>
  The batch: one statement, which fails when it would touch a row twice or a fragment is missing, and
  then changes nothing.
\<close>

definition createLinks :: "(string \<times> string \<times> string) list \<Rightarrow> graph_db \<Rightarrow> unit + graph_db" where
  "createLinks pairs db =
     (if pairs = [] then Inr db
      else if \<not> distinct (map (\<lambda>(a, b, r). (a, b)) pairs) \<or> \<not> list_all (\<lambda>(a, b, r). link_allowed a b r db) pairs
      then Inl ()
      else Inr \<lparr>frags = fold (\<lambda>(a, b, r) fs. append_linked b a (append_linked a b fs)) pairs (frags db),
                links = fold (\<lambda>(a, b, r). upsert_link a b r 1) pairs (links db)\<rparr>)"

section \<open>Reading links\<close>

definition getLinkedIds :: "string \<Rightarrow> string option \<Rightarrow> graph_db \<Rightarrow> string list" where
  "getLinkedIds i keyId db =
     (case filter (\<lambda>f. f_id f = i \<and> f_live f \<and> (keyId = None \<or> f_key f = keyId)) (frags db) of
        [] \<Rightarrow> []
      | f # _ \<Rightarrow> linked_to f)"

definition seed_links :: "string \<Rightarrow> graph_db \<Rightarrow> string list" where
  "seed_links i db = concat (map linked_to (filter (\<lambda>f. f_id f = i \<and> f_live f) (frags db)))"

definition next_links :: "string option \<Rightarrow> string \<Rightarrow> string list \<Rightarrow> graph_db \<Rightarrow> string list" where
  "next_links keyId target xs db =
     remdups (concat (map linked_to
       (filter (\<lambda>f. f_id f \<in> set xs \<and> f_id f \<noteq> target \<and> f_live f \<and> (keyId = None \<or> f_key f = keyId)) (frags db))))"

fun reach :: "nat \<Rightarrow> string option \<Rightarrow> string \<Rightarrow> string list \<Rightarrow> graph_db \<Rightarrow> bool" where
  "reach 0 keyId target xs db = (target \<in> set xs)"
| "reach (Suc n) keyId target xs db = (target \<in> set xs \<or> reach n keyId target (next_links keyId target xs db) db)"

definition isReachable :: "string \<Rightarrow> string \<Rightarrow> string option \<Rightarrow> graph_db \<Rightarrow> bool" where
  "isReachable start target keyId db = reach 19 keyId target (remdups (seed_links start db)) db"

definition wouldCreateCycle :: "string \<Rightarrow> string \<Rightarrow> string option \<Rightarrow> graph_db \<Rightarrow> bool" where
  "wouldCreateCycle a b keyId db = isReachable b a keyId db"

section \<open>Reachability as a relation\<close>

text \<open>A step from one fragment to another along \<open>linked_to\<close>; \<open>ok\<close> restricts the fragments left.\<close>

definition steps :: "(frag_row \<Rightarrow> bool) \<Rightarrow> graph_db \<Rightarrow> (string \<times> string) set" where
  "steps ok db = {(f_id f, x) | f x. f \<in> set (frags db) \<and> f_live f \<and> ok f \<and> x \<in> set (linked_to f)}"

abbreviation tenant :: "string option \<Rightarrow> frag_row \<Rightarrow> bool" where
  "tenant keyId f \<equiv> keyId = None \<or> f_key f = keyId"

lemma set_next_links:
  "set (next_links k t xs db) = {y. \<exists>x\<in>set xs. x \<noteq> t \<and> (x, y) \<in> steps (tenant k) db}"
  by (auto simp: next_links_def steps_def)

lemma set_seed_links: "set (seed_links i db) = {y. (i, y) \<in> steps (\<lambda>_. True) db}"
  by (auto simp: seed_links_def steps_def)

lemma reach_relpow:
  "reach n k t xs db \<longleftrightarrow> (\<exists>m\<le>n. \<exists>x\<in>set xs. (x, t) \<in> steps (tenant k) db ^^ m)"
proof (induction n arbitrary: xs)
  case (Suc n)
  let ?S = "steps (tenant k) db"
  have "reach (Suc n) k t xs db \<longleftrightarrow> t \<in> set xs \<or> (\<exists>m\<le>n. \<exists>y x. x \<in> set xs \<and> x \<noteq> t \<and> (x, y) \<in> ?S \<and> (y, t) \<in> ?S ^^ m)"
    by (auto simp: Suc set_next_links)
  also have "\<dots> \<longleftrightarrow> (\<exists>m\<le>Suc n. \<exists>x\<in>set xs. (x, t) \<in> ?S ^^ m)" (is "?L \<longleftrightarrow> ?R")
  proof
    assume ?L
    then show ?R
    proof (elim disjE exE conjE)
      assume "t \<in> set xs"
      then show ?R by (intro exI [of _ 0]) auto
    next
      fix m y x
      assume "m \<le> n" "x \<in> set xs" "(x, y) \<in> ?S" "(y, t) \<in> ?S ^^ m"
      then have "(x, t) \<in> ?S ^^ Suc m" by (blast intro: relpow_Suc_I2)
      with \<open>m \<le> n\<close> \<open>x \<in> set xs\<close> show ?R by (metis Suc_le_mono)
    qed
  next
    assume ?R
    then obtain m x where m: "m \<le> Suc n" "x \<in> set xs" "(x, t) \<in> ?S ^^ m" by blast
    show ?L
    proof (cases "x = t \<or> m = 0")
      case True
      with m show ?thesis by auto
    next
      case False
      with m obtain m' y where "m = Suc m'" "(x, y) \<in> ?S" "(y, t) \<in> ?S ^^ m'"
        by (metis not0_implies_Suc relpow_Suc_D2)
      with m False show ?thesis by (intro disjI2 exI [of _ m']) auto
    qed
  qed
  finally show ?case .
qed simp


section \<open>What linking does to the graph\<close>

definition link_upd :: "string \<Rightarrow> string \<Rightarrow> frag_row \<Rightarrow> frag_row" where
  "link_upd i x f = (if f_id f = i \<and> x \<notin> set (linked_to f) then f\<lparr>linked_to := linked_to f @ [x]\<rparr> else f)"

lemma link_upd_simps [simp]:
  "f_id (link_upd i x f) = f_id f" "f_live (link_upd i x f) = f_live f" "f_key (link_upd i x f) = f_key f"
  "set (linked_to (link_upd i x f)) = (if f_id f = i then insert x (set (linked_to f)) else set (linked_to f))"
  by (auto simp: link_upd_def)

lemma append_linked_upd: "append_linked i x fs = map (link_upd i x) fs"
  by (simp add: append_linked_def link_upd_def)

text \<open>The fragments that a query of the tenant may leave.\<close>

definition usable :: "string option \<Rightarrow> string \<Rightarrow> graph_db \<Rightarrow> bool" where
  "usable k i db \<longleftrightarrow> (\<exists>f\<in>set (frags db). f_id f = i \<and> f_live f \<and> tenant k f)"

lemma createLink_frags:
  assumes "createLink a b r w db = Inr db'"
  shows "frags db' = map (\<lambda>f. link_upd b a (link_upd a b f)) (frags db)"
  using assms by (auto simp: createLink_def append_linked_upd o_def split: if_split_asm)

lemma mem_steps: "(x, y) \<in> steps ok db \<longleftrightarrow> (\<exists>f\<in>set (frags db). f_id f = x \<and> f_live f \<and> ok f \<and> y \<in> set (linked_to f))"
  by (auto simp: steps_def)

lemma createLink_steps:
  assumes "createLink a b r w db = Inr db'"
  shows "steps (tenant k) db' = steps (tenant k) db \<union> {(x, y). (x, y) \<in> {(a, b), (b, a)} \<and> usable k x db}"
    and "usable k x db' = usable k x db"
proof -
  have "(x, y) \<in> steps ok db' \<longleftrightarrow>
      (x, y) \<in> steps ok db \<or> (x, y) \<in> {(a, b), (b, a)} \<and> (\<exists>f\<in>set (frags db). f_id f = x \<and> f_live f \<and> ok f)"
    if "\<And>i z f. ok (link_upd i z f) = ok f" for x y ok
  proof -
    have "(x, y) \<in> steps ok db' \<longleftrightarrow>
        (\<exists>f\<in>set (frags db). (f_id f = x \<and> f_live f \<and> ok f \<and> y \<in> set (linked_to f)) \<or>
           ((x, y) \<in> {(a, b), (b, a)} \<and> f_id f = x \<and> f_live f \<and> ok f))"
      unfolding mem_steps createLink_frags [OF assms] set_map bex_simps
      by (rule bex_cong) (auto simp: that)
    then show ?thesis unfolding mem_steps by blast
  qed
  from this [of "tenant k"]
  show "steps (tenant k) db' = steps (tenant k) db \<union> {(x, y). (x, y) \<in> {(a, b), (b, a)} \<and> usable k x db}"
    unfolding usable_def by auto
  show "usable k x db' = usable k x db"
    by (simp add: usable_def createLink_frags [OF assms])
qed

text \<open>
  The interface \<open>link_graph\<close>: what a sequence of creations relies on.  Every creation that goes through
  adds the two edges between its ends, as far as they may be left, and nothing else.
\<close>

fun run_all :: "('l \<Rightarrow> 'g \<Rightarrow> 'e + 'g) \<Rightarrow> 'l list \<Rightarrow> 'g \<Rightarrow> 'e + 'g" where
  "run_all f [] g = Inr g"
| "run_all f (l # ls) g = (case f l g of Inl e \<Rightarrow> Inl e | Inr g' \<Rightarrow> run_all f ls g')"

definition pairs_of :: "('l \<Rightarrow> 'n \<times> 'n) \<Rightarrow> 'l list \<Rightarrow> ('n \<times> 'n) set" where
  "pairs_of ends ls = {(x, y). \<exists>l\<in>set ls. ends l = (x, y) \<or> ends l = (y, x)}"

locale link_graph =
  fixes edges :: "'g \<Rightarrow> ('n \<times> 'n) set"
    and leavable :: "'n \<Rightarrow> 'g \<Rightarrow> bool"
    and ends :: "'l \<Rightarrow> 'n \<times> 'n"
    and create :: "'l \<Rightarrow> 'g \<Rightarrow> 'e + 'g"
  assumes edges_create: "create l g = Inr g' \<Longrightarrow> edges g' = edges g \<union> {(x, y). (x, y) \<in> pairs_of ends [l] \<and> leavable x g}"
    and leavable_create: "create l g = Inr g' \<Longrightarrow> leavable x g' = leavable x g"
begin

lemma edges_run_all:
  "run_all create ls g = Inr g' \<Longrightarrow> edges g' = edges g \<union> {(x, y). (x, y) \<in> pairs_of ends ls \<and> leavable x g}"
proof (induction ls arbitrary: g)
  case (Cons l ls)
  then obtain g1 where g1: "create l g = Inr g1" "run_all create ls g1 = Inr g'" by (auto split: sum.split_asm)
  have "pairs_of ends (l # ls) = pairs_of ends [l] \<union> pairs_of ends ls" by (auto simp: pairs_of_def)
  with Cons.IH [OF g1(2)] edges_create [OF g1(1)] leavable_create [OF g1(1)] show ?case by auto
qed (simp add: pairs_of_def)

end

definition create_all :: "(string \<times> string \<times> string \<times> rat) list \<Rightarrow> graph_db \<Rightarrow> unit + graph_db" where
  "create_all = run_all (\<lambda>(a, b, r, w). createLink a b r w)"

definition linked_pairs :: "(string \<times> string \<times> string \<times> rat) list \<Rightarrow> (string \<times> string) set" where
  "linked_pairs = pairs_of (\<lambda>(a, b, r, w). (a, b))"

interpretation links: link_graph "steps (tenant k)" "usable k" "\<lambda>(a, b, r, w). (a, b)" "\<lambda>(a, b, r, w). createLink a b r w"
proof (unfold_locales, goal_cases)
  case (1 l g g')
  then show ?case using createLink_steps(1) [of "fst l" "fst (snd l)" "fst (snd (snd l))" "snd (snd (snd l))" g g' k]
    by (auto simp: pairs_of_def split_beta)
next
  case (2 l g g' x)
  then show ?case using createLink_steps(2) [of "fst l" "fst (snd l)" "fst (snd (snd l))" "snd (snd (snd l))" g g' k x]
    by (simp add: split_beta)
qed

lemma linked_pairs_iff:
  "linked_pairs ls = {(x, y). \<exists>r w. (x, y, r, w) \<in> set ls \<or> (y, x, r, w) \<in> set ls}"
  by (force simp: linked_pairs_def pairs_of_def)

lemma create_all_simps [simp]:
  "create_all [] db = Inr db"
  "create_all ((a, b, r, w) # ls) db = (case createLink a b r w db of Inl e \<Rightarrow> Inl e | Inr db' \<Rightarrow> create_all ls db')"
  unfolding create_all_def by simp_all

lemmas create_all_steps = links.edges_run_all [folded create_all_def linked_pairs_def]

lemma relpow_symmetric:
  assumes "sym R"
  shows "(x, y) \<in> R ^^ n \<Longrightarrow> (y, x) \<in> R ^^ n"
proof (induction n arbitrary: y)
  case (Suc n)
  then obtain z where "(x, z) \<in> R ^^ n" "(z, y) \<in> R" by auto
  with Suc.IH assms show ?case by (meson relpow_Suc_I2 symD)
qed simp

lemma reach_master: "isReachable x y None db \<longleftrightarrow> (\<exists>m\<le>19. (x, y) \<in> steps (tenant None) db ^^ Suc m)"
proof -
  have "isReachable x y None db \<longleftrightarrow> (\<exists>m\<le>19. \<exists>z. (x, z) \<in> steps (tenant None) db \<and> (z, y) \<in> steps (tenant None) db ^^ m)"
    by (auto simp: isReachable_def reach_relpow set_seed_links)
  then show ?thesis by (metis relpow_Suc_D2 relpow_Suc_I2)
qed

text \<open>
  The cycle check is blind to the direction of links: \<open>linked_to\<close> is written on both ends of every
  link, so in every graph built by \<open>createLink\<close> over live fragments the check answers alike for both
  directions, reports a cycle for a link that exists, and reports one between any two fragments that
  have a neighbour in common, although two links into that neighbour form no directed cycle.
\<close>

theorem cycle_check_blind_to_direction:
  assumes "create_all ls db = Inr db'" and "\<forall>f\<in>set (frags db). linked_to f = [] \<and> f_live f"
  shows "(wouldCreateCycle a b None db' \<longleftrightarrow> wouldCreateCycle b a None db') \<and>
         ((a, b) \<in> linked_pairs ls \<and> frag_exists b db \<longrightarrow> wouldCreateCycle a b None db') \<and>
         ((a, c) \<in> linked_pairs ls \<and> (b, c) \<in> linked_pairs ls \<and> frag_exists b db \<and> frag_exists c db \<longrightarrow>
            wouldCreateCycle a b None db')"
proof -
  let ?S = "steps (tenant None) db'"
  have usable: "usable None x db \<longleftrightarrow> frag_exists x db" for x
    using assms(2) by (auto simp: usable_def frag_exists_def list_ex_iff)
  have "steps (tenant None) db = {}" using assms(2) by (auto simp: steps_def)
  then have S: "?S = {(x, y). (x, y) \<in> linked_pairs ls \<and> frag_exists x db}"
    using create_all_steps [OF assms(1), of None] usable by simp
  have both: "frag_exists x db" if "(x, y) \<in> linked_pairs ls" for x y
    using assms(1) that
  proof (induction ls arbitrary: db)
    case (Cons l ls)
    obtain p q r w where l: "l = (p, q, r, w)" by (cases l) auto
    with Cons.prems obtain db1 where c: "createLink p q r w db = Inr db1" "create_all ls db1 = Inr db'"
      by (auto split: sum.split_asm)
    have "frag_exists z db1 = frag_exists z db" for z
      by (simp add: frag_exists_def createLink_frags [OF c(1)] list_ex_iff)
    with Cons.IH [OF c(2)] c(1) Cons.prems(2) show ?case
      by (auto simp: l linked_pairs_iff createLink_def link_allowed_def split: if_split_asm)
  qed (simp add: linked_pairs_iff)
  have "(x, y) \<in> linked_pairs ls \<Longrightarrow> (y, x) \<in> linked_pairs ls" for x y by (auto simp: linked_pairs_iff)
  with both have "sym ?S" unfolding S sym_def by blast
  then have swap: "wouldCreateCycle x y None db' \<Longrightarrow> wouldCreateCycle y x None db'" for x y
    unfolding wouldCreateCycle_def reach_master by (metis relpow_symmetric)
  have "wouldCreateCycle a b None db'" if "(a, b) \<in> linked_pairs ls" "frag_exists b db"
  proof -
    have "(b, a) \<in> ?S ^^ Suc 0" using that S by (auto simp: linked_pairs_iff)
    then show ?thesis unfolding wouldCreateCycle_def reach_master by blast
  qed
  moreover have "wouldCreateCycle a b None db'"
    if "(a, c) \<in> linked_pairs ls" "(b, c) \<in> linked_pairs ls" "frag_exists b db" "frag_exists c db"
  proof -
    have "(b, c) \<in> ?S" "(c, a) \<in> ?S" using that S by (auto simp: linked_pairs_iff)
    then have "(b, a) \<in> ?S ^^ Suc 1" by auto
    then show ?thesis unfolding wouldCreateCycle_def reach_master by (metis one_le_numeral)
  qed
  ultimately show ?thesis using swap by blast
qed

definition sample_frag :: "string \<Rightarrow> frag_row" where
  "sample_frag i = \<lparr>f_id = i, f_key = None, f_live = True, linked_to = []\<rparr>"

definition sample_graph :: graph_db where
  "sample_graph = \<lparr>frags = map sample_frag [''a'', ''b'', ''c''], links = []\<rparr>"

definition two_links :: "(string \<times> string \<times> string \<times> rat) list" where
  "two_links = [(''a'', ''c'', ''caused_by'', 1), (''b'', ''c'', ''caused_by'', 1)]"

text \<open>Two errors with the same cause: linking the first to the second counts as a cycle.\<close>

theorem cycle_check_blind_to_direction_witness:
  "\<exists>db'. create_all two_links sample_graph = Inr db' \<and> wouldCreateCycle ''a'' ''b'' None db' \<and>
     map (\<lambda>l. (l_from l, l_to l)) (links db') = [(''a'', ''c''), (''b'', ''c'')]"
proof -
  have "case create_all two_links sample_graph of Inl _ \<Rightarrow> False
      | Inr db' \<Rightarrow> map (\<lambda>l. (l_from l, l_to l)) (links db') = [(''a'', ''c''), (''b'', ''c'')]"
    by code_simp
  then obtain db' where db': "create_all two_links sample_graph = Inr db'"
    and e: "map (\<lambda>l. (l_from l, l_to l)) (links db') = [(''a'', ''c''), (''b'', ''c'')]"
    by (auto split: sum.split_asm)
  have fresh: "\<forall>f\<in>set (frags sample_graph). linked_to f = [] \<and> f_live f" by (simp add: sample_graph_def sample_frag_def)
  have "(''a'', ''c'') \<in> linked_pairs two_links \<and> (''b'', ''c'') \<in> linked_pairs two_links \<and>
      frag_exists ''b'' sample_graph \<and> frag_exists ''c'' sample_graph"
    by (auto simp: linked_pairs_iff two_links_def frag_exists_def sample_graph_def sample_frag_def)
  then have "wouldCreateCycle ''a'' ''b'' None db'"
    by (rule cycle_check_blind_to_direction [OF db' fresh, THEN conjunct2, THEN conjunct2, THEN mp])
  with db' e show ?thesis by (intro exI [of _ db'] conjI)
qed

end
