(* ===== verification/SessionLink.thy ===== *)
theory SessionLink
  imports Links "HOL-Library.List_Lexorder" "HOL-Library.Char_ord"
begin

text \<open>
  Automatic links inside a session, \<open>autoLinkSessionFragments\<close> of \<open>lib/memory/link/SessionLinker.js\<close>:
  every error is matched with one decision and every procedure with one error, by the overlap of
  their keywords; the pairs that pass the schema gate are sorted by their key (which fixes the order
  of the advisory locks), checked for cycles, and inserted in one batch.

  The overlap is a quotient of counts, kept as a rational number.  Strings are compared by character
  code, as the code compares them.  Phases are the four of the table, or none of them.
\<close>

record sess_frag =
  sf_id :: string
  sf_type :: string
  sf_keywords :: "string list option"
  content :: "string option"
  caseId :: "string option"
  sessionId :: "string option"
  phase :: "string option"

section \<open>Overlap\<close>

definition separator :: "char \<Rightarrow> bool" where
  "separator c \<longleftrightarrow> js_space c \<or> c \<in> set '',;:!?()[]{}'' \<or> c \<in> {CHR 0x22, CHR 0x27}"

fun split_on :: "(char \<Rightarrow> bool) \<Rightarrow> string \<Rightarrow> string \<Rightarrow> string list" where
  "split_on p acc [] = [rev acc]"
| "split_on p acc (c # cs) = (if p c then rev acc # split_on p [] cs else split_on p (c # acc) cs)"

definition tokenize :: "string option \<Rightarrow> string list" where
  "tokenize s = filter (\<lambda>t. 1 < length t) (split_on separator [] (map js_lower (nullish_to s [])))"

definition keywordOverlap :: "sess_frag \<Rightarrow> sess_frag \<Rightarrow> rat" where
  "keywordOverlap a b =
     (let kwA = nullish_to (sf_keywords a) []; kwB = nullish_to (sf_keywords b) []
      in if kwA \<noteq> [] \<and> kwB \<noteq> []
         then
           let setA = set (map (map js_lower) kwA);
               shared = length (filter (\<lambda>k. map js_lower k \<in> setA) kwB)
           in of_nat shared / of_nat (min (length kwA) (length kwB))
         else
           let tA = remdups (tokenize (content a)); tB = tokenize (content b)
           in if tA = [] \<or> tB = [] then 0
              else of_nat (length (filter (\<lambda>t. t \<in> set tA) tB)) / of_nat (min (length tA) (length tB)))"

definition PHASE_ORDER :: "(string \<times> nat) list" where
  "PHASE_ORDER = [(''planning'', 0), (''debugging'', 1), (''implementation'', 1), (''verification'', 2)]"

definition phaseOk :: "sess_frag \<Rightarrow> sess_frag \<Rightarrow> bool" where
  "phaseOk x y =
     (case (Option.bind (phase x) (map_of PHASE_ORDER), Option.bind (phase y) (map_of PHASE_ORDER)) of
        (Some pf, Some pt) \<Rightarrow> pf \<le> pt
      | _ \<Rightarrow> True)"

definition schemaFit :: "sess_frag \<Rightarrow> sess_frag \<Rightarrow> bool" where
  "schemaFit x y =
     (let sameCase = truthy (caseId x) \<and> truthy (caseId y) \<and> caseId x = caseId y;
          sameSession = truthy (sessionId x) \<and> truthy (sessionId y) \<and> sessionId x = sessionId y
      in if \<not> sameCase \<and> \<not> sameSession then False
         else if keywordOverlap x y < 6 / 10 then False
         else phaseOk x y)"

section \<open>Matching\<close>

definition best_match :: "sess_frag \<Rightarrow> sess_frag list \<Rightarrow> sess_frag option" where
  "best_match x ys =
     fst (fold (\<lambda>y (best, score). if keywordOverlap x y > score then (Some y, keywordOverlap x y) else (best, score))
            ys (None, - 1))"

type_synonym pair = "string \<times> string \<times> string"

definition match_all :: "string \<Rightarrow> sess_frag list \<Rightarrow> sess_frag list \<Rightarrow> (sess_frag \<times> sess_frag \<times> string) list" where
  "match_all r xs ys = [(x, y, r). x \<leftarrow> xs, y \<leftarrow> (case best_match x ys of None \<Rightarrow> [] | Some y \<Rightarrow> [y])]"

definition candidates :: "sess_frag list \<Rightarrow> (sess_frag \<times> sess_frag \<times> string) list" where
  "candidates fs =
     (let errors = filter (\<lambda>f. sf_type f = ''error'') fs;
          decisions = filter (\<lambda>f. sf_type f = ''decision'') fs;
          procedures = filter (\<lambda>f. sf_type f = ''procedure'') fs
      in match_all ''caused_by'' errors decisions @ match_all ''resolved_by'' procedures errors)"

definition pair_of :: "sess_frag \<times> sess_frag \<times> string \<Rightarrow> pair" where
  "pair_of c = (case c of (x, y, r) \<Rightarrow> (sf_id x, sf_id y, r))"

definition autoLinks :: "sess_frag list \<Rightarrow> pair list" where
  "autoLinks fs = map pair_of (filter (\<lambda>(x, y, r). schemaFit x y) (candidates fs))"

definition linkSuggestions :: "sess_frag list \<Rightarrow> pair list" where
  "linkSuggestions fs = map pair_of (filter (\<lambda>(x, y, r). \<not> schemaFit x y) (candidates fs))"

definition sortedKey :: "pair \<Rightarrow> string" where
  "sortedKey p = (case p of (a, b, r) \<Rightarrow> (if a < b then a @ ''|'' @ b else b @ ''|'' @ a))"

text \<open>The cycle check is the parameter \<open>cyc\<close>; its cache does not change what it answers.\<close>

definition validPairs :: "(string \<Rightarrow> string \<Rightarrow> bool) \<Rightarrow> sess_frag list \<Rightarrow> pair list" where
  "validPairs cyc fs = filter (\<lambda>(a, b, r). \<not> cyc a b) (sort_key sortedKey (autoLinks fs))"

definition insert_pairs :: "pair list \<Rightarrow> graph_db \<Rightarrow> graph_db" where
  "insert_pairs ps db =
     (case createLinks ps db of
        Inr db' \<Rightarrow> db'
      | Inl _ \<Rightarrow> fold (\<lambda>(a, b, r) d. case createLink a b r 1 d of Inl _ \<Rightarrow> d | Inr d' \<Rightarrow> d') ps db)"

definition autoLinkSessionFragments ::
  "string option \<Rightarrow> sess_frag list \<Rightarrow> graph_db \<Rightarrow> (nat \<times> pair list) \<times> graph_db" where
  "autoLinkSessionFragments keyId fs db =
     (let ps = validPairs (\<lambda>a b. wouldCreateCycle a b keyId db) fs
      in ((length ps, linkSuggestions fs), if ps = [] then db else insert_pairs ps db))"

section \<open>What is linked\<close>

lemma keywordOverlap_nonneg: "0 \<le> keywordOverlap x y"
  by (auto simp: keywordOverlap_def Let_def)

lemma best_match_fold:
  assumes "fold (\<lambda>y (best, score). if keywordOverlap x y > score then (Some y, keywordOverlap x y) else (best, score)) ys (b, s) = (r, s')"
    and "\<And>y. b = Some y \<Longrightarrow> s = keywordOverlap x y"
  shows "s \<le> s' \<and> (\<forall>y\<in>set ys. keywordOverlap x y \<le> s') \<and> (\<forall>y. r = Some y \<longrightarrow> s' = keywordOverlap x y \<and> (y \<in> set ys \<or> b = Some y))"
  using assms
proof (induction ys arbitrary: b s)
  case (Cons z ys)
  show ?case
  proof (cases "keywordOverlap x z > s")
    case True
    with Cons.prems Cons.IH [of "Some z" "keywordOverlap x z"] show ?thesis by fastforce
  next
    case False
    with Cons.prems Cons.IH [of b s] show ?thesis by fastforce
  qed
qed simp

lemma best_match_Some:
  assumes "best_match x ys = Some y"
  shows "y \<in> set ys \<and> (\<forall>z\<in>set ys. keywordOverlap x z \<le> keywordOverlap x y)"
proof -
  let ?f = "\<lambda>y (best, score). if keywordOverlap x y > score then (Some y, keywordOverlap x y) else (best, score)"
  obtain r s where rs: "fold ?f ys (None, - 1) = (r, s)" by fastforce
  then have "r = Some y" using assms by (simp add: best_match_def)
  with best_match_fold [OF rs] show ?thesis by auto
qed

lemma match_all_mem:
  "(x, y, r') \<in> set (match_all r xs ys) \<longleftrightarrow> r' = r \<and> x \<in> set xs \<and> best_match x ys = Some y"
  by (induction xs) (auto simp: match_all_def split: option.split_asm option.split)

lemma match_all_ids:
  "map (\<lambda>c. f (fst c)) (match_all r xs ys) = map f (filter (\<lambda>x. best_match x ys \<noteq> None) xs)"
  by (induction xs) (auto simp: match_all_def split: option.split)

lemma distinct_split:
  "distinct (map f xs) \<Longrightarrow> (\<And>x. x \<in> set xs \<Longrightarrow> \<not> (P x \<and> Q x)) \<Longrightarrow>
     distinct (map f (filter P xs) @ map f (filter Q xs))"
  by (induction xs) (auto simp: image_iff)

lemma candidates_distinct:
  assumes "distinct (map sf_id fs)"
  shows "distinct (map (\<lambda>c. sf_id (fst c)) (candidates fs))"
proof -
  let ?es = "filter (\<lambda>f. sf_type f = ''error'') fs" and ?ds = "filter (\<lambda>f. sf_type f = ''decision'') fs"
    and ?ps = "filter (\<lambda>f. sf_type f = ''procedure'') fs"
  have "map (\<lambda>c. sf_id (fst c)) (candidates fs) =
      map sf_id (filter (\<lambda>f. sf_type f = ''error'' \<and> best_match f ?ds \<noteq> None) fs) @
      map sf_id (filter (\<lambda>f. sf_type f = ''procedure'' \<and> best_match f ?es \<noteq> None) fs)"
    by (simp only: candidates_def Let_def map_append match_all_ids filter_filter)
  then show ?thesis using assms by (simp only:) (rule distinct_split, auto)
qed

lemma map_fst_pair_of: "map fst (map pair_of cs) = map (\<lambda>c. sf_id (fst c)) cs"
  by (simp add: pair_of_def split_beta)

lemma validPairs_distinct:
  assumes "distinct (map sf_id fs)"
  shows "distinct (map fst (validPairs cyc fs))"
proof -
  have "distinct (map fst (autoLinks fs))"
    unfolding autoLinks_def map_fst_pair_of using candidates_distinct [OF assms] by (simp add: distinct_map_filter)
  then have "distinct (map fst (sort_key sortedKey (autoLinks fs)))" by (simp add: distinct_map)
  then show ?thesis by (simp add: validPairs_def distinct_map_filter)
qed

lemma validPairs_sorted: "sorted (map sortedKey (validPairs cyc fs))"
  by (simp add: validPairs_def sorted_filter)

lemma candidates_mem:
  assumes "(x, y, r) \<in> set (candidates fs)"
  shows "x \<in> set fs \<and> y \<in> set fs \<and>
     (r = ''caused_by'' \<and> sf_type x = ''error'' \<and> sf_type y = ''decision'' \<or>
      r = ''resolved_by'' \<and> sf_type x = ''procedure'' \<and> sf_type y = ''error'') \<and>
     (\<forall>z\<in>set fs. sf_type z = sf_type y \<longrightarrow> keywordOverlap x z \<le> keywordOverlap x y)"
proof -
  from assms consider "r = ''caused_by''" "x \<in> set fs" "sf_type x = ''error''"
      "best_match x (filter (\<lambda>f. sf_type f = ''decision'') fs) = Some y"
    | "r = ''resolved_by''" "x \<in> set fs" "sf_type x = ''procedure''"
      "best_match x (filter (\<lambda>f. sf_type f = ''error'') fs) = Some y"
    by (auto simp: candidates_def Let_def match_all_mem)
  then show ?thesis by cases (auto dest!: best_match_Some)
qed

lemma validPairs_mem:
  assumes "(a, b, r) \<in> set (validPairs cyc fs)"
  shows "\<exists>x y. (x, y, r) \<in> set (candidates fs) \<and> schemaFit x y \<and> a = sf_id x \<and> b = sf_id y \<and> \<not> cyc a b"
  using assms by (auto simp: validPairs_def autoLinks_def pair_of_def)

lemma validPairs_batch:
  assumes "distinct (map sf_id fs)" and "\<forall>f\<in>set fs. frag_exists (sf_id f) db"
  shows "\<exists>db'. createLinks (validPairs cyc fs) db = Inr db'"
proof -
  have "distinct (map (\<lambda>(a, b, r). (a, b)) (validPairs cyc fs))"
  proof (rule distinct_map [THEN iffD1, THEN conjunct1])
    have "distinct (map fst (validPairs cyc fs))" by (rule validPairs_distinct [OF assms(1)])
    moreover have "map fst (validPairs cyc fs) = map fst (map (\<lambda>(a, b, r). (a, b)) (validPairs cyc fs))"
      by (simp add: split_beta)
    ultimately show "distinct (map fst (map (\<lambda>(a, b, r). (a, b)) (validPairs cyc fs)))" by simp
  qed
  moreover have "link_allowed a b r db" if "(a, b, r) \<in> set (validPairs cyc fs)" for a b r
  proof -
    from validPairs_mem [OF that] obtain x y where "(x, y, r) \<in> set (candidates fs)" "a = sf_id x" "b = sf_id y" by blast
    with candidates_mem [of x y r fs] assms(2) show ?thesis by (auto simp: link_allowed_def)
  qed
  ultimately show ?thesis by (auto simp: createLinks_def list_all_iff)
qed

text \<open>
  Automatic links are justified: every pair inserted at the end of a session joins an error to a
  decision or a procedure to an error of that session, the best overlap among all of its kind, with an
  overlap of at least 0.6, the same case or session and a phase that does not go back, and is no
  reported cycle; every error and every procedure is linked at most once; and the batch is sorted by
  the lock key and, when the fragments exist, goes through as a whole.
\<close>

theorem auto_links_justified:
  assumes "distinct (map sf_id fs)" and "\<forall>f\<in>set fs. frag_exists (sf_id f) db"
  shows "let ps = validPairs (\<lambda>a b. wouldCreateCycle a b keyId db) fs
         in (\<forall>(a, b, r)\<in>set ps. \<exists>x\<in>set fs. \<exists>y\<in>set fs. a = sf_id x \<and> b = sf_id y \<and>
               (r = ''caused_by'' \<and> sf_type x = ''error'' \<and> sf_type y = ''decision'' \<or>
                r = ''resolved_by'' \<and> sf_type x = ''procedure'' \<and> sf_type y = ''error'') \<and>
               6 / 10 \<le> keywordOverlap x y \<and>
               (\<forall>z\<in>set fs. sf_type z = sf_type y \<longrightarrow> keywordOverlap x z \<le> keywordOverlap x y) \<and>
               (truthy (caseId x) \<and> caseId x = caseId y \<or> truthy (sessionId x) \<and> sessionId x = sessionId y) \<and>
               phaseOk x y \<and> \<not> wouldCreateCycle a b keyId db) \<and>
            distinct (map fst ps) \<and> sorted (map sortedKey ps) \<and>
            fst (fst (autoLinkSessionFragments keyId fs db)) = length ps \<and>
            createLinks ps db = Inr (snd (autoLinkSessionFragments keyId fs db))"
proof -
  let ?cyc = "\<lambda>a b. wouldCreateCycle a b keyId db"
  obtain db' where db': "createLinks (validPairs ?cyc fs) db = Inr db'" using validPairs_batch [OF assms] by blast
  then have "snd (autoLinkSessionFragments keyId fs db) = db'"
    by (auto simp: autoLinkSessionFragments_def insert_pairs_def createLinks_def Let_def)
  moreover have "\<exists>x\<in>set fs. \<exists>y\<in>set fs. a = sf_id x \<and> b = sf_id y \<and>
      (r = ''caused_by'' \<and> sf_type x = ''error'' \<and> sf_type y = ''decision'' \<or>
       r = ''resolved_by'' \<and> sf_type x = ''procedure'' \<and> sf_type y = ''error'') \<and>
      6 / 10 \<le> keywordOverlap x y \<and>
      (\<forall>z\<in>set fs. sf_type z = sf_type y \<longrightarrow> keywordOverlap x z \<le> keywordOverlap x y) \<and>
      (truthy (caseId x) \<and> caseId x = caseId y \<or> truthy (sessionId x) \<and> sessionId x = sessionId y) \<and>
      phaseOk x y \<and> \<not> ?cyc a b" if "(a, b, r) \<in> set (validPairs ?cyc fs)" for a b r
  proof -
    from validPairs_mem [OF that] obtain x y where xy: "(x, y, r) \<in> set (candidates fs)" "schemaFit x y"
      "a = sf_id x" "b = sf_id y" "\<not> ?cyc a b" by blast
    have "6 / 10 \<le> keywordOverlap x y \<and> phaseOk x y \<and>
        (truthy (caseId x) \<and> caseId x = caseId y \<or> truthy (sessionId x) \<and> sessionId x = sessionId y)"
      using xy(2) by (auto simp: schemaFit_def Let_def not_less split: if_split_asm)
    with candidates_mem [OF xy(1)] xy(3-5) show ?thesis by blast
  qed
  ultimately show ?thesis
    using db' validPairs_distinct [OF assms(1), of ?cyc] validPairs_sorted [of ?cyc fs]
    by (auto simp: Let_def autoLinkSessionFragments_def)
qed

definition sample_sf :: "string \<Rightarrow> string \<Rightarrow> sess_frag" where
  "sample_sf i ty = \<lparr>sf_id = i, sf_type = ty, sf_keywords = Some [''Redis'', ''ttl''], content = None, caseId = Some ''c1'',
     sessionId = None, phase = None\<rparr>"

definition sample_session :: "sess_frag list" where
  "sample_session = [sample_sf ''a'' ''error'', sample_sf ''b'' ''decision'', sample_sf ''c'' ''procedure'']"

theorem auto_links_justified_witness:
  "fst (fst (autoLinkSessionFragments None sample_session sample_graph)) = 2 \<and>
   createLinks [(''a'', ''b'', ''caused_by''), (''c'', ''a'', ''resolved_by'')] sample_graph =
     Inr (snd (autoLinkSessionFragments None sample_session sample_graph))"
proof -
  have hyps: "distinct (map sf_id sample_session)" "\<forall>f\<in>set sample_session. frag_exists (sf_id f) sample_graph"
    by (simp_all add: sample_session_def sample_sf_def frag_exists_def sample_graph_def sample_frag_def)
  have "validPairs (\<lambda>a b. wouldCreateCycle a b None sample_graph) sample_session =
      [(''a'', ''b'', ''caused_by''), (''c'', ''a'', ''resolved_by'')]"
    by code_simp
  with auto_links_justified [OF hyps, of None] show ?thesis by (simp add: Let_def)
qed

end
