(* ===== verification/Scope.thy ===== *)
theory Scope
  imports Rpc
begin

text \<open>
  Tenant scope of a request: \<open>lib/memory/keyId.js\<close> (which key and which group a call acts for),
  \<open>lib/memory/keyScope.js\<close> (the WHERE clause that every read of fragments carries) and the filter of
  \<open>lib/symbolic/CbrEligibility.js\<close>.

  A clause is kept as syntax with the numbers of its placeholders, and \<open>holds\<close> evaluates it in the
  list of bindings the way the database does (a comparison with NULL is not true).
\<close>

section \<open>Who the call acts for\<close>

definition field :: "(string \<times> jv) list \<Rightarrow> string \<Rightarrow> jv" where
  "field obj k = (case map_of obj k of None \<Rightarrow> JUndef | Some v \<Rightarrow> v)"

definition jv_or :: "jv \<Rightarrow> jv \<Rightarrow> jv" where
  "jv_or a b = (if a = JUndef \<or> a = JNull then b else a)"

datatype fallback = FNull | FEmpty | FAmend

record request_ctx =
  c_agentId :: jv
  c_keyId :: jv
  c_groupKeyIds :: jv

definition extractRequestCtx :: "(string \<times> jv) list \<Rightarrow> fallback \<Rightarrow> request_ctx" where
  "extractRequestCtx params mode =
     (let agentId = (if js_falsy (field params ''agentId'') then JStr ''default'' else field params ''agentId'');
          keyId = jv_or (field params ''_keyId'') JNull;
          own = (\<lambda>other. if js_falsy keyId then other else JArr [keyId]);
          groupKeyIds =
            (case mode of
               FEmpty \<Rightarrow> jv_or (field params ''_groupKeyIds'') (own (JArr []))
             | FAmend \<Rightarrow> jv_or (jv_or (field params ''_groupKeyIds'') (field params ''groupKeyIds'')) (JArr [])
             | FNull \<Rightarrow> jv_or (field params ''_groupKeyIds'') (own JNull))
      in \<lparr>c_agentId = agentId, c_keyId = keyId, c_groupKeyIds = groupKeyIds\<rparr>)"

text \<open>The key of a search may be one key or a group; \<open>KMany\<close> holds the elements of the array.\<close>

datatype raw_key = KNone | KOne string | KMany "string option list"

fun cbr_key :: "raw_key \<Rightarrow> string option" where
  "cbr_key KNone = None"
| "cbr_key (KOne k) = Some k"
| "cbr_key (KMany []) = None"
| "cbr_key (KMany (x # xs)) = x"

fun claim_key :: "raw_key \<Rightarrow> raw_key" where
  "claim_key (KOne k) = (if k = [] then KNone else KOne k)"
| "claim_key k = k"

fun search_key :: "raw_key \<Rightarrow> string" where
  "search_key (KMany xs) = (case xs of Some k # _ \<Rightarrow> k | _ \<Rightarrow> ''-1'')"
| "search_key (KOne k) = k"
| "search_key KNone = ''-1''"

section \<open>The clause\<close>

datatype binding = BText string | BArr "string list"

datatype clause = NoClause | KeyClause string nat nat

text \<open>Column, number of the scalar placeholder, number of the array placeholder.\<close>

definition keyScopeClause ::
  "binding list \<Rightarrow> string \<Rightarrow> string option \<Rightarrow> string list option \<Rightarrow> binding list \<times> clause" where
  "keyScopeClause params column keyId groupKeyIds =
     (case keyId of
        None \<Rightarrow> (params, NoClause)
      | Some k \<Rightarrow>
          (let arr = (case groupKeyIds of Some (g # gs) \<Rightarrow> g # gs | _ \<Rightarrow> [k]);
               ps = params @ [BText k, BArr arr]
           in (ps, KeyClause column (length ps - 1) (length ps))))"

definition placeholder :: "binding list \<Rightarrow> nat \<Rightarrow> binding option" where
  "placeholder ps n = (if 0 < n \<and> n \<le> length ps then Some (ps ! (n - 1)) else None)"

text \<open>\<open>col IS NOT DISTINCT FROM $i OR col = ANY($j)\<close>, for the value of the column.\<close>

fun holds :: "binding list \<Rightarrow> clause \<Rightarrow> string option \<Rightarrow> bool" where
  "holds ps NoClause v = True"
| "holds ps (KeyClause c i j) v =
     ((case placeholder ps i of Some (BText k) \<Rightarrow> v = Some k | _ \<Rightarrow> False) \<or>
      (case placeholder ps j of Some (BArr ks) \<Rightarrow> (case v of None \<Rightarrow> False | Some x \<Rightarrow> x \<in> set ks) | _ \<Rightarrow> False))"

definition in_scope :: "string option \<Rightarrow> string list option \<Rightarrow> string option \<Rightarrow> bool" where
  "in_scope keyId groups v \<longleftrightarrow>
     (case keyId of None \<Rightarrow> True
      | Some k \<Rightarrow> v = Some k \<or> (\<exists>gs x. groups = Some gs \<and> v = Some x \<and> x \<in> set gs))"

lemma in_scope_code [code]:
  "in_scope keyId groups v =
     (case keyId of None \<Rightarrow> True
      | Some k \<Rightarrow> (case v of None \<Rightarrow> False | Some x \<Rightarrow> x = k \<or> (case groups of None \<Rightarrow> False | Some gs \<Rightarrow> x \<in> set gs)))"
  by (auto simp: in_scope_def split: option.splits)

lemma placeholder_append [simp]:
  "0 < n \<Longrightarrow> n \<le> length ps \<Longrightarrow> placeholder (ps @ qs) n = placeholder ps n"
  by (auto simp: placeholder_def nth_append)

lemma clause_holds:
  assumes "keyScopeClause params column keyId groups = (ps, cl)"
  shows "holds (ps @ later) cl v \<longleftrightarrow> in_scope keyId groups v"
proof (cases keyId)
  case None
  with assms show ?thesis by (auto simp: keyScopeClause_def in_scope_def)
next
  case (Some k)
  define arr where "arr = (case groups of Some (g # gs) \<Rightarrow> g # gs | _ \<Rightarrow> [k])"
  have ps: "ps = params @ [BText k, BArr arr]" "cl = KeyClause column (length params + 1) (length params + 2)"
    using assms by (auto simp: keyScopeClause_def Some arr_def Let_def)
  have "placeholder (ps @ later) (length params + 1) = Some (BText k)"
    "placeholder (ps @ later) (length params + 2) = Some (BArr arr)"
    by (simp_all add: placeholder_def ps nth_append)
  moreover have "x \<in> set arr \<or> x = k \<longleftrightarrow> x = k \<or> (\<exists>gs. groups = Some gs \<and> x \<in> set gs)" for x
    by (auto simp: arr_def split: option.splits list.splits)
  ultimately show ?thesis by (cases v) (auto simp: ps in_scope_def Some)
qed

text \<open>
  C11. The clause scopes exactly: whatever bindings stand before and after it, the clause appended by
  \<open>keyScopeClause\<close> leaves the earlier placeholders as they were and is true of a row exactly when the
  caller is the master, or the row belongs to the calling key or to one of its group; a row of the
  master is never shown to a key.
\<close>

theorem scope_clause_exact:
  assumes "keyScopeClause params column keyId groups = (ps, cl)"
  shows "(\<forall>n. 0 < n \<and> n \<le> length params \<longrightarrow> placeholder (ps @ later) n = placeholder params n) \<and>
         (holds (ps @ later) cl v \<longleftrightarrow> in_scope keyId groups v) \<and>
         (keyId \<noteq> None \<longrightarrow> \<not> holds (ps @ later) cl None)"
proof (intro conjI allI impI)
  show "holds (ps @ later) cl v \<longleftrightarrow> in_scope keyId groups v" by (rule clause_holds [OF assms])
  show "\<not> holds (ps @ later) cl None" if "keyId \<noteq> None"
    using that by (auto simp: clause_holds [OF assms] in_scope_def)
  fix n assume n: "0 < n \<and> n \<le> length params"
  obtain qs where "ps = params @ qs" using assms by (auto simp: keyScopeClause_def Let_def split: option.split_asm)
  with n show "placeholder (ps @ later) n = placeholder params n" by simp
qed

theorem scope_clause_exact_witness:
  "holds ([BText ''f1'', BText ''default'', BText ''k1'', BArr [''k2'', ''k1'']] @ [BText ''x''])
     (KeyClause ''key_id'' 3 4) (Some ''k2'') = in_scope (Some ''k1'') (Some [''k2'', ''k1'']) (Some ''k2'')"
proof -
  have "keyScopeClause [BText ''f1'', BText ''default''] ''key_id'' (Some ''k1'') (Some [''k2'', ''k1'']) =
      ([BText ''f1'', BText ''default'', BText ''k1'', BArr [''k2'', ''k1'']], KeyClause ''key_id'' 3 4)"
    by (simp add: keyScopeClause_def)
  from scope_clause_exact [OF this, of "[BText ''x'']" "Some ''k2''"] show ?thesis by blast
qed

section \<open>The request context after injection\<close>

lemma inject_args_field:
  "field (inject_args x args) f =
     (case map_of (context_fields x) f of Some v \<Rightarrow> v
      | None \<Rightarrow> if f \<in> set internal_fields then JUndef else field args f)"
proof -
  have upd: "map_of (fold (\<lambda>(k, v). AList.update k v) us m) f =
      (case map_of (rev us) f of Some v \<Rightarrow> Some v | None \<Rightarrow> map_of m f)" for us and m :: "(string \<times> jv) list"
    by (induction us arbitrary: m) (auto simp: update_conv' map_add_def split: option.splits)
  have rv: "map_of (rev (context_fields x)) f = map_of (context_fields x) f"
    by (auto simp: context_fields_def)
  have "map_of (fold AList.delete internal_fields args) f = (if f \<in> set internal_fields then None else map_of args f)"
    by (rule js_map.get_fold_del) simp
  with upd rv show ?thesis by (simp add: field_def inject_args_def split: option.splits)
qed

lemma ctx_of_session:
  assumes "x_keyId x = Some k" and "x_groupKeyIds x = Some gs"
  shows "c_keyId (extractRequestCtx (inject_args x args) mode) = JStr k"
    and "c_groupKeyIds (extractRequestCtx (inject_args x args) mode) = JArr (map JStr gs)"
  using assms
  by (cases mode; simp add: extractRequestCtx_def inject_args_field context_fields_def internal_fields_def
      js_str_def js_list_def jv_or_def Let_def)+

lemma ctx_of_master:
  assumes "x_keyId x = None"
  shows "c_keyId (extractRequestCtx (inject_args x args) mode) = JNull"
  using assms
  by (cases mode; simp add: extractRequestCtx_def inject_args_field context_fields_def internal_fields_def
      js_str_def jv_or_def Let_def)

section \<open>Case-based recall\<close>

record cbr_frag =
  cb_key :: "string option"
  cb_case :: "string option"
  cb_quarantine :: "string option"
  cb_resolution :: "string option"

datatype cbr_block = BTenant | BNoCase | BQuarantine | BUnresolved

definition cbr_check :: "string option \<Rightarrow> cbr_frag \<Rightarrow> cbr_block option" where
  "cbr_check keyId f =
     (if cb_key f \<noteq> keyId then Some BTenant
      else if \<not> truthy (cb_case f) then Some BNoCase
      else if cb_quarantine f = Some ''soft'' then Some BQuarantine
      else if truthy (cb_resolution f) \<and> cb_resolution f \<noteq> Some ''resolved'' then Some BUnresolved
      else None)"

text \<open>The fragments kept and the blocks recorded.\<close>

definition cbr_filter :: "raw_key \<Rightarrow> cbr_frag list \<Rightarrow> cbr_frag list \<times> cbr_block list" where
  "cbr_filter key fs =
     (let keyId = cbr_key key
      in (filter (\<lambda>f. cbr_check keyId f = None) fs, List.map_filter (cbr_check keyId) fs))"

lemma cbr_check_None:
  "cbr_check k f = None \<longleftrightarrow> cb_key f = k \<and> truthy (cb_case f) \<and> cb_quarantine f \<noteq> Some ''soft'' \<and>
     (\<not> truthy (cb_resolution f) \<or> cb_resolution f = Some ''resolved'')"
  by (simp add: cbr_check_def)

lemma cbr_check_other: "cb_key f \<noteq> k \<Longrightarrow> cbr_check k f = Some BTenant"
  by (simp add: cbr_check_def)

lemma length_filter_None:
  "length (filter (\<lambda>f. P f = None) xs) + length (List.map_filter P xs) = length xs"
  by (induction xs) (auto simp: map_filter_simps split: option.split)

text \<open>
  The case filter sees only the first key of a group: what it lets pass has the first key of the
  searching group, a case, no quarantine and no open resolution, and every candidate is kept or
  counted as blocked; so a member of the group that is not listed first loses all its own fragments,
  although the search itself admits the fragments of every member.
\<close>

theorem cbr_first_key_only:
  assumes "cbr_filter (KMany (Some k # ks)) fs = (kept, blocked)"
  shows "(\<forall>f\<in>set kept. f \<in> set fs \<and> cb_key f = Some k \<and> truthy (cb_case f) \<and> cb_quarantine f \<noteq> Some ''soft'' \<and>
            (\<not> truthy (cb_resolution f) \<or> cb_resolution f = Some ''resolved'')) \<and>
         length kept + length blocked = length fs \<and>
         (\<forall>f\<in>set fs. cb_key f \<noteq> Some k \<longrightarrow> f \<notin> set kept) \<and>
         (\<forall>own. own \<noteq> k \<longrightarrow> (\<forall>f\<in>set fs. cb_key f = Some own) \<longrightarrow> kept = [] \<and> blocked = replicate (length fs) BTenant)"
proof -
  have kept: "kept = filter (\<lambda>f. cbr_check (Some k) f = None) fs" and blocked: "blocked = List.map_filter (cbr_check (Some k)) fs"
    using assms by (simp_all add: cbr_filter_def Let_def)
  have "length kept + length blocked = length fs" unfolding kept blocked by (rule length_filter_None)
  moreover have "\<forall>own. own \<noteq> k \<longrightarrow> (\<forall>f\<in>set fs. cb_key f = Some own) \<longrightarrow> kept = [] \<and> blocked = replicate (length fs) BTenant"
  proof (intro allI impI)
    fix own assume "own \<noteq> k" "\<forall>f\<in>set fs. cb_key f = Some own"
    then show "kept = [] \<and> blocked = replicate (length fs) BTenant"
      unfolding kept blocked by (induction fs) (simp_all add: cbr_check_other map_filter_simps)
  qed
  moreover have "\<forall>f\<in>set kept. f \<in> set fs \<and> cb_key f = Some k \<and> truthy (cb_case f) \<and> cb_quarantine f \<noteq> Some ''soft'' \<and>
      (\<not> truthy (cb_resolution f) \<or> cb_resolution f = Some ''resolved'')"
    unfolding kept by (simp add: cbr_check_None)
  moreover have "\<forall>f\<in>set fs. cb_key f \<noteq> Some k \<longrightarrow> f \<notin> set kept" unfolding kept by (simp add: cbr_check_None)
  ultimately show ?thesis by (intro conjI)
qed

definition cbr_sample :: "cbr_frag" where
  "cbr_sample = \<lparr>cb_key = Some ''k2'', cb_case = Some ''c'', cb_quarantine = None, cb_resolution = None\<rparr>"

theorem cbr_first_key_only_witness:
  "cbr_filter (KMany [Some ''k1'', Some ''k2'']) [cbr_sample] = ([], [BTenant])"
proof -
  obtain kept blocked where f: "cbr_filter (KMany [Some ''k1'', Some ''k2'']) [cbr_sample] = (kept, blocked)" by fastforce
  have "kept = [] \<and> blocked = replicate (length [cbr_sample]) BTenant"
    by (rule cbr_first_key_only [OF f, THEN conjunct2, THEN conjunct2, THEN conjunct2, THEN spec [of _ "''k2''"],
          THEN mp, THEN mp]) (simp_all add: cbr_sample_def)
  with f show ?thesis by simp
qed

end
