(* ===== verification/Fragments.thy ===== *)
theory Fragments
  imports Scope Links
begin

text \<open>
  The fragment table and its writers: \<open>lib/memory/write/FragmentWriter.js\<close>, the reads by id of
  \<open>lib/memory/read/FragmentReader.js\<close>, \<open>supersede\<close> of \<open>lib/memory/write/ConflictResolver.js\<close>.

  A statement is a function on the store; a statement that the database refuses (CHECK constraint,
  unique index, foreign key) is \<open>Inl\<close> and changes nothing.  \<open>sha\<close> is the content hash.  \<open>valid\<close>
  stands for \<open>valid_to IS NULL\<close>; timestamps and search columns are left out.  The row of a fragment
  projects to the row that theory \<open>Links\<close> works on (\<open>graph_of\<close>), so that links are created by the same
  function as there.
\<close>

record fragment =
  fid :: string
  fcontent :: string
  ftopic :: string
  fkeywords :: "string list"
  ftype :: string
  importance :: rat
  content_hash :: string
  agent :: string
  ttl_tier :: string
  fkey :: "string option"
  is_anchor :: bool
  flinked :: "string list"
  valid :: bool
  idempotency_key :: "string option"
  assertion_status :: string

record version =
  v_fragment :: string
  v_content :: string
  v_topic :: string
  v_keywords :: "string list"
  v_type :: string
  v_importance :: rat
  amended_by :: string

record store =
  rows :: "fragment list"
  versions :: "version list"
  slinks :: "link_row list"

section \<open>Insertion\<close>

definition MAX_INITIAL_IMPORTANCE :: "(string \<times> rat) list" where
  "MAX_INITIAL_IMPORTANCE =
     [(''error'', 6 / 10), (''procedure'', 6 / 10), (''fact'', 7 / 10), (''decision'', 7 / 10), (''relation'', 7 / 10),
      (''preference'', 9 / 10), (''default'', 7 / 10)]"

definition sanitizeInsertImportance :: "string \<Rightarrow> string \<Rightarrow> rat \<Rightarrow> bool \<Rightarrow> rat" where
  "sanitizeInsertImportance c ty req anchor =
     (if anchor then req
      else let imp = min req (nullish_to (map_of MAX_INITIAL_IMPORTANCE ty) (7 / 10))
           in if length c < 20 then min imp (2 / 10) else imp)"

definition row_ok :: "fragment \<Rightarrow> bool" where
  "row_ok r \<longleftrightarrow>
     ftype r \<in> {''fact'', ''decision'', ''error'', ''preference'', ''procedure'', ''relation'', ''episode''} \<and>
     0 \<le> importance r \<and> importance r \<le> 1 \<and>
     ttl_tier r \<in> {''short'', ''hot'', ''warm'', ''cold'', ''permanent''} \<and>
     assertion_status r \<in> {''observed'', ''inferred'', ''verified'', ''rejected''}"

definition prepareInsertRow :: "(string \<Rightarrow> string) \<Rightarrow> fragment \<Rightarrow> fragment" where
  "prepareInsertRow sha f =
     f\<lparr>importance := sanitizeInsertImportance (fcontent f) (ftype f) (importance f) (is_anchor f),
       content_hash := sha (fcontent f),
       agent := (if agent f = [] then ''default'' else agent f),
       ttl_tier := (if ttl_tier f = [] then ''warm'' else ttl_tier f),
       assertion_status := (if assertion_status f = [] then ''observed'' else assertion_status f),
       valid := True\<rparr>"

text \<open>The two partial unique indexes on the hash, and those on the idempotency key.\<close>

definition same_hash :: "fragment \<Rightarrow> fragment \<Rightarrow> bool" where
  "same_hash r e \<longleftrightarrow> fkey e = fkey r \<and> content_hash e = content_hash r"

definition same_idem :: "fragment \<Rightarrow> fragment \<Rightarrow> bool" where
  "same_idem r e \<longleftrightarrow> fkey e = fkey r \<and> idempotency_key r \<noteq> None \<and> idempotency_key e = idempotency_key r"

definition promote :: "fragment \<Rightarrow> fragment \<Rightarrow> fragment" where
  "promote r e = e\<lparr>importance := max (importance e) (importance r), is_anchor := is_anchor e \<or> is_anchor r\<rparr>"

definition insert_frag :: "(string \<Rightarrow> string) \<Rightarrow> fragment \<Rightarrow> store \<Rightarrow> unit + (string \<times> store)" where
  "insert_frag sha f db =
     (let r = prepareInsertRow sha f
      in if \<not> row_ok r then Inl ()
         else case find (same_hash r) (rows db) of
           Some e \<Rightarrow> Inr (fid e, db\<lparr>rows := map (\<lambda>x. if same_hash r x then promote r x else x) (rows db)\<rparr>)
         | None \<Rightarrow>
             if list_ex (\<lambda>e. fid e = fid r \<or> same_idem r e) (rows db) then Inl ()
             else Inr (fid r, db\<lparr>rows := rows db @ [r]\<rparr>))"

section \<open>Amendment\<close>

record updates =
  u_content :: "string option"
  u_topic :: "string option"
  u_keywords :: "string list option"
  u_type :: "string option"
  u_importance :: "rat option"
  u_anchor :: "bool option"
  u_assertion :: "string option"

datatype update_result = Refused | Merged string | Updated fragment

definition archive :: "string \<Rightarrow> fragment \<Rightarrow> version" where
  "archive agentId e =
     \<lparr>v_fragment = fid e, v_content = fcontent e, v_topic = ftopic e, v_keywords = fkeywords e, v_type = ftype e,
      v_importance = importance e, amended_by = agentId\<rparr>"

definition archiveVersion :: "string \<Rightarrow> fragment \<Rightarrow> store \<Rightarrow> store" where
  "archiveVersion agentId e db = db\<lparr>versions := versions db @ [archive agentId e]\<rparr>"

definition set_fields :: "(string \<Rightarrow> string) \<Rightarrow> updates \<Rightarrow> fragment \<Rightarrow> fragment" where
  "set_fields sha u e =
     e\<lparr>fcontent := nullish_to (u_content u) (fcontent e),
       content_hash := (case u_content u of None \<Rightarrow> content_hash e | Some c \<Rightarrow> sha c),
       ftopic := nullish_to (u_topic u) (ftopic e),
       fkeywords := nullish_to (u_keywords u) (fkeywords e),
       ftype := nullish_to (u_type u) (ftype e),
       importance := nullish_to (u_importance u) (importance e),
       is_anchor := nullish_to (u_anchor u) (is_anchor e),
       assertion_status := nullish_to (u_assertion u) (assertion_status e)\<rparr>"

definition no_updates :: "updates \<Rightarrow> bool" where
  "no_updates u \<longleftrightarrow>
     u_content u = None \<and> u_topic u = None \<and> u_keywords u = None \<and> u_type u = None \<and> u_importance u = None \<and>
     u_anchor u = None \<and> u_assertion u = None"

definition duplicate_of :: "(string \<Rightarrow> string) \<Rightarrow> updates \<Rightarrow> fragment \<Rightarrow> store \<Rightarrow> fragment option" where
  "duplicate_of sha u e db =
     (case u_content u of
        None \<Rightarrow> None
      | Some c \<Rightarrow> find (\<lambda>d. content_hash d = sha c \<and> fid d \<noteq> fid e \<and> fkey d = fkey e) (rows db))"

definition update_frag ::
  "(string \<Rightarrow> string) \<Rightarrow> string \<Rightarrow> updates \<Rightarrow> string \<Rightarrow> string option \<Rightarrow> store \<Rightarrow> unit + (update_result \<times> store)" where
  "update_frag sha i u agentId keyId db =
     (case find (\<lambda>e. fid e = i) (rows db) of
        None \<Rightarrow> Inr (Refused, db)
      | Some e \<Rightarrow>
          if truthy keyId \<and> fkey e \<noteq> keyId then Inr (Refused, db)
          else
            case duplicate_of sha u e db of
              Some d \<Rightarrow> Inr (Merged (fid d), db)
            | None \<Rightarrow>
                if no_updates u then Inr (Updated e, db)
                else
                  let e' = set_fields sha u e
                  in if \<not> row_ok e' then Inl ()
                     else Inr (Updated e',
                       (archiveVersion agentId e db)\<lparr>rows := map (\<lambda>x. if fid x = i then set_fields sha u x else x) (rows db)\<rparr>))"

definition patchAssertion :: "string \<Rightarrow> string \<Rightarrow> string option \<Rightarrow> store \<Rightarrow> unit + (bool \<times> store)" where
  "patchAssertion i st keyId db =
     (let hit = (\<lambda>e. fid e = i \<and> (keyId = None \<or> fkey e = keyId))
      in if list_ex hit (rows db) \<and> st \<notin> {''observed'', ''inferred'', ''verified'', ''rejected''} then Inl ()
         else Inr (list_ex hit (rows db), db\<lparr>rows := map (\<lambda>e. if hit e then e\<lparr>assertion_status := st\<rparr> else e) (rows db)\<rparr>))"

definition updateTtlTier :: "string \<Rightarrow> string \<Rightarrow> string option \<Rightarrow> store \<Rightarrow> unit + (bool \<times> store)" where
  "updateTtlTier i tier keyId db =
     (let hit = (\<lambda>e. fid e = i \<and> (\<not> truthy keyId \<or> fkey e = keyId))
      in if list_ex hit (rows db) \<and> tier \<notin> {''short'', ''hot'', ''warm'', ''cold'', ''permanent''} then Inl ()
         else Inr (list_ex hit (rows db), db\<lparr>rows := map (\<lambda>e. if hit e then e\<lparr>ttl_tier := tier\<rparr> else e) (rows db)\<rparr>))"

section \<open>Deletion\<close>

text \<open>The links of the fragments go, and their ids leave every \<open>linked_to\<close>.\<close>

definition unlink :: "string list \<Rightarrow> store \<Rightarrow> store" where
  "unlink ids db =
     db\<lparr>slinks := filter (\<lambda>l. l_from l \<notin> set ids \<and> l_to l \<notin> set ids) (slinks db),
        rows := map (\<lambda>e. e\<lparr>flinked := filter (\<lambda>x. x \<notin> set ids) (flinked e)\<rparr>) (rows db)\<rparr>"

definition delete_frag :: "string \<Rightarrow> string option \<Rightarrow> store \<Rightarrow> bool \<times> store" where
  "delete_frag i keyId db =
     (if truthy keyId \<and> \<not> list_ex (\<lambda>e. fid e = i \<and> fkey e = keyId) (rows db) then (False, db)
      else (list_ex (\<lambda>e. fid e = i) (rows db),
            (unlink [i] db)\<lparr>rows := filter (\<lambda>e. fid e \<noteq> i) (rows (unlink [i] db))\<rparr>))"

definition deleteMany :: "string list \<Rightarrow> string option \<Rightarrow> store \<Rightarrow> nat \<times> store" where
  "deleteMany ids keyId db =
     (if ids = [] then (0, db)
      else let hit = (\<lambda>e. fid e \<in> set ids \<and> (\<not> truthy keyId \<or> fkey e = keyId)); db1 = unlink ids db
           in (length (filter hit (rows db1)), db1\<lparr>rows := filter (\<lambda>e. \<not> hit e) (rows db1)\<rparr>))"

definition topic_rows :: "string \<Rightarrow> string \<Rightarrow> string option \<Rightarrow> store \<Rightarrow> fragment list" where
  "topic_rows topic agentId keyId db =
     filter (\<lambda>e. ftopic e = topic \<and> (agent e = agentId \<or> agent e = ''default'') \<and> (\<not> truthy keyId \<or> fkey e = keyId)) (rows db)"

text \<open>The fragments deleted and the number protected.\<close>

definition deleteByTopic ::
  "string \<Rightarrow> string \<Rightarrow> string option \<Rightarrow> bool \<Rightarrow> bool \<Rightarrow> store \<Rightarrow> (fragment list \<times> nat) \<times> store" where
  "deleteByTopic topic agentId keyId force dryRun db =
     (let found = topic_rows topic agentId keyId db;
          eligible = filter (\<lambda>e. force \<or> ttl_tier e \<noteq> ''permanent'') found;
          protected = length found - length eligible;
          ids = map fid eligible
      in if dryRun \<or> ids = [] then ((eligible, protected), db)
         else ((eligible, protected),
               (unlink ids db)\<lparr>rows := filter (\<lambda>e. fid e \<notin> set ids) (rows (unlink ids db))\<rparr>))"

text \<open>\<open>deleteByAgent\<close> leaves the links to the cascade of the foreign keys and does not touch \<open>linked_to\<close>.\<close>

definition deleteByAgent :: "string \<Rightarrow> store \<Rightarrow> unit + (nat \<times> store)" where
  "deleteByAgent agentId db =
     (if agentId = [] \<or> agentId = ''default'' then Inl ()
      else
        let gone = filter (\<lambda>e. agent e = agentId) (rows db); ids = map fid gone
        in Inr (length gone,
             db\<lparr>rows := filter (\<lambda>e. agent e \<noteq> agentId) (rows db),
                slinks := filter (\<lambda>l. l_from l \<notin> set ids \<and> l_to l \<notin> set ids) (slinks db)\<rparr>))"

section \<open>Links between fragments\<close>

definition graph_of :: "store \<Rightarrow> graph_db" where
  "graph_of db =
     \<lparr>frags = map (\<lambda>e. \<lparr>f_id = fid e, f_key = fkey e, f_live = valid e, linked_to = flinked e\<rparr>) (rows db), links = slinks db\<rparr>"

definition with_graph :: "graph_db \<Rightarrow> store \<Rightarrow> store" where
  "with_graph g db = db\<lparr>rows := map2 (\<lambda>e f. e\<lparr>flinked := linked_to f\<rparr>) (rows db) (frags g), slinks := links g\<rparr>"

definition store_link :: "string \<Rightarrow> string \<Rightarrow> string \<Rightarrow> rat \<Rightarrow> store \<Rightarrow> unit + store" where
  "store_link a b r w db = map_sum id (\<lambda>g. with_graph g db) (createLink a b r w (graph_of db))"

definition supersede :: "string \<Rightarrow> string \<Rightarrow> string option \<Rightarrow> store \<Rightarrow> unit + store" where
  "supersede oldId newId keyId db =
     map_sum id
       (\<lambda>db1. db1\<lparr>rows := map (\<lambda>e. if fid e = oldId \<and> valid e \<and> (keyId = None \<or> fkey e = keyId)
                                  then e\<lparr>valid := False, importance := max (5 / 100) (importance e * (1 / 2))\<rparr> else e) (rows db1)\<rparr>)
       (store_link oldId newId ''superseded_by'' 1 db)"

section \<open>Reading by id\<close>

definition agent_scope :: "string \<Rightarrow> bool \<Rightarrow> fragment \<Rightarrow> bool" where
  "agent_scope agentId peers e \<longleftrightarrow> peers \<or> agent e = agentId \<or> agent e = ''default''"

definition getById ::
  "string \<Rightarrow> string \<Rightarrow> string option \<Rightarrow> string list option \<Rightarrow> bool \<Rightarrow> bool \<Rightarrow> store \<Rightarrow> fragment option" where
  "getById i agentId keyId groups peers superseded db =
     (let (ps, cl) = keyScopeClause [BText i, BText agentId] ''key_id'' keyId groups
      in find (\<lambda>e. placeholder ps 1 = Some (BText (fid e)) \<and> agent_scope agentId peers e \<and> (superseded \<or> valid e) \<and>
                   holds ps cl (fkey e)) (rows db))"

definition getByIds ::
  "string list \<Rightarrow> string \<Rightarrow> string option \<Rightarrow> string list option \<Rightarrow> bool \<Rightarrow> bool \<Rightarrow> store \<Rightarrow> fragment list" where
  "getByIds ids agentId keyId groups peers superseded db =
     (if ids = [] then []
      else let (ps, cl) = keyScopeClause [BArr ids, BText agentId] ''key_id'' keyId groups
           in filter (\<lambda>e. fid e \<in> set ids \<and> agent_scope agentId peers e \<and> (superseded \<or> valid e) \<and> holds ps cl (fkey e))
                (rows db))"

definition findByIdempotencyKey :: "string \<Rightarrow> string option \<Rightarrow> store \<Rightarrow> fragment option" where
  "findByIdempotencyKey k keyId db = find (\<lambda>e. idempotency_key e = Some k \<and> fkey e = keyId \<and> valid e) (rows db)"

section \<open>The invariant of the table\<close>

definition rows_ok :: "(string \<Rightarrow> string) \<Rightarrow> fragment list \<Rightarrow> bool" where
  "rows_ok sha rs \<longleftrightarrow>
     distinct (map fid rs) \<and>
     (\<forall>x\<in>set rs. \<forall>y\<in>set rs. same_hash x y \<longrightarrow> fid x = fid y) \<and>
     (\<forall>x\<in>set rs. \<forall>y\<in>set rs. same_idem x y \<longrightarrow> fid x = fid y) \<and>
     (\<forall>x\<in>set rs. row_ok x \<and> content_hash x = sha (fcontent x))"

definition links_ok :: "string set \<Rightarrow> link_row list \<Rightarrow> bool" where
  "links_ok ids ls \<longleftrightarrow> (\<forall>l\<in>set ls. l_from l \<in> ids \<and> l_to l \<in> ids)"

definition store_ok :: "(string \<Rightarrow> string) \<Rightarrow> store \<Rightarrow> bool" where
  "store_ok sha db \<longleftrightarrow> rows_ok sha (rows db) \<and> links_ok (fid ` set (rows db)) (slinks db)"

text \<open>What an operation that does not change content keeps of a row.\<close>

definition same_core :: "fragment \<Rightarrow> fragment \<Rightarrow> bool" where
  "same_core x y \<longleftrightarrow>
     fid x = fid y \<and> fkey x = fkey y \<and> fcontent x = fcontent y \<and> content_hash x = content_hash y \<and>
     idempotency_key x = idempotency_key y"

lemma rows_ok_map:
  assumes "rows_ok sha rs" and "\<And>e. e \<in> set rs \<Longrightarrow> same_core (g e) e \<and> row_ok (g e)"
  shows "rows_ok sha (map g rs)"
proof -
  have core: "same_core (g e) e" "row_ok (g e)" if "e \<in> set rs" for e using assms(2) [OF that] by simp_all
  have "map fid (map g rs) = map fid rs" using core(1) by (simp add: same_core_def)
  then have "distinct (map fid (map g rs))" using assms(1) by (simp only: rows_ok_def)
  moreover have "fid x = fid y" if "same_hash x y \<or> same_idem x y" and m: "x \<in> set (map g rs)" "y \<in> set (map g rs)" for x y
  proof -
    from m obtain x' y' where xy: "x = g x'" "y = g y'" "x' \<in> set rs" "y' \<in> set rs" by auto
    with core(1) [of x'] core(1) [of y'] have "same_hash x y = same_hash x' y'" "same_idem x y = same_idem x' y'"
      "fid x = fid x'" "fid y = fid y'" by (simp_all add: same_core_def same_hash_def same_idem_def)
    with that(1) xy(3,4) assms(1) show ?thesis unfolding rows_ok_def by metis
  qed
  moreover have "row_ok x \<and> content_hash x = sha (fcontent x)" if "x \<in> set (map g rs)" for x
    using that core assms(1) by (auto simp: rows_ok_def same_core_def)
  ultimately show ?thesis unfolding rows_ok_def by blast
qed

lemma rows_ok_filter: "rows_ok sha rs \<Longrightarrow> rows_ok sha (filter P rs)"
  by (simp add: rows_ok_def distinct_map_filter)

lemma rows_ok_unique: "rows_ok sha rs \<Longrightarrow> x \<in> set rs \<Longrightarrow> y \<in> set rs \<Longrightarrow> fid x = fid y \<Longrightarrow> x = y"
  by (auto simp: rows_ok_def distinct_map inj_on_def)

lemma rows_ok_snoc:
  assumes "rows_ok sha rs" and "row_ok r" and "content_hash r = sha (fcontent r)"
    and "\<not> list_ex (\<lambda>e. fid e = fid r \<or> same_idem r e) rs" and "find (same_hash r) rs = None"
  shows "rows_ok sha (rs @ [r])"
proof -
  have new: "fid e \<noteq> fid r" "\<not> same_idem r e" "\<not> same_hash r e" if "e \<in> set rs" for e
    using assms(4,5) that by (auto simp: list_ex_iff find_None_iff)
  have "same_hash x y = same_hash y x" "same_idem x y \<Longrightarrow> same_idem y x" for x y
    by (auto simp: same_hash_def same_idem_def)
  with new have new': "\<not> same_idem e r" "\<not> same_hash e r" if "e \<in> set rs" for e using that by blast+
  have "distinct (map fid (rs @ [r]))" using assms(1) new(1) by (auto simp: rows_ok_def dest: sym)
  moreover have "fid x = fid y" if "same_hash x y \<or> same_idem x y" "x \<in> set (rs @ [r])" "y \<in> set (rs @ [r])" for x y
  proof -
    have "x \<in> set rs \<or> x = r" "y \<in> set rs \<or> y = r" using that(2,3) by auto
    then show ?thesis using that(1) new new' assms(1) by (elim disjE) (auto simp: rows_ok_def)
  qed
  moreover have "row_ok x \<and> content_hash x = sha (fcontent x)" if "x \<in> set (rs @ [r])" for x
    using that assms(1-3) by (auto simp: rows_ok_def)
  ultimately show ?thesis unfolding rows_ok_def by blast
qed

lemma row_ok_update:
  "row_ok e \<Longrightarrow> 0 \<le> i \<Longrightarrow> i \<le> 1 \<Longrightarrow> row_ok (e\<lparr>importance := i, is_anchor := b\<rparr>)"
  by (simp add: row_ok_def)

lemma insert_frag_ok:
  assumes "store_ok sha db" and "insert_frag sha f db = Inr (i, db')"
  shows "store_ok sha db'"
proof -
  define r where "r = prepareInsertRow sha f"
  have r: "row_ok r" "content_hash r = sha (fcontent r)"
    using assms(2) by (auto simp: insert_frag_def Let_def r_def prepareInsertRow_def split: if_split_asm)
  have rs: "rows_ok sha (rows db)" and ls: "links_ok (fid ` set (rows db)) (slinks db)"
    using assms(1) by (simp_all add: store_ok_def)
  show ?thesis
  proof (cases "find (same_hash r) (rows db)")
    case None
    then have db': "db' = db\<lparr>rows := rows db @ [r]\<rparr>" "\<not> list_ex (\<lambda>e. fid e = fid r \<or> same_idem r e) (rows db)"
      using assms(2) r(1) by (auto simp: insert_frag_def Let_def r_def [symmetric] split: if_split_asm)
    show ?thesis using rows_ok_snoc [OF rs r db'(2) None] ls by (auto simp: store_ok_def db'(1) links_ok_def)
  next
    case (Some e)
    let ?g = "\<lambda>x. if same_hash r x then promote r x else x"
    have db': "db' = db\<lparr>rows := map ?g (rows db)\<rparr>"
      using assms(2) Some r(1) by (auto simp: insert_frag_def Let_def r_def [symmetric])
    have "same_core (?g x) x \<and> row_ok (?g x)" if "x \<in> set (rows db)" for x
    proof -
      have "row_ok x" using rs that by (simp add: rows_ok_def)
      with r(1) show ?thesis by (auto simp: same_core_def promote_def row_ok_def max_def)
    qed
    then have "rows_ok sha (map ?g (rows db))" by (rule rows_ok_map [OF rs])
    moreover have "map fid (map ?g (rows db)) = map fid (rows db)" by (simp add: promote_def)
    then have "fid ` set (map ?g (rows db)) = fid ` set (rows db)" by (metis set_map)
    ultimately show ?thesis using ls by (simp add: store_ok_def db')
  qed
qed

text \<open>Every other operation changes rows in place or removes rows.\<close>

lemma store_ok_in_place:
  assumes "store_ok sha db" and "\<And>e. e \<in> set (rows db) \<Longrightarrow> same_core (g e) e \<and> row_ok (g e)"
    and "links_ok (fid ` set (rows db)) ls" and "rows db' = map g (rows db)" and "slinks db' = ls"
  shows "store_ok sha db'"
proof -
  have "map fid (map g (rows db)) = map fid (rows db)" using assms(2) by (simp add: same_core_def)
  then have "fid ` set (map g (rows db)) = fid ` set (rows db)" by (metis set_map)
  moreover have "rows_ok sha (map g (rows db))"
    by (rule rows_ok_map) (use assms(1,2) in \<open>simp_all add: store_ok_def\<close>)
  ultimately show ?thesis using assms(3-5) by (simp add: store_ok_def)
qed

lemma store_ok_remove:
  assumes "store_ok sha db" and "\<And>e. e \<in> set (rows db) \<Longrightarrow> same_core (g e) e \<and> row_ok (g e)"
    and "rows db' = filter P (map g (rows db))" and "set (slinks db') \<subseteq> set (slinks db)"
    and "\<And>e l. e \<in> set (rows db) \<Longrightarrow> \<not> P (g e) \<Longrightarrow> l \<in> set (slinks db') \<Longrightarrow> l_from l \<noteq> fid e \<and> l_to l \<noteq> fid e"
  shows "store_ok sha db'"
proof -
  have "rows_ok sha (rows db')" unfolding assms(3)
    by (intro rows_ok_filter rows_ok_map) (use assms(1,2) in \<open>simp_all add: store_ok_def\<close>)
  moreover have "links_ok (fid ` set (rows db')) (slinks db')"
    unfolding links_ok_def
  proof (intro ballI conjI)
    fix l assume l: "l \<in> set (slinks db')"
    have kept: "i \<in> fid ` set (rows db')" if "i \<in> fid ` set (rows db)" "i = l_from l \<or> i = l_to l" for i
    proof -
      from that obtain e where e: "e \<in> set (rows db)" "i = fid e" by auto
      have "P (g e)"
      proof (rule ccontr)
        assume "\<not> P (g e)"
        from assms(5) [OF e(1) this l] that(2) e(2) show False by auto
      qed
      then have "g e \<in> set (rows db')" using e(1) by (simp add: assms(3))
      moreover have "fid (g e) = i" using e assms(2) [OF e(1)] by (simp add: same_core_def)
      ultimately show ?thesis by blast
    qed
    have "l_from l \<in> fid ` set (rows db)" "l_to l \<in> fid ` set (rows db)"
      using assms(1,4) l by (auto simp: store_ok_def links_ok_def)
    then show "l_from l \<in> fid ` set (rows db')" "l_to l \<in> fid ` set (rows db')" using kept by auto
  qed
  ultimately show ?thesis by (simp add: store_ok_def)
qed

lemma store_ok_row: "store_ok sha db \<Longrightarrow> e \<in> set (rows db) \<Longrightarrow> row_ok e"
  by (simp add: store_ok_def rows_ok_def)

lemma store_ok_links: "store_ok sha db \<Longrightarrow> links_ok (fid ` set (rows db)) (slinks db)"
  by (simp add: store_ok_def)

lemma unlink_sel [simp]:
  "rows (unlink ids db) = map (\<lambda>e. e\<lparr>flinked := filter (\<lambda>x. x \<notin> set ids) (flinked e)\<rparr>) (rows db)"
  "slinks (unlink ids db) = filter (\<lambda>l. l_from l \<notin> set ids \<and> l_to l \<notin> set ids) (slinks db)"
  "versions (unlink ids db) = versions db"
  by (simp_all add: unlink_def)

lemma store_ok_unlink:
  assumes ok: "store_ok sha db" and rows: "rows db' = filter P (rows (unlink ids db))"
    and links: "slinks db' = slinks (unlink ids db)" and P: "\<And>e. fid e \<notin> set ids \<Longrightarrow> P e"
  shows "store_ok sha db'"
proof (rule store_ok_remove [OF ok _ rows [unfolded unlink_sel]])
  show "same_core (e\<lparr>flinked := filter (\<lambda>x. x \<notin> set ids) (flinked e)\<rparr>) e \<and>
      row_ok (e\<lparr>flinked := filter (\<lambda>x. x \<notin> set ids) (flinked e)\<rparr>)" if "e \<in> set (rows db)" for e
    using store_ok_row [OF ok that] by (simp add: same_core_def row_ok_def)
  show "set (slinks db') \<subseteq> set (slinks db)" unfolding links by auto
  show "l_from l \<noteq> fid e \<and> l_to l \<noteq> fid e"
    if "\<not> P (e\<lparr>flinked := filter (\<lambda>x. x \<notin> set ids) (flinked e)\<rparr>)" "l \<in> set (slinks db')" for e l
  proof -
    have "fid e \<in> set ids" using P [of "e\<lparr>flinked := filter (\<lambda>x. x \<notin> set ids) (flinked e)\<rparr>"] that(1) by auto
    with that(2) show ?thesis unfolding links unlink_sel by auto
  qed
qed

lemma delete_ok:
  assumes "store_ok sha db"
  shows "store_ok sha (snd (delete_frag i keyId db))"
proof (cases "truthy keyId \<and> \<not> list_ex (\<lambda>e. fid e = i \<and> fkey e = keyId) (rows db)")
  case True
  then have "delete_frag i keyId db = (False, db)" unfolding delete_frag_def by (rule if_P)
  with assms show ?thesis by simp
next
  case False
  then have "snd (delete_frag i keyId db) = (unlink [i] db)\<lparr>rows := filter (\<lambda>e. fid e \<noteq> i) (rows (unlink [i] db))\<rparr>"
    unfolding delete_frag_def by (simp only: if_False snd_conv)
  then show ?thesis by (intro store_ok_unlink [OF assms, of _ "\<lambda>e. fid e \<noteq> i" "[i]"]) simp_all
qed

lemma deleteMany_ok:
  assumes "store_ok sha db"
  shows "store_ok sha (snd (deleteMany ids keyId db))"
proof (cases "ids = []")
  case False
  then show ?thesis
    by (intro store_ok_unlink [OF assms, of _ "\<lambda>e. \<not> (fid e \<in> set ids \<and> (\<not> truthy keyId \<or> fkey e = keyId))" ids])
      (simp_all add: deleteMany_def Let_def)
qed (simp add: deleteMany_def assms)

lemma deleteByTopic_ok:
  assumes "store_ok sha db"
  shows "store_ok sha (snd (deleteByTopic t a keyId force dry db))"
proof -
  let ?ids = "map fid (filter (\<lambda>e. force \<or> ttl_tier e \<noteq> ''permanent'') (topic_rows t a keyId db))"
  show ?thesis
  proof (cases "dry \<or> ?ids = []")
    case True
    with assms show ?thesis by (auto simp: deleteByTopic_def Let_def)
  next
    case False
    then show ?thesis
      by (intro store_ok_unlink [OF assms, of _ "\<lambda>e. fid e \<notin> set ?ids" ?ids]) (simp_all add: deleteByTopic_def Let_def)
  qed
qed

end
