(* ===== verification/Tenancy.thy ===== *)
theory Tenancy
  imports Fragments
begin

text \<open>
  The steps of the fragment table under a key, the invariant they keep, and what a key can and cannot
  do to the fragments of another key.
\<close>

section \<open>Links and amendments keep the invariant\<close>

lemma map2_map: "map2 f xs (map g xs) = map (\<lambda>x. f x (g x)) xs"
  by (induction xs) auto

text \<open>What creating a link does to the rows.\<close>

definition link_row :: "string \<Rightarrow> string \<Rightarrow> fragment \<Rightarrow> fragment" where
  "link_row i x e = (if fid e = i \<and> x \<notin> set (flinked e) then e\<lparr>flinked := flinked e @ [x]\<rparr> else e)"

lemma link_row_simps [simp]:
  "fid (link_row i x e) = fid e" "fkey (link_row i x e) = fkey e" "valid (link_row i x e) = valid e"
  "importance (link_row i x e) = importance e" "row_ok (link_row i x e) = row_ok e"
  "same_core (link_row i x e) e" "agent (link_row i x e) = agent e" "ttl_tier (link_row i x e) = ttl_tier e"
  "(link_row i x e)\<lparr>flinked := ys\<rparr> = e\<lparr>flinked := ys\<rparr>"
  by (auto simp: link_row_def row_ok_def same_core_def)

lemma store_link_result:
  assumes "store_link a b r w db = Inr db'"
  shows "rows db' = map (\<lambda>e. link_row b a (link_row a b e)) (rows db)"
    and "slinks db' = upsert_link a b r w (slinks db)"
    and "versions db' = versions db"
    and "a \<in> fid ` set (rows db)" and "b \<in> fid ` set (rows db)"
proof -
  from assms obtain g where g: "createLink a b r w (graph_of db) = Inr g" "db' = with_graph g db"
    by (cases "createLink a b r w (graph_of db)") (simp_all add: store_link_def)
  have ok: "link_allowed a b r (graph_of db)" and
    gr: "g = \<lparr>frags = append_linked b a (append_linked a b (frags (graph_of db))), links = upsert_link a b r w (slinks db)\<rparr>"
    using g(1) by (auto simp: createLink_def graph_of_def split: if_split_asm)
  let ?row = "\<lambda>e. \<lparr>f_id = fid e, f_key = fkey e, f_live = valid e, linked_to = flinked e\<rparr>"
  have "linked_to (link_upd b a (link_upd a b (?row e))) = flinked (link_row b a (link_row a b e))" for e
    by (auto simp: link_upd_def link_row_def)
  then have "(e\<lparr>flinked := linked_to (link_upd b a (link_upd a b (?row e)))\<rparr>) = link_row b a (link_row a b e)" for e
    by (simp add: link_row_def)
  then show "rows db' = map (\<lambda>e. link_row b a (link_row a b e)) (rows db)"
    by (simp add: g(2) with_graph_def gr append_linked_upd graph_of_def o_def map2_map)
  show "slinks db' = upsert_link a b r w (slinks db)" "versions db' = versions db"
    by (simp_all add: g(2) with_graph_def gr)
  show "a \<in> fid ` set (rows db)" "b \<in> fid ` set (rows db)"
    using ok by (auto simp: link_allowed_def frag_exists_def graph_of_def list_ex_iff)
qed

lemma links_ok_upsert:
  "links_ok ids ls \<Longrightarrow> a \<in> ids \<Longrightarrow> b \<in> ids \<Longrightarrow> links_ok ids (upsert_link a b r w ls)"
  by (auto simp: links_ok_def upsert_link_def)

lemma upsert_link_mem: "\<exists>l\<in>set (upsert_link a b r w ls). l_from l = a \<and> l_to l = b \<and> relation l = r"
proof (cases "list_ex (\<lambda>l. l_from l = a \<and> l_to l = b) ls")
  case True
  then obtain l where l: "l \<in> set ls" "l_from l = a" "l_to l = b" by (auto simp: list_ex_iff)
  then have "l\<lparr>relation := r, weight := max (weight l) w\<rparr> \<in> set (upsert_link a b r w ls)"
    unfolding upsert_link_def using True by force
  with l show ?thesis by (intro bexI) auto
qed (auto simp: upsert_link_def)

lemma store_link_ok:
  assumes "store_ok sha db" and "store_link a b r w db = Inr db'"
  shows "store_ok sha db'"
proof (rule store_ok_in_place [OF assms(1), where g = "\<lambda>e. link_row b a (link_row a b e)"])
  note res = store_link_result [OF assms(2)]
  show "rows db' = map (\<lambda>e. link_row b a (link_row a b e)) (rows db)" by (rule res)
  show "slinks db' = upsert_link a b r w (slinks db)" by (rule res)
  show "links_ok (fid ` set (rows db)) (upsert_link a b r w (slinks db))"
    by (rule links_ok_upsert [OF store_ok_links [OF assms(1)] res(4,5)])
  fix e assume "e \<in> set (rows db)"
  then show "same_core (link_row b a (link_row a b e)) e \<and> row_ok (link_row b a (link_row a b e))"
    using store_ok_row [OF assms(1)] by (auto simp: same_core_def link_row_def row_ok_def)
qed

definition expire_row :: "string \<Rightarrow> string option \<Rightarrow> fragment \<Rightarrow> fragment" where
  "expire_row i keyId e =
     (if fid e = i \<and> valid e \<and> (keyId = None \<or> fkey e = keyId)
      then e\<lparr>valid := False, importance := max (5 / 100) (importance e * (1 / 2))\<rparr> else e)"

lemma supersede_result:
  assumes "supersede a b keyId db = Inr db'"
  obtains db1 where "store_link a b ''superseded_by'' 1 db = Inr db1" "rows db' = map (expire_row a keyId) (rows db1)"
    "slinks db' = slinks db1" "versions db' = versions db1"
  using assms by (cases "store_link a b ''superseded_by'' 1 db") (auto simp: supersede_def expire_row_def [abs_def])

lemma expire_row_ok: "row_ok e \<Longrightarrow> same_core (expire_row i k e) e \<and> row_ok (expire_row i k e)"
  by (auto simp: expire_row_def same_core_def row_ok_def max_def)

lemma supersede_ok:
  assumes "store_ok sha db" and "supersede a b keyId db = Inr db'"
  shows "store_ok sha db'"
proof -
  obtain db1 where db1: "store_link a b ''superseded_by'' 1 db = Inr db1" "rows db' = map (expire_row a keyId) (rows db1)"
    "slinks db' = slinks db1" "versions db' = versions db1"
    using supersede_result [OF assms(2)] by blast
  have ok: "store_ok sha db1" by (rule store_link_ok [OF assms(1) db1(1)])
  show ?thesis
    by (rule store_ok_in_place [OF ok _ store_ok_links [OF ok] db1(2) db1(3)])
      (use store_ok_row [OF ok] expire_row_ok in blast)
qed

text \<open>The cases of an amendment.\<close>

lemma update_frag_cases:
  assumes "update_frag sha i u a keyId db = Inr (r, db')"
  obtains (same) "db' = db"
  | (changed) e where "find (\<lambda>e. fid e = i) (rows db) = Some e" "r = Updated (set_fields sha u e)"
      "\<not> truthy keyId \<or> fkey e = keyId" "duplicate_of sha u e db = None" "row_ok (set_fields sha u e)"
      "versions db' = versions db @ [archive a e]" "slinks db' = slinks db"
      "rows db' = map (\<lambda>x. if fid x = i then set_fields sha u x else x) (rows db)"
proof -
  show thesis
  proof (cases "db' = db")
    case True
    then show ?thesis by (rule same)
  next
    case False
    with assms obtain e where e: "find (\<lambda>e. fid e = i) (rows db) = Some e" "\<not> (truthy keyId \<and> fkey e \<noteq> keyId)"
      "duplicate_of sha u e db = None" "\<not> no_updates u" "row_ok (set_fields sha u e)"
      "r = Updated (set_fields sha u e)"
      "db' = (archiveVersion a e db)\<lparr>rows := map (\<lambda>x. if fid x = i then set_fields sha u x else x) (rows db)\<rparr>"
      by (auto simp: update_frag_def Let_def split: option.split_asm if_split_asm)
    show ?thesis by (rule changed [OF e(1)]) (use e in \<open>simp_all add: archiveVersion_def\<close>)
  qed
qed

lemma set_fields_sel [simp]:
  "fid (set_fields sha u e) = fid e" "fkey (set_fields sha u e) = fkey e" "valid (set_fields sha u e) = valid e"
  "agent (set_fields sha u e) = agent e" "flinked (set_fields sha u e) = flinked e"
  "idempotency_key (set_fields sha u e) = idempotency_key e"
  by (simp_all add: set_fields_def)

lemma update_ok:
  assumes "store_ok sha db" and "update_frag sha i u a keyId db = Inr (r, db')"
  shows "store_ok sha db'"
  using assms(2)
proof (cases rule: update_frag_cases)
  case same
  with assms(1) show ?thesis by simp
next
  case (changed e)
  let ?g = "\<lambda>x. if fid x = i then set_fields sha u x else x"
  have rs: "rows_ok sha (rows db)" and ls: "links_ok (fid ` set (rows db)) (slinks db)"
    using assms(1) by (simp_all add: store_ok_def)
  have e: "e \<in> set (rows db)" "fid e = i" using find_SomeD [OF changed(1)] by simp_all
  have only: "?g x = (if x = e then set_fields sha u e else x)" if "x \<in> set (rows db)" for x
    using rows_ok_unique [OF rs that e(1)] e(2) by metis
  have ids: "map fid (map ?g (rows db)) = map fid (rows db)" by simp
  have hash: "content_hash (set_fields sha u e) = sha (fcontent (set_fields sha u e))"
    using rs e by (auto simp: set_fields_def rows_ok_def split: option.split)
  have nodup: "\<not> same_hash (set_fields sha u e) x" if "x \<in> set (rows db)" "x \<noteq> e" for x
  proof
    assume h: "same_hash (set_fields sha u e) x"
    have ne: "fid x \<noteq> fid e" using rows_ok_unique [OF rs that(1) e(1)] that(2) by blast
    show False
    proof (cases "u_content u")
      case None
      with h have "same_hash e x" by (simp add: same_hash_def set_fields_def)
      with rs that(1) e(1) ne show False unfolding rows_ok_def by metis
    next
      case (Some c)
      with changed(4) have "\<not> (content_hash x = sha c \<and> fid x \<noteq> fid e \<and> fkey x = fkey e)"
        using that(1) by (simp add: duplicate_of_def find_None_iff)
      with h ne Some show False by (simp add: same_hash_def set_fields_def)
    qed
  qed
  have pair: "fid x = fid y"
    if "same_hash (?g x) (?g y) \<or> same_idem (?g x) (?g y)" and m: "x \<in> set (rows db)" "y \<in> set (rows db)" for x y
  proof -
    have "same_idem (?g x) (?g y) = same_idem x y" by (simp add: same_idem_def)
    moreover have "x = y \<or> same_hash x y" if h: "same_hash (?g x) (?g y)"
    proof (rule ccontr)
      assume n: "\<not> (x = y \<or> same_hash x y)"
      then consider "x = e" "y \<noteq> e" | "x \<noteq> e" "y = e" | "x \<noteq> e" "y \<noteq> e" by blast
      then show False
      proof cases
        case 1
        with h only [OF m(1)] only [OF m(2)] have "same_hash (set_fields sha u e) y" by simp
        with nodup [OF m(2) 1(2)] show False by blast
      next
        case 2
        with h only [OF m(1)] only [OF m(2)] have "same_hash x (set_fields sha u e)" by simp
        then have "same_hash (set_fields sha u e) x" by (simp add: same_hash_def)
        with nodup [OF m(1) 2(1)] show False by blast
      next
        case 3
        with h only [OF m(1)] only [OF m(2)] have "same_hash x y" by simp
        with n show False by blast
      qed
    qed
    ultimately show ?thesis using that rs unfolding rows_ok_def by metis
  qed
  have "rows_ok sha (map ?g (rows db))"
    unfolding rows_ok_def ids
  proof (intro conjI ballI impI)
    show "distinct (map fid (rows db))" using rs by (simp add: rows_ok_def)
    fix x' y' assume "x' \<in> set (map ?g (rows db))" "y' \<in> set (map ?g (rows db))"
    then obtain x y where xy: "x' = ?g x" "y' = ?g y" "x \<in> set (rows db)" "y \<in> set (rows db)"
      unfolding set_map by (elim imageE) (rule that)
    show "same_hash x' y' \<Longrightarrow> fid x' = fid y'" "same_idem x' y' \<Longrightarrow> fid x' = fid y'"
      using pair [OF _ xy(3,4)] unfolding xy(1,2) by simp_all
  next
    fix x' assume "x' \<in> set (map ?g (rows db))"
    then obtain x where x: "x' = ?g x" "x \<in> set (rows db)" unfolding set_map by (elim imageE) (rule that)
    show "row_ok x'" "content_hash x' = sha (fcontent x')"
      using only [OF x(2)] changed(5) hash rs x by (auto simp: rows_ok_def)
  qed
  moreover have "fid ` set (rows db') = fid ` set (rows db)" unfolding changed(8) by (metis ids set_map)
  ultimately show ?thesis using ls changed(7,8) by (simp add: store_ok_def)
qed

section \<open>Steps\<close>

text \<open>One operation on the table, called for the key \<open>keyId\<close> (the master for \<open>None\<close>).\<close>

inductive store_step :: "(string \<Rightarrow> string) \<Rightarrow> string option \<Rightarrow> store \<Rightarrow> store \<Rightarrow> bool" for sha keyId where
  st_insert: "insert_frag sha f db = Inr (i, db') \<Longrightarrow> fkey f = keyId \<Longrightarrow> store_step sha keyId db db'"
| st_update: "update_frag sha i u a keyId db = Inr (r, db') \<Longrightarrow> store_step sha keyId db db'"
| st_patch: "patchAssertion i st keyId db = Inr (b, db') \<Longrightarrow> store_step sha keyId db db'"
| st_tier: "updateTtlTier i tier keyId db = Inr (b, db') \<Longrightarrow> store_step sha keyId db db'"
| st_delete: "delete_frag i keyId db = (b, db') \<Longrightarrow> store_step sha keyId db db'"
| st_delete_many: "deleteMany ids keyId db = (n, db') \<Longrightarrow> store_step sha keyId db db'"
| st_topic: "deleteByTopic t a keyId force dry db = (res, db') \<Longrightarrow> store_step sha keyId db db'"
| st_link: "store_link a b r w db = Inr db' \<Longrightarrow> store_step sha keyId db db'"
| st_supersede: "supersede a b keyId db = Inr db' \<Longrightarrow> store_step sha keyId db db'"

inductive_cases store_stepE: "store_step sha keyId db db'"

definition empty_store :: store where
  "empty_store = \<lparr>rows = [], versions = [], slinks = []\<rparr>"

inductive store_reach :: "(string \<Rightarrow> string) \<Rightarrow> store \<Rightarrow> bool" for sha where
  sr_empty: "store_reach sha empty_store"
| sr_step: "store_reach sha db \<Longrightarrow> store_step sha keyId db db' \<Longrightarrow> store_reach sha db'"
| sr_agent: "store_reach sha db \<Longrightarrow> deleteByAgent a db = Inr (n, db') \<Longrightarrow> store_reach sha db'"

lemma in_place_if:
  assumes "store_ok sha db" and "\<And>e. e \<in> set (rows db) \<Longrightarrow> hit e \<Longrightarrow> same_core (g e) e \<and> row_ok (g e)"
  shows "store_ok sha (db\<lparr>rows := map (\<lambda>e. if hit e then g e else e) (rows db)\<rparr>)"
proof (rule store_ok_in_place [OF assms(1) _ store_ok_links [OF assms(1)]])
  fix e assume e: "e \<in> set (rows db)"
  show "same_core (if hit e then g e else e) e \<and> row_ok (if hit e then g e else e)"
    using assms(2) [OF e] store_ok_row [OF assms(1) e] by (simp add: same_core_def)
qed simp_all

lemma patch_ok: "store_ok sha db \<Longrightarrow> patchAssertion i st keyId db = Inr (b, db') \<Longrightarrow> store_ok sha db'"
  unfolding patchAssertion_def Let_def
  by (auto simp: list_ex_iff same_core_def row_ok_def dest: store_ok_row split: if_split_asm intro!: in_place_if)

lemma tier_ok: "store_ok sha db \<Longrightarrow> updateTtlTier i tier keyId db = Inr (b, db') \<Longrightarrow> store_ok sha db'"
  unfolding updateTtlTier_def Let_def
  by (auto simp: list_ex_iff same_core_def row_ok_def dest: store_ok_row split: if_split_asm intro!: in_place_if)

lemma store_step_ok:
  assumes "store_ok sha db" and "store_step sha keyId db db'"
  shows "store_ok sha db'"
  using assms(2)
proof cases
  case (st_delete i b)
  then show ?thesis using delete_ok [OF assms(1), of i keyId] by simp
next
  case (st_delete_many ids n)
  then show ?thesis using deleteMany_ok [OF assms(1), of ids keyId] by simp
next
  case (st_topic t a force dry res)
  then show ?thesis using deleteByTopic_ok [OF assms(1), of t a keyId force dry] by simp
qed (blast intro: assms(1) insert_frag_ok update_ok patch_ok tier_ok store_link_ok supersede_ok)+

lemma deleteByAgent_ok:
  assumes ok: "store_ok sha db" and "deleteByAgent a db = Inr (n, db')"
  shows "store_ok sha db'"
  by (rule store_ok_remove [OF ok, where g = "\<lambda>e. e" and P = "\<lambda>e. agent e \<noteq> a"])
    (use assms(2) store_ok_row [OF ok] in \<open>auto simp: deleteByAgent_def Let_def same_core_def split: if_split_asm\<close>)

lemma store_reach_ok: "store_reach sha db \<Longrightarrow> store_ok sha db"
proof (induction rule: store_reach.induct)
  case sr_empty
  then show ?case by (simp add: store_ok_def rows_ok_def links_ok_def empty_store_def)
qed (blast intro: store_step_ok deleteByAgent_ok)+


definition note_of :: "string \<Rightarrow> string option \<Rightarrow> string \<Rightarrow> fragment" where
  "note_of i k c =
     \<lparr>fid = i, fcontent = c, ftopic = ''t'', fkeywords = [], ftype = ''fact'', importance = 1 / 2, content_hash = [],
      agent = ''default'', ttl_tier = ''warm'', fkey = k, is_anchor = False, flinked = [], valid = True,
      idempotency_key = None, assertion_status = ''observed''\<rparr>"

text \<open>A table with one fragment of key \<open>k1\<close> and one of key \<open>k2\<close>, with reversal as the hash.\<close>

definition two_tenants :: store where
  "two_tenants =
     \<lparr>rows = [prepareInsertRow rev (note_of ''f1'' (Some ''k1'') ''alpha''), prepareInsertRow rev (note_of ''f2'' (Some ''k2'') ''beta'')],
      versions = [], slinks = []\<rparr>"

lemma two_tenants_reach: "store_reach rev two_tenants"
proof -
  let ?f1 = "note_of ''f1'' (Some ''k1'') ''alpha''" and ?f2 = "note_of ''f2'' (Some ''k2'') ''beta''"
  let ?db1 = "\<lparr>rows = [prepareInsertRow rev ?f1], versions = [], slinks = []\<rparr>"
  have "insert_frag rev ?f1 empty_store = Inr (''f1'', ?db1)" by code_simp
  then have "store_step rev (Some ''k1'') empty_store ?db1" by (rule st_insert) (simp add: note_of_def)
  then have r: "store_reach rev ?db1" by (rule sr_step [OF sr_empty])
  have "insert_frag rev ?f2 ?db1 = Inr (''f2'', two_tenants)" by code_simp
  then have "store_step rev (Some ''k2'') ?db1 two_tenants" by (rule st_insert) (simp add: note_of_def)
  then show ?thesis by (rule sr_step [OF r])
qed


section \<open>What a key can do to others\<close>

text \<open>The fragments that do not belong to key \<open>k\<close>, without their \<open>linked_to\<close>.\<close>

definition strip :: "fragment \<Rightarrow> fragment" where
  "strip e = e\<lparr>flinked := []\<rparr>"

definition foreign :: "string \<Rightarrow> store \<Rightarrow> fragment list" where
  "foreign k db = map strip (filter (\<lambda>e. fkey e \<noteq> Some k) (rows db))"

lemma foreign_rows:
  assumes "\<And>e. e \<in> set rs \<Longrightarrow> fkey (g e) = fkey e"
    and "\<And>e. e \<in> set rs \<Longrightarrow> fkey e \<noteq> Some k \<Longrightarrow> strip (g e) = strip e \<and> P (g e)"
  shows "map strip (filter (\<lambda>e. fkey e \<noteq> Some k) (filter P (map g rs))) = map strip (filter (\<lambda>e. fkey e \<noteq> Some k) rs)"
  using assms by (induction rs) auto

lemma foreign_in_place:
  assumes "rows db' = map g (rows db)" and "\<And>e. e \<in> set (rows db) \<Longrightarrow> fkey (g e) = fkey e"
    and "\<And>e. e \<in> set (rows db) \<Longrightarrow> fkey e \<noteq> Some k \<Longrightarrow> strip (g e) = strip e"
  shows "foreign k db' = foreign k db"
  using foreign_rows [of "rows db" g k "\<lambda>_. True"] assms by (simp add: foreign_def)

lemma foreign_remove:
  assumes "rows db' = filter P (map g (rows db))" and "\<And>e. fkey (g e) = fkey e" and "\<And>e. strip (g e) = strip e"
    and "\<And>e. e \<in> set (rows db) \<Longrightarrow> fkey e \<noteq> Some k \<Longrightarrow> P (g e)"
  shows "foreign k db' = foreign k db"
  using foreign_rows [of "rows db" g k P] assms by (simp add: foreign_def)

lemma foreign_insert:
  assumes "insert_frag sha f db = Inr (i, db')" and "fkey f = Some k"
  shows "foreign k db' = foreign k db"
proof -
  define r where "r = prepareInsertRow sha f"
  have r: "fkey r = Some k" using assms(2) by (simp add: r_def prepareInsertRow_def)
  from assms(1) consider "rows db' = rows db @ [r]" | "rows db' = map (\<lambda>x. if same_hash r x then promote r x else x) (rows db)"
    by (auto simp: insert_frag_def Let_def r_def split: if_split_asm option.split_asm)
  then show ?thesis
  proof cases
    case 1
    with r show ?thesis by (simp add: foreign_def)
  next
    case 2
    then show ?thesis by (rule foreign_in_place) (auto simp: promote_def same_hash_def r)
  qed
qed

lemma foreign_store_link: "store_link a b r w db = Inr db' \<Longrightarrow> foreign k db' = foreign k db"
  by (rule foreign_in_place [OF store_link_result(1)]) (auto simp: strip_def)

lemma foreign_delete:
  assumes ok: "store_ok sha db" and "k \<noteq> []"
  shows "foreign k (snd (delete_frag i (Some k) db)) = foreign k db"
proof (cases "list_ex (\<lambda>e. fid e = i \<and> fkey e = Some k) (rows db)")
  case True
  then obtain o' where o': "o' \<in> set (rows db)" "fid o' = i" "fkey o' = Some k" by (auto simp: list_ex_iff)
  have "fid e \<noteq> i" if "e \<in> set (rows db)" "fkey e \<noteq> Some k" for e
    using rows_ok_unique [of sha "rows db" e o'] ok o' that by (auto simp: store_ok_def)
  then show ?thesis
    by (intro foreign_remove [where g = "\<lambda>e. e\<lparr>flinked := filter (\<lambda>x. x \<notin> set [i]) (flinked e)\<rparr>" and P = "\<lambda>e. fid e \<noteq> i"])
      (use True assms(2) in \<open>simp_all add: delete_frag_def strip_def\<close>)
qed (simp add: delete_frag_def assms(2))

lemma foreign_topic:
  assumes ok: "store_ok sha db" and "k \<noteq> []"
  shows "foreign k (snd (deleteByTopic t a (Some k) force dry db)) = foreign k db"
proof -
  let ?ids = "map fid (filter (\<lambda>e. force \<or> ttl_tier e \<noteq> ''permanent'') (topic_rows t a (Some k) db))"
  show ?thesis
  proof (cases "dry \<or> ?ids = []")
    case False
    have "fid e \<notin> set ?ids" if e: "e \<in> set (rows db)" "fkey e \<noteq> Some k" for e
    proof
      assume "fid e \<in> set ?ids"
      then obtain x where x: "x \<in> set (rows db)" "fid x = fid e" "fkey x = Some k"
        using assms(2) by (auto simp: topic_rows_def)
      with ok e rows_ok_unique [of sha "rows db" x e] show False by (auto simp: store_ok_def)
    qed
    then show ?thesis
      by (intro foreign_remove [where g = "\<lambda>e. e\<lparr>flinked := filter (\<lambda>x. x \<notin> set ?ids) (flinked e)\<rparr>"
              and P = "\<lambda>e. fid e \<notin> set ?ids"])
        (use False in \<open>simp_all add: deleteByTopic_def Let_def strip_def\<close>)
  qed (auto simp: deleteByTopic_def Let_def)
qed

lemma foreign_delete_many:
  assumes "k \<noteq> []"
  shows "foreign k (snd (deleteMany ids (Some k) db)) = foreign k db"
proof (cases "ids = []")
  case False
  show ?thesis
    by (rule foreign_remove [where g = "\<lambda>e. e\<lparr>flinked := filter (\<lambda>x. x \<notin> set ids) (flinked e)\<rparr>"
          and P = "\<lambda>e. \<not> (fid e \<in> set ids \<and> (\<not> truthy (Some k) \<or> fkey e = Some k))"])
      (use False assms in \<open>simp_all add: deleteMany_def Let_def strip_def\<close>)
qed (simp add: deleteMany_def)



text \<open>
  Superseding reaches into other tenants: the old id of \<open>supersede\<close> is not checked against the key
  before the link is made.  For two existing fragments, the call made for key \<open>k\<close> always goes through;
  when the old one belongs to another tenant it stays in force with all its fields, but gains the new
  fragment in its \<open>linked_to\<close> and an outgoing \<open>superseded_by\<close> link.
\<close>

theorem supersede_reaches_other_tenants:
  assumes "store_ok sha db" and "e \<in> set (rows db)" and "fkey e \<noteq> Some k" and "n \<in> set (rows db)" and "fid n \<noteq> fid e"
  shows "\<exists>db'. supersede (fid e) (fid n) (Some k) db = Inr db' \<and>
           (\<exists>e'\<in>set (rows db'). strip e' = strip e \<and> set (flinked e') = insert (fid n) (set (flinked e))) \<and>
           (\<exists>l\<in>set (slinks db'). l_from l = fid e \<and> l_to l = fid n \<and> relation l = ''superseded_by'')"
proof -
  have "link_allowed (fid e) (fid n) ''superseded_by'' (graph_of db)"
    using assms(2,4) by (auto simp: link_allowed_def frag_exists_def graph_of_def list_ex_iff)
  then obtain db1 where db1: "store_link (fid e) (fid n) ''superseded_by'' 1 db = Inr db1"
    by (simp add: store_link_def createLink_def)
  note res = store_link_result [OF db1]
  obtain db' where s: "supersede (fid e) (fid n) (Some k) db = Inr db'" using db1 by (simp add: supersede_def)
  then have db': "rows db' = map (expire_row (fid e) (Some k)) (rows db1)" "slinks db' = slinks db1"
    using db1 by (auto simp: supersede_def expire_row_def [abs_def])
  let ?e = "link_row (fid n) (fid e) (link_row (fid e) (fid n) e)"
  have "expire_row (fid e) (Some k) ?e = ?e" using assms(3) by (simp add: expire_row_def)
  then have "?e \<in> set (rows db')" using assms(2) unfolding db'(1) res(1) by force
  moreover have "strip ?e = strip e" "set (flinked ?e) = insert (fid n) (set (flinked e))"
    using assms(5) by (auto simp: strip_def link_row_def)
  moreover have "\<exists>l\<in>set (slinks db'). l_from l = fid e \<and> l_to l = fid n \<and> relation l = ''superseded_by''"
    unfolding db'(2) res(2) by (rule upsert_link_mem)
  ultimately show ?thesis using s by blast
qed

theorem supersede_reaches_other_tenants_witness:
  "\<exists>db'. supersede ''f2'' ''f1'' (Some ''k1'') two_tenants = Inr db' \<and>
     (\<exists>l\<in>set (slinks db'). l_from l = ''f2'' \<and> l_to l = ''f1'' \<and> relation l = ''superseded_by'')"
proof -
  let ?e = "prepareInsertRow rev (note_of ''f2'' (Some ''k2'') ''beta'')" and ?n = "prepareInsertRow rev (note_of ''f1'' (Some ''k1'') ''alpha'')"
  have m: "?e \<in> set (rows two_tenants)" "fkey ?e \<noteq> Some ''k1''" "?n \<in> set (rows two_tenants)" "fid ?n \<noteq> fid ?e"
    and ids: "fid ?e = ''f2''" "fid ?n = ''f1''"
    by (simp_all add: two_tenants_def prepareInsertRow_def note_of_def)
  from supersede_reaches_other_tenants [OF store_reach_ok [OF two_tenants_reach] m] show ?thesis
    unfolding ids by blast
qed

end
