(* ===== verification/FragIndex.thy ===== *)
theory FragIndex
  imports Fragments
begin

text \<open>
  The inverted index of fragments in Redis, \<open>lib/memory/FragmentIndex.js\<close>: sets of ids by keyword, topic
  and type, the recent list, the hot cache and the working memory of a session.

  Redis keys are the strings of the code, so that the namespaces of the tenants are separated exactly
  as far as the strings are.  A set is a list without duplicates.  The keywords taken from the content
  (\<open>FragmentFactory.extractKeywords\<close>) are an argument \<open>extract\<close>: nothing here depends on which they are.
  Expiry is left out: an entry may disappear at any time, which only makes searches find less.
\<close>

record redis_index =
  ready :: bool
  rsets :: "string \<Rightarrow> string list"
  rzsets :: "string \<Rightarrow> (string \<times> int) list"
  rhot :: "string \<Rightarrow> string option"

definition KW_PREFIX :: string where "KW_PREFIX = ''frag:kw:''"
definition TOPIC_PREFIX :: string where "TOPIC_PREFIX = ''frag:tp:''"
definition TYPE_PREFIX :: string where "TYPE_PREFIX = ''frag:ty:''"
definition RECENT_KEY :: string where "RECENT_KEY = ''frag:recent''"
definition HOT_PREFIX :: string where "HOT_PREFIX = ''frag:hot:''"
definition SESSION_PREFIX :: string where "SESSION_PREFIX = ''frag:sess:''"

lemmas prefix_defs = KW_PREFIX_def TOPIC_PREFIX_def TYPE_PREFIX_def RECENT_KEY_def HOT_PREFIX_def SESSION_PREFIX_def

definition keyNs :: "string option \<Rightarrow> string" where
  "keyNs keyId = (case keyId of None \<Rightarrow> ''_g'' | Some k \<Rightarrow> ''_k'' @ k)"

text \<open>A search is for one key (or the master), or for a group.\<close>

datatype key_sel = Single "string option" | Group "string list"

fun keyNsList :: "key_sel \<Rightarrow> string list" where
  "keyNsList (Single k) = [keyNs k]"
| "keyNsList (Group ks) = map (\<lambda>k. ''_k'' @ k) ks"

definition ns_key :: "string \<Rightarrow> string \<Rightarrow> string \<Rightarrow> string" where
  "ns_key prefix ns x = prefix @ ns @ '':'' @ x"

section \<open>Sets\<close>

definition sadd :: "string \<Rightarrow> string \<Rightarrow> redis_index \<Rightarrow> redis_index" where
  "sadd k i ix = ix\<lparr>rsets := (rsets ix)(k := if i \<in> set (rsets ix k) then rsets ix k else rsets ix k @ [i])\<rparr>"

definition srem :: "string \<Rightarrow> string \<Rightarrow> redis_index \<Rightarrow> redis_index" where
  "srem k i ix = ix\<lparr>rsets := (rsets ix)(k := filter (\<lambda>x. x \<noteq> i) (rsets ix k))\<rparr>"

definition zadd :: "string \<Rightarrow> int \<Rightarrow> string \<Rightarrow> redis_index \<Rightarrow> redis_index" where
  "zadd k t i ix = ix\<lparr>rzsets := (rzsets ix)(k := AList.update i t (rzsets ix k))\<rparr>"

definition zrem :: "string \<Rightarrow> string \<Rightarrow> redis_index \<Rightarrow> redis_index" where
  "zrem k i ix = ix\<lparr>rzsets := (rzsets ix)(k := AList.delete i (rzsets ix k))\<rparr>"

definition del_hot :: "string \<Rightarrow> redis_index \<Rightarrow> redis_index" where
  "del_hot k ix = ix\<lparr>rhot := (rhot ix)(k := None)\<rparr>"

definition content_terms :: "(string \<Rightarrow> nat \<Rightarrow> string list) \<Rightarrow> fragment \<Rightarrow> string list" where
  "content_terms extract f =
     (if fcontent f = [] then []
      else filter (\<lambda>t. t \<notin> set (map (map js_lower) (fkeywords f))) (extract (fcontent f) 8))"

definition index_frag ::
  "(string \<Rightarrow> nat \<Rightarrow> string list) \<Rightarrow> int \<Rightarrow> fragment \<Rightarrow> string option \<Rightarrow> string option \<Rightarrow> redis_index \<Rightarrow> redis_index" where
  "index_frag extract now f sessionId keyId ix =
     (if \<not> ready ix then ix
      else
        let ns = keyNs keyId;
            ix1 = fold (\<lambda>kw. sadd (ns_key KW_PREFIX ns (map js_lower kw)) (fid f)) (fkeywords f) ix;
            ix2 = fold (\<lambda>t. sadd (ns_key KW_PREFIX ns t) (fid f)) (content_terms extract f) ix1;
            ix3 = sadd (ns_key TYPE_PREFIX ns (ftype f)) (fid f) (sadd (ns_key TOPIC_PREFIX ns (ftopic f)) (fid f) ix2);
            ix4 = zadd (RECENT_KEY @ '':'' @ ns) now (fid f) ix3
        in if truthy sessionId then sadd (SESSION_PREFIX @ the sessionId) (fid f) ix4 else ix4)"

definition deindex_frag ::
  "string \<Rightarrow> string list \<Rightarrow> string \<Rightarrow> string \<Rightarrow> string option \<Rightarrow> redis_index \<Rightarrow> redis_index" where
  "deindex_frag i kws topic ty keyId ix =
     (if \<not> ready ix then ix
      else
        let ns = keyNs keyId;
            ix1 = fold (\<lambda>kw. srem (ns_key KW_PREFIX ns (map js_lower kw)) i) kws ix;
            ix2 = (if topic = [] then ix1 else srem (ns_key TOPIC_PREFIX ns topic) i ix1);
            ix3 = (if ty = [] then ix2 else srem (ns_key TYPE_PREFIX ns ty) i ix2)
        in del_hot (ns_key HOT_PREFIX ns i) (zrem (RECENT_KEY @ '':'' @ ns) i ix3))"

definition cacheFragment :: "string \<Rightarrow> string \<Rightarrow> string option \<Rightarrow> redis_index \<Rightarrow> redis_index" where
  "cacheFragment i data keyId ix =
     (if \<not> ready ix then ix else ix\<lparr>rhot := (rhot ix)(ns_key HOT_PREFIX (keyNs keyId) i \<mapsto> data)\<rparr>)"

section \<open>Searches\<close>

definition unionFromKeyNamespaces :: "key_sel \<Rightarrow> (string \<Rightarrow> string list) \<Rightarrow> string list" where
  "unionFromKeyNamespaces sel fetch =
     (case sel of Single k \<Rightarrow> fetch (keyNs k) | Group ks \<Rightarrow> rev (remdups (rev (concat (map fetch (keyNsList sel))))))"

definition sinter :: "string list \<Rightarrow> redis_index \<Rightarrow> string list" where
  "sinter ks ix = (case ks of [] \<Rightarrow> [] | k # rest \<Rightarrow> filter (\<lambda>i. \<forall>k'\<in>set rest. i \<in> set (rsets ix k')) (rsets ix k))"

definition sunion :: "string list \<Rightarrow> redis_index \<Rightarrow> string list" where
  "sunion ks ix = remdups (concat (map (rsets ix) ks))"

definition searchByKeywords :: "string list \<Rightarrow> nat \<Rightarrow> key_sel \<Rightarrow> redis_index \<Rightarrow> string list" where
  "searchByKeywords kws minResults sel ix =
     (if \<not> ready ix \<or> kws = [] then []
      else unionFromKeyNamespaces sel (\<lambda>ns.
        let ks = map (\<lambda>kw. ns_key KW_PREFIX ns (map js_lower kw)) kws; ids = sinter ks ix
        in if length ids < minResults \<and> 1 < length ks then sunion ks ix else ids))"

definition searchByTopic :: "string \<Rightarrow> key_sel \<Rightarrow> redis_index \<Rightarrow> string list" where
  "searchByTopic topic sel ix =
     (if \<not> ready ix then [] else unionFromKeyNamespaces sel (\<lambda>ns. rsets ix (ns_key TOPIC_PREFIX ns topic)))"

definition searchByType :: "string \<Rightarrow> key_sel \<Rightarrow> redis_index \<Rightarrow> string list" where
  "searchByType ty sel ix =
     (if \<not> ready ix then [] else unionFromKeyNamespaces sel (\<lambda>ns. rsets ix (ns_key TYPE_PREFIX ns ty)))"

fun first_hit :: "('a \<Rightarrow> 'b option) \<Rightarrow> 'a list \<Rightarrow> 'b option" where
  "first_hit f [] = None"
| "first_hit f (x # xs) = (case f x of None \<Rightarrow> first_hit f xs | Some y \<Rightarrow> Some y)"

definition getCachedFragment :: "string \<Rightarrow> key_sel \<Rightarrow> redis_index \<Rightarrow> string option" where
  "getCachedFragment i sel ix =
     (if \<not> ready ix then None else first_hit (\<lambda>ns. rhot ix (ns_key HOT_PREFIX ns i)) (keyNsList sel))"

section \<open>Working memory\<close>

record wm_item =
  w_id :: string
  w_importance :: rat
  w_tokens :: nat

definition WM_MAX_TOKENS :: nat where "WM_MAX_TOKENS = 500"

text \<open>The scan of \<open>_enforceWmBudget\<close>: oldest first, an item above importance 0.8 is passed over.\<close>

fun wm_scan :: "nat \<Rightarrow> wm_item list \<Rightarrow> wm_item list" where
  "wm_scan tot [] = []"
| "wm_scan tot (w # ws) =
     (if tot \<le> WM_MAX_TOKENS then w # ws
      else if 8 / 10 < w_importance w then w # wm_scan tot ws
      else wm_scan (tot - w_tokens w) ws)"

definition wm_total :: "wm_item list \<Rightarrow> nat" where
  "wm_total ws = sum_list (map w_tokens ws)"

definition enforceWmBudget :: "wm_item list \<Rightarrow> wm_item list" where
  "enforceWmBudget ws = (if wm_total ws \<le> WM_MAX_TOKENS then ws else wm_scan (wm_total ws) ws)"

definition addToWorkingMemory :: "bool \<Rightarrow> wm_item \<Rightarrow> wm_item list \<Rightarrow> wm_item list" where
  "addToWorkingMemory up w ws = (if \<not> up then ws else enforceWmBudget (ws @ [w]))"

lemma wm_scan_bound:
  "tot = wm_total kept + wm_total ws \<Longrightarrow> (\<forall>w\<in>set kept. 8 / 10 < w_importance w) \<Longrightarrow>
     wm_total kept + wm_total (wm_scan tot ws) \<le> WM_MAX_TOKENS \<or> (\<forall>w\<in>set (wm_scan tot ws). 8 / 10 < w_importance w)"
proof (induction tot ws arbitrary: kept rule: wm_scan.induct)
  case (2 tot w ws)
  show ?case
  proof (cases "tot \<le> WM_MAX_TOKENS")
    case True
    with 2 show ?thesis by simp
  next
    case False
    show ?thesis
    proof (cases "8 / 10 < w_importance w")
      case True
      with False 2(1) [of "kept @ [w]"] 2(3,4) show ?thesis by (auto simp: wm_total_def)
    next
      case F: False
      with False 2(2) [of kept] 2(3,4) show ?thesis by (auto simp: wm_total_def)
    qed
  qed
qed simp

lemma wm_scan_subset: "set (wm_scan n xs) \<subseteq> set xs"
  by (induction n xs rule: wm_scan.induct) auto

text \<open>After an addition the budget holds, or everything that is left is protected.\<close>

lemma enforceWmBudget_bound:
  "(wm_total (enforceWmBudget ws) \<le> WM_MAX_TOKENS \<or> (\<forall>x\<in>set (enforceWmBudget ws). 8 / 10 < w_importance x)) \<and>
   set (enforceWmBudget ws) \<subseteq> set ws"
proof (cases "wm_total ws \<le> WM_MAX_TOKENS")
  case False
  then have "enforceWmBudget ws = wm_scan (wm_total ws) ws" by (simp add: enforceWmBudget_def)
  with wm_scan_bound [of "wm_total ws" "[]" ws] wm_scan_subset [of "wm_total ws" ws] show ?thesis
    by (simp add: wm_total_def)
qed (simp add: enforceWmBudget_def)

section \<open>Namespaces\<close>

text \<open>The keys of one namespace, apart from the sets of a session.\<close>

definition tenant_key :: "string option \<Rightarrow> string \<Rightarrow> bool" where
  "tenant_key keyId k \<longleftrightarrow>
     (\<exists>p\<in>{KW_PREFIX, TOPIC_PREFIX, TYPE_PREFIX, HOT_PREFIX}. \<exists>x. k = ns_key p (keyNs keyId) x)"

definition plain_key :: "string option \<Rightarrow> bool" where
  "plain_key keyId \<longleftrightarrow> CHR '':'' \<notin> set (nullish_to keyId [])"

lemma keyNs_inj: "keyNs a = keyNs b \<Longrightarrow> a = b"
  by (auto simp: keyNs_def split: option.split_asm)

lemma keyNs_plain: "plain_key k \<Longrightarrow> CHR '':'' \<notin> set (keyNs k)"
  by (auto simp: plain_key_def keyNs_def split: option.split)

lemma takeWhile_ns:
  assumes "CHR '':'' \<notin> set ns"
  shows "takeWhile (\<lambda>c. c \<noteq> CHR '':'') (ns @ '':'' @ x) = ns"
  using assms by (induction ns) auto

lemma ns_key_inj:
  assumes "ns_key p (keyNs a) x = ns_key q (keyNs b) y" and "plain_key a" "plain_key b"
    and "p \<in> {KW_PREFIX, TOPIC_PREFIX, TYPE_PREFIX, HOT_PREFIX}" "q \<in> {KW_PREFIX, TOPIC_PREFIX, TYPE_PREFIX, HOT_PREFIX}"
  shows "p = q \<and> a = b \<and> x = y"
proof -
  have pq: "p = q"
    using assms(1,4,5) by (auto simp: ns_key_def prefix_defs)
  then have eq: "keyNs a @ '':'' @ x = keyNs b @ '':'' @ y" using assms(1) by (simp add: ns_key_def)
  then have "keyNs a = keyNs b"
    using takeWhile_ns [OF keyNs_plain [OF assms(2)], of x] takeWhile_ns [OF keyNs_plain [OF assms(3)], of y] by simp
  with eq pq keyNs_inj show ?thesis by blast
qed

text \<open>An operation on the index for one key.\<close>

inductive index_op :: "string option \<Rightarrow> redis_index \<Rightarrow> redis_index \<Rightarrow> bool" for keyId where
  io_index: "index_op keyId ix (index_frag extract now f sid keyId ix)"
| io_deindex: "index_op keyId ix (deindex_frag i kws topic ty keyId ix)"
| io_cache: "index_op keyId ix (cacheFragment i data keyId ix)"

inductive_cases index_opE: "index_op keyId ix ix'"

definition session_key :: "string \<Rightarrow> bool" where
  "session_key k \<longleftrightarrow> starts_with SESSION_PREFIX k"

lemma fold_sadd_other: "k \<notin> g ` set xs \<Longrightarrow> rsets (fold (\<lambda>x. sadd (g x) i) xs ix) k = rsets ix k"
  by (induction xs arbitrary: ix) (auto simp: sadd_def)

lemma fold_srem_other: "k \<notin> g ` set xs \<Longrightarrow> rsets (fold (\<lambda>x. srem (g x) i) xs ix) k = rsets ix k"
  by (induction xs arbitrary: ix) (auto simp: srem_def)

lemma fold_sadd_mem:
  "j \<in> set (rsets (fold (\<lambda>x. sadd (g x) i) xs ix) k) \<longleftrightarrow> j \<in> set (rsets ix k) \<or> j = i \<and> k \<in> g ` set xs"
  by (induction xs arbitrary: ix) (auto simp: sadd_def)

lemma fold_srem_mem:
  "j \<in> set (rsets (fold (\<lambda>x. srem (g x) i) xs ix) k) \<longleftrightarrow> j \<in> set (rsets ix k) \<and> \<not> (j = i \<and> k \<in> g ` set xs)"
  by (induction xs arbitrary: ix) (auto simp: srem_def)

lemma fold_sets_sel [simp]:
  "rhot (fold (\<lambda>x. sadd (g x) i) xs ix) = rhot ix" "ready (fold (\<lambda>x. sadd (g x) i) xs ix) = ready ix"
  "rhot (fold (\<lambda>x. srem (g x) i) xs ix) = rhot ix" "ready (fold (\<lambda>x. srem (g x) i) xs ix) = ready ix"
  by (induction xs arbitrary: ix) (auto simp: sadd_def srem_def)

lemma set_op_simps [simp]:
  "rsets (sadd k i ix) k' = (if k' = k \<and> i \<notin> set (rsets ix k) then rsets ix k @ [i] else rsets ix k')"
  "rsets (srem k i ix) k' = (if k' = k then filter (\<lambda>x. x \<noteq> i) (rsets ix k) else rsets ix k')"
  "rsets (zadd k t i ix) = rsets ix" "rsets (zrem k i ix) = rsets ix" "rsets (del_hot k ix) = rsets ix"
  "rhot (sadd k i ix) = rhot ix" "rhot (srem k i ix) = rhot ix" "rhot (zadd k t i ix) = rhot ix" "rhot (zrem k i ix) = rhot ix"
  "rhot (del_hot k ix) = (rhot ix)(k := None)"
  "ready (sadd k i ix) = ready ix" "ready (srem k i ix) = ready ix" "ready (zadd k t i ix) = ready ix"
  "ready (zrem k i ix) = ready ix" "ready (del_hot k ix) = ready ix"
  by (auto simp: sadd_def srem_def zadd_def zrem_def del_hot_def)

lemma session_key_other: "p \<in> {KW_PREFIX, TOPIC_PREFIX, TYPE_PREFIX, HOT_PREFIX} \<Longrightarrow> SESSION_PREFIX @ x \<noteq> ns_key p ns y"
  by (auto simp: prefix_defs ns_key_def)

lemma index_op_frame:
  assumes "index_op a ix ix'" and "a \<noteq> b" and "plain_key a" "plain_key b"
    and p: "p \<in> {KW_PREFIX, TOPIC_PREFIX, TYPE_PREFIX, HOT_PREFIX}"
  shows "rsets ix' (ns_key p (keyNs b) y) = rsets ix (ns_key p (keyNs b) y)"
    and "rhot ix' (ns_key p (keyNs b) y) = rhot ix (ns_key p (keyNs b) y)"
    and "ready ix' = ready ix"
proof -
  have ne: "ns_key p (keyNs b) y \<noteq> ns_key q (keyNs a) x"
    if "q \<in> {KW_PREFIX, TOPIC_PREFIX, TYPE_PREFIX, HOT_PREFIX}" for q x
    using ns_key_inj [of p b y q a x] that p assms(2-4) by blast
  then have ne': "ns_key p (keyNs b) y \<noteq> ns_key KW_PREFIX (keyNs a) x" "ns_key p (keyNs b) y \<noteq> ns_key TOPIC_PREFIX (keyNs a) x"
    "ns_key p (keyNs b) y \<noteq> ns_key TYPE_PREFIX (keyNs a) x" "ns_key p (keyNs b) y \<noteq> ns_key HOT_PREFIX (keyNs a) x" for x
    by simp_all
  have ses: "ns_key p (keyNs b) y \<noteq> SESSION_PREFIX @ x" for x using session_key_other [OF p] by metis
  note other = fold_sadd_other [of "ns_key p (keyNs b) y"] fold_srem_other [of "ns_key p (keyNs b) y"]
  from assms(1) show "rsets ix' (ns_key p (keyNs b) y) = rsets ix (ns_key p (keyNs b) y)"
    by cases (auto simp: index_frag_def deindex_frag_def cacheFragment_def Let_def other image_iff ne' ses)
  from assms(1) show "rhot ix' (ns_key p (keyNs b) y) = rhot ix (ns_key p (keyNs b) y)"
    by cases (auto simp: index_frag_def deindex_frag_def cacheFragment_def Let_def ne')
  from assms(1) show "ready ix' = ready ix"
    by cases (auto simp: index_frag_def deindex_frag_def cacheFragment_def Let_def)
qed

fun sel_keys :: "key_sel \<Rightarrow> string option set" where
  "sel_keys (Single k) = {k}"
| "sel_keys (Group ks) = Some ` set ks"

lemma keyNsList_sel: "ns \<in> set (keyNsList sel) \<Longrightarrow> \<exists>b\<in>sel_keys sel. ns = keyNs b"
  by (cases sel) (auto simp: keyNs_def)

lemma union_cong:
  "(\<And>b. b \<in> sel_keys sel \<Longrightarrow> f (keyNs b) = g (keyNs b)) \<Longrightarrow> unionFromKeyNamespaces sel f = unionFromKeyNamespaces sel g"
proof (cases sel)
  case (Group ks)
  assume eq: "\<And>b. b \<in> sel_keys sel \<Longrightarrow> f (keyNs b) = g (keyNs b)"
  have "map f (keyNsList sel) = map g (keyNsList sel)"
    by (rule map_cong [OF refl]) (use eq keyNsList_sel in blast)
  then have "concat (map f (keyNsList sel)) = concat (map g (keyNsList sel))" by (rule arg_cong [of _ _ concat])
  then show ?thesis unfolding unionFromKeyNamespaces_def Group key_sel.case by (rule arg_cong)
qed (simp add: unionFromKeyNamespaces_def)

lemma first_hit_cong: "(\<And>x. x \<in> set xs \<Longrightarrow> f x = g x) \<Longrightarrow> first_hit f xs = first_hit g xs"
  by (induction xs) (auto split: option.split)

text \<open>
  C9. The index keeps tenants apart: as long as key ids contain no colon, registering, removing or
  caching a fragment for one key changes nothing that a search by keyword, topic or type, or a look
  into the hot cache, finds for any other key or for a group without that key.
\<close>

theorem index_namespaces_isolated:
  assumes "index_op a ix ix'" and "a \<notin> sel_keys sel" and "plain_key a" "\<forall>b\<in>sel_keys sel. plain_key b"
  shows "searchByKeywords kws n sel ix' = searchByKeywords kws n sel ix \<and>
         searchByTopic t sel ix' = searchByTopic t sel ix \<and> searchByType ty sel ix' = searchByType ty sel ix \<and>
         getCachedFragment i sel ix' = getCachedFragment i sel ix"
proof -
  have sets: "rsets ix' (ns_key p (keyNs b) y) = rsets ix (ns_key p (keyNs b) y)"
    and hot: "rhot ix' (ns_key p (keyNs b) y) = rhot ix (ns_key p (keyNs b) y)"
    if "b \<in> sel_keys sel" "p \<in> {KW_PREFIX, TOPIC_PREFIX, TYPE_PREFIX, HOT_PREFIX}" for b p y
  proof -
    have b: "a \<noteq> b" "plain_key b" using assms(2,4) that(1) by auto
    show "rsets ix' (ns_key p (keyNs b) y) = rsets ix (ns_key p (keyNs b) y)"
      "rhot ix' (ns_key p (keyNs b) y) = rhot ix (ns_key p (keyNs b) y)"
      using index_op_frame [OF assms(1) b(1) assms(3) b(2) that(2)] by simp_all
  qed
  have ready: "ready ix' = ready ix"
    using assms(1) by cases (auto simp: index_frag_def deindex_frag_def cacheFragment_def Let_def)
  have kw: "rsets ix' (ns_key KW_PREFIX (keyNs b) y) = rsets ix (ns_key KW_PREFIX (keyNs b) y)" if "b \<in> sel_keys sel" for b y
    using sets [OF that] by simp
  have inter: "sinter (map (\<lambda>kw. ns_key KW_PREFIX (keyNs b) (map js_lower kw)) kws) ix' =
      sinter (map (\<lambda>kw. ns_key KW_PREFIX (keyNs b) (map js_lower kw)) kws) ix"
    and union: "sunion (map (\<lambda>kw. ns_key KW_PREFIX (keyNs b) (map js_lower kw)) kws) ix' =
      sunion (map (\<lambda>kw. ns_key KW_PREFIX (keyNs b) (map js_lower kw)) kws) ix" if "b \<in> sel_keys sel" for b
    using kw [OF that] by (auto simp: sinter_def sunion_def o_def split: list.split)
  have "searchByKeywords kws n sel ix' = searchByKeywords kws n sel ix"
    unfolding searchByKeywords_def ready Let_def using inter union by (auto intro!: union_cong)
  moreover have "searchByTopic t sel ix' = searchByTopic t sel ix"
    unfolding searchByTopic_def ready using sets by (auto intro!: union_cong)
  moreover have "searchByType ty sel ix' = searchByType ty sel ix"
    unfolding searchByType_def ready using sets by (auto intro!: union_cong)
  moreover have "getCachedFragment i sel ix' = getCachedFragment i sel ix"
    unfolding getCachedFragment_def ready using hot keyNsList_sel [of _ sel] by (force intro!: first_hit_cong)
  ultimately show ?thesis by simp
qed

definition empty_index :: redis_index where
  "empty_index = \<lparr>ready = True, rsets = (\<lambda>_. []), rzsets = (\<lambda>_. []), rhot = (\<lambda>_. None)\<rparr>"

theorem index_namespaces_isolated_witness:
  "searchByTopic ''t'' (Group [''k2'', ''k3'']) (cacheFragment ''f1'' ''{}'' (Some ''k1'') empty_index) = []"
proof -
  have "index_op (Some ''k1'') empty_index (cacheFragment ''f1'' ''{}'' (Some ''k1'') empty_index)" by (rule io_cache)
  moreover have "Some ''k1'' \<notin> sel_keys (Group [''k2'', ''k3''])" "plain_key (Some ''k1'')"
    "\<forall>b\<in>sel_keys (Group [''k2'', ''k3'']). plain_key b" by (auto simp: plain_key_def)
  ultimately have "searchByTopic ''t'' (Group [''k2'', ''k3'']) (cacheFragment ''f1'' ''{}'' (Some ''k1'') empty_index) =
      searchByTopic ''t'' (Group [''k2'', ''k3'']) empty_index"
    using index_namespaces_isolated by blast
  also have "\<dots> = []" by (simp add: searchByTopic_def empty_index_def unionFromKeyNamespaces_def)
  finally show ?thesis .
qed

section \<open>Registering and removing\<close>

lemma ns_key_same [simp]: "ns_key p ns x = ns_key p ns y \<longleftrightarrow> x = y"
  by (simp add: ns_key_def)

lemma ns_key_prefix [simp]:
  "ns_key KW_PREFIX ns x \<noteq> ns_key TOPIC_PREFIX ns' y" "ns_key KW_PREFIX ns x \<noteq> ns_key TYPE_PREFIX ns' y"
  "ns_key TOPIC_PREFIX ns x \<noteq> ns_key TYPE_PREFIX ns' y" "ns_key TOPIC_PREFIX ns x \<noteq> ns_key KW_PREFIX ns' y"
  "ns_key TYPE_PREFIX ns x \<noteq> ns_key KW_PREFIX ns' y" "ns_key TYPE_PREFIX ns x \<noteq> ns_key TOPIC_PREFIX ns' y"
  "SESSION_PREFIX @ x \<noteq> ns_key KW_PREFIX ns y" "SESSION_PREFIX @ x \<noteq> ns_key TOPIC_PREFIX ns y"
  "SESSION_PREFIX @ x \<noteq> ns_key TYPE_PREFIX ns y"
  "ns_key KW_PREFIX ns y \<noteq> SESSION_PREFIX @ x" "ns_key TOPIC_PREFIX ns y \<noteq> SESSION_PREFIX @ x"
  "ns_key TYPE_PREFIX ns y \<noteq> SESSION_PREFIX @ x"
  by (simp_all add: ns_key_def prefix_defs)

lemma js_lower_idem [simp]: "js_lower (js_lower c) = js_lower c"
  by (auto simp: js_lower_def Let_def)

lemma index_frag_mem:
  assumes "ready ix"
  shows "j \<in> set (rsets (index_frag extract now f sid k ix) (ns_key KW_PREFIX (keyNs k) t)) \<longleftrightarrow>
           j \<in> set (rsets ix (ns_key KW_PREFIX (keyNs k) t)) \<or>
           j = fid f \<and> (t \<in> set (map (map js_lower) (fkeywords f)) \<or> t \<in> set (content_terms extract f))"
    and "j \<in> set (rsets (index_frag extract now f sid k ix) (ns_key TOPIC_PREFIX (keyNs k) t)) \<longleftrightarrow>
           j \<in> set (rsets ix (ns_key TOPIC_PREFIX (keyNs k) t)) \<or> j = fid f \<and> t = ftopic f"
    and "j \<in> set (rsets (index_frag extract now f sid k ix) (ns_key TYPE_PREFIX (keyNs k) t)) \<longleftrightarrow>
           j \<in> set (rsets ix (ns_key TYPE_PREFIX (keyNs k) t)) \<or> j = fid f \<and> t = ftype f"
  using assms by (auto simp: index_frag_def Let_def fold_sadd_mem fold_sadd_other image_iff)

lemma deindex_frag_mem:
  assumes "ready ix"
  shows "j \<in> set (rsets (deindex_frag i kws topic ty k ix) (ns_key KW_PREFIX (keyNs k) t)) \<longleftrightarrow>
           j \<in> set (rsets ix (ns_key KW_PREFIX (keyNs k) t)) \<and> \<not> (j = i \<and> t \<in> set (map (map js_lower) kws))"
    and "j \<in> set (rsets (deindex_frag i kws topic ty k ix) (ns_key TOPIC_PREFIX (keyNs k) t)) \<longleftrightarrow>
           j \<in> set (rsets ix (ns_key TOPIC_PREFIX (keyNs k) t)) \<and> \<not> (j = i \<and> topic \<noteq> [] \<and> t = topic)"
    and "j \<in> set (rsets (deindex_frag i kws topic ty k ix) (ns_key TYPE_PREFIX (keyNs k) t)) \<longleftrightarrow>
           j \<in> set (rsets ix (ns_key TYPE_PREFIX (keyNs k) t)) \<and> \<not> (j = i \<and> ty \<noteq> [] \<and> t = ty)"
  using assms by (auto simp: deindex_frag_def Let_def fold_srem_mem fold_srem_other image_iff)

lemma index_frag_ready [simp]: "ready (index_frag extract now f sid k ix) = ready ix"
  by (auto simp: index_frag_def Let_def)

lemma searchByKeywords_one:
  assumes "ready ix"
  shows "searchByKeywords [kw] n (Single k) ix = rsets ix (ns_key KW_PREFIX (keyNs k) (map js_lower kw))"
  using assms by (simp add: searchByKeywords_def unionFromKeyNamespaces_def sinter_def Let_def)


definition sample_note :: fragment where
  "sample_note =
     \<lparr>fid = ''f1'', fcontent = ''redis holds userId'', ftopic = ''cache'', fkeywords = [''TTL''], ftype = ''fact'', importance = 1 / 2,
      content_hash = [], agent = ''default'', ttl_tier = ''warm'', fkey = None, is_anchor = False, flinked = [], valid = True,
      idempotency_key = None, assertion_status = ''observed''\<rparr>"


end
