(* ===== verification/Remember.thy ===== *)
theory Remember
  imports Tenancy FragIndex
begin

text \<open>
  The memory operations of \<open>lib/memory/processors/MemoryRememberer.js\<close> and \<open>MemoryLinker.js\<close> over the
  fragment table and the index: what \<open>remember\<close> persists, \<open>amend\<close>, \<open>forget\<close> and \<open>link\<close>.

  Left out of \<open>remember\<close>: the policy gate, the quota (theory \<open>Quota\<close>), the case id, and the pipeline that
  runs after the insertion (embedding, similarity links, conflict search, evaluation queue).
\<close>

record memory =
  table :: store
  index :: redis_index

section \<open>Remembering\<close>

text \<open>The ids in \<open>supersedes\<close>, one after the other; a failure is logged and skipped.\<close>

definition supersede_all :: "string list \<Rightarrow> string \<Rightarrow> string option \<Rightarrow> store \<Rightarrow> store" where
  "supersede_all olds i keyId db =
     fold (\<lambda>oldId d. if oldId = i then d else case supersede oldId i keyId d of Inl _ \<Rightarrow> d | Inr d' \<Rightarrow> d') olds db"

text \<open>The id and the tier reported.\<close>

definition persistNonAtomic ::
  "(string \<Rightarrow> string) \<Rightarrow> (string \<Rightarrow> nat \<Rightarrow> string list) \<Rightarrow> int \<Rightarrow> fragment \<Rightarrow> string option \<Rightarrow> string list \<Rightarrow> string option
     \<Rightarrow> string option \<Rightarrow> memory \<Rightarrow> unit + (string \<times> string) \<times> memory" where
  "persistNonAtomic sha extract now f sessionId supersedes reqTier keyId m =
     (case insert_frag sha f (table m) of
        Inl e \<Rightarrow> Inl e
      | Inr (i, db1) \<Rightarrow>
          let ix1 = index_frag extract now (f\<lparr>fid := i\<rparr>) sessionId (fkey f) (index m);
              db2 = supersede_all supersedes i keyId db1;
              low = importance f < 3 / 10 \<and> \<not> truthy reqTier;
              db3 = (if low then (case updateTtlTier i ''short'' keyId db2 of Inl _ \<Rightarrow> db2 | Inr (b, d) \<Rightarrow> d) else db2)
          in Inr ((i, if low then ''short'' else ttl_tier f), \<lparr>table = db3, index = ix1\<rparr>))"

section \<open>Request context\<close>

definition ctx_key :: "request_ctx \<Rightarrow> string option" where
  "ctx_key c = (case c_keyId c of JStr k \<Rightarrow> Some k | _ \<Rightarrow> None)"

definition ctx_groups :: "request_ctx \<Rightarrow> string list option" where
  "ctx_groups c =
     (case c_groupKeyIds c of
        JArr vs \<Rightarrow> Some (List.map_filter (\<lambda>v. case v of JStr s \<Rightarrow> Some s | _ \<Rightarrow> None) vs)
      | _ \<Rightarrow> None)"

definition ctx_agent :: "request_ctx \<Rightarrow> string" where
  "ctx_agent c = (case c_agentId c of JStr a \<Rightarrow> a | _ \<Rightarrow> ''default'')"

definition visible :: "string \<Rightarrow> request_ctx \<Rightarrow> store \<Rightarrow> fragment option" where
  "visible i c db = getById i (ctx_agent c) (ctx_key c) (ctx_groups c) False False db"

section \<open>Amending\<close>

datatype amend_result =
    AMissingId | ANotFound | ADry fragment | AFailed | AMerged string | AUpdated fragment

definition lower_keywords :: "updates \<Rightarrow> updates" where
  "lower_keywords u = u\<lparr>u_keywords := map_option (map (map js_lower)) (u_keywords u)\<rparr>"

definition would_be :: "updates \<Rightarrow> fragment \<Rightarrow> fragment" where
  "would_be u e =
     e\<lparr>fcontent := nullish_to (u_content u) (fcontent e), ftopic := nullish_to (u_topic u) (ftopic e),
       fkeywords := nullish_to (u_keywords u) (fkeywords e), ftype := nullish_to (u_type u) (ftype e),
       importance := nullish_to (u_importance u) (importance e), is_anchor := nullish_to (u_anchor u) (is_anchor e),
       assertion_status := nullish_to (u_assertion u) (assertion_status e)\<rparr>"

definition amend ::
  "(string \<Rightarrow> string) \<Rightarrow> (string \<Rightarrow> nat \<Rightarrow> string list) \<Rightarrow> int \<Rightarrow> (string \<times> jv) list \<Rightarrow> string \<Rightarrow> updates \<Rightarrow> bool \<Rightarrow> memory
     \<Rightarrow> unit + amend_result \<times> memory" where
  "amend sha extract now params i u dryRun m =
     (if i = [] then Inr (AMissingId, m)
      else
        let c = extractRequestCtx params FAmend; u' = lower_keywords u
        in case visible i c (table m) of
             None \<Rightarrow> Inr (ANotFound, m)
           | Some e \<Rightarrow>
               if dryRun then Inr (ADry (would_be u' e), m)
               else case update_frag sha i u' (ctx_agent c) (ctx_key c) (table m) of
                 Inl x \<Rightarrow> Inl x
               | Inr (Refused, db) \<Rightarrow> Inr (AFailed, m)
               | Inr (Merged d, db) \<Rightarrow> Inr (AMerged d, m)
               | Inr (Updated r, db) \<Rightarrow>
                   Inr (AUpdated r,
                     \<lparr>table = db,
                      index = index_frag extract now r None (fkey e)
                                (deindex_frag (fid e) (fkeywords e) (ftopic e) (ftype e) (fkey e) (index m))\<rparr>))"

section \<open>Forgetting\<close>

record forget_args =
  fa_id :: string
  fa_topic :: string
  fa_force :: bool
  fa_dryRun :: bool

datatype forget_result =
    FDryNone | FDryOne fragment bool | FDryTopic nat nat | FNotFound | FProtected | FDone nat nat

definition deindex_row :: "fragment \<Rightarrow> redis_index \<Rightarrow> redis_index" where
  "deindex_row e = deindex_frag (fid e) (fkeywords e) (ftopic e) (ftype e) (fkey e)"

definition forget :: "(string \<times> jv) list \<Rightarrow> forget_args \<Rightarrow> memory \<Rightarrow> forget_result \<times> memory" where
  "forget params a m =
     (let c = extractRequestCtx params FNull; found = visible (fa_id a) c (table m)
      in if fa_id a \<noteq> [] \<and> fa_dryRun a then
           (case found of None \<Rightarrow> (FDryNone, m)
            | Some e \<Rightarrow> (FDryOne e (\<not> (ttl_tier e = ''permanent'' \<and> \<not> fa_force a)), m))
         else if fa_id a \<noteq> [] then
           (case found of
              None \<Rightarrow> (FNotFound, m)
            | Some e \<Rightarrow>
                if ttl_tier e = ''permanent'' \<and> \<not> fa_force a then (FProtected, m)
                else
                  let ix = deindex_row e (index m); (ok, db) = delete_frag (fid e) (ctx_key c) (table m)
                  in (FDone (if ok then 1 else 0) 0, \<lparr>table = db, index = ix\<rparr>))
         else if fa_topic a \<noteq> [] then
           (let ((gone, protected), db) = deleteByTopic (fa_topic a) (ctx_agent c) (ctx_key c) (fa_force a) (fa_dryRun a) (table m)
            in if fa_dryRun a then (FDryTopic (length gone) protected, m)
               else (FDone (length gone) protected, \<lparr>table = db, index = fold deindex_row gone (index m)\<rparr>))
         else (FDone 0 0, m))"

section \<open>Linking\<close>

datatype link_result = LNoPermission | LDry | LLinked

definition memory_link ::
  "(string \<Rightarrow> string) \<Rightarrow> (string \<times> jv) list \<Rightarrow> string \<Rightarrow> string \<Rightarrow> string option \<Rightarrow> rat \<Rightarrow> bool \<Rightarrow> store \<Rightarrow> unit + link_result \<times> store" where
  "memory_link sha params fromId toId rel w dryRun db =
     (let c = extractRequestCtx params FEmpty; r = (if truthy rel then the rel else ''related'')
      in case (visible fromId c db, visible toId c db) of
           (Some e1, Some e2) \<Rightarrow>
             if dryRun then Inr (LDry, db)
             else (case store_link fromId toId r w db of
                 Inl x \<Rightarrow> Inl x
               | Inr db1 \<Rightarrow>
                   if r = ''resolved_by'' \<and> ftype e2 = ''error'' \<and> 1 / 2 < importance e2
                   then map_sum id (\<lambda>(x, db2). (LLinked, db2))
                          (update_frag sha toId
                             \<lparr>u_content = None, u_topic = None, u_keywords = None, u_type = None, u_importance = Some (1 / 2),
                              u_anchor = None, u_assertion = None\<rparr> (ctx_agent c) (ctx_key c) db1)
                   else Inr (LLinked, db1))
         | _ \<Rightarrow> Inr (LNoPermission, db))"

section \<open>What a request sees\<close>

lemma find_unique:
  assumes "distinct (map f xs)" and "\<And>x. x \<in> set xs \<Longrightarrow> P x \<Longrightarrow> f x = i"
  shows "find P xs = Some e \<longleftrightarrow> e \<in> set xs \<and> P e"
  using assms
proof (induction xs)
  case (Cons y ys)
  show ?case
  proof (cases "P y")
    case True
    have "\<not> P z" if z: "z \<in> set ys" for z
    proof
      assume "P z"
      then have "f z = f y" using Cons.prems(2) [of y] Cons.prems(2) [of z] True z by simp
      with imageI [OF z, of f] have "f y \<in> f ` set ys" by simp
      with Cons.prems(1) show False by simp
    qed
    with True show ?thesis by auto
  next
    case False
    with Cons show ?thesis by auto
  qed
qed simp

lemma getById_iff:
  assumes "store_ok sha db"
  shows "getById i a k gs peers old db = Some e \<longleftrightarrow>
           e \<in> set (rows db) \<and> fid e = i \<and> agent_scope a peers e \<and> (old \<or> valid e) \<and> in_scope k gs (fkey e)"
proof -
  obtain ps cl where kc: "keyScopeClause [BText i, BText a] ''key_id'' k gs = (ps, cl)" by fastforce
  then have ph: "placeholder ps 1 = Some (BText i)" by (auto simp: keyScopeClause_def placeholder_def Let_def split: option.split_asm)
  have ids: "distinct (map fid (rows db))" using assms by (simp add: store_ok_def rows_ok_def)
  let ?P = "\<lambda>e. placeholder ps 1 = Some (BText (fid e)) \<and> agent_scope a peers e \<and> (old \<or> valid e) \<and> holds ps cl (fkey e)"
  have "getById i a k gs peers old db = find ?P (rows db)" by (simp add: getById_def kc)
  moreover have "find ?P (rows db) = Some e \<longleftrightarrow> e \<in> set (rows db) \<and> ?P e"
    by (rule find_unique [OF ids, of _ i]) (use ph in simp)
  moreover have "holds ps cl v = in_scope k gs v" for v using clause_holds [OF kc, of "[]" v] by simp
  ultimately show ?thesis using ph by auto
qed

lemma getById_None:
  assumes "store_ok sha db" and "e \<in> set (rows db)" and "\<not> valid e"
  shows "getById (fid e) a k gs peers False db = None"
proof (rule ccontr)
  assume "getById (fid e) a k gs peers False db \<noteq> None"
  then obtain x where "getById (fid e) a k gs peers False db = Some x" by blast
  with getById_iff [OF assms(1)] have x: "x \<in> set (rows db)" "fid x = fid e" "valid x" by auto
  then have "x = e" using rows_ok_unique [of sha "rows db" x e] assms by (simp add: store_ok_def)
  with x assms(3) show False by simp
qed

text \<open>The context that \<open>injectSessionContext\<close> leaves for a session with key \<open>k\<close> and group \<open>gs\<close>.\<close>

lemma session_ctx:
  assumes "x_keyId x = Some k" and "x_groupKeyIds x = Some gs"
  shows "ctx_key (extractRequestCtx (inject_args x args) mode) = Some k"
    and "ctx_groups (extractRequestCtx (inject_args x args) mode) = Some gs"
proof -
  have "List.map_filter (\<lambda>v. case v of JStr s \<Rightarrow> Some s | _ \<Rightarrow> None) (map JStr gs) = gs"
    by (induction gs) (simp_all add: map_filter_simps)
  then show "ctx_key (extractRequestCtx (inject_args x args) mode) = Some k"
    "ctx_groups (extractRequestCtx (inject_args x args) mode) = Some gs"
    using ctx_of_session [OF assms, of args mode] by (simp_all add: ctx_key_def ctx_groups_def)
qed

lemma visible_iff:
  assumes "store_ok sha db"
  shows "visible i c db = Some e \<longleftrightarrow>
     e \<in> set (rows db) \<and> fid e = i \<and> agent_scope (ctx_agent c) False e \<and> valid e \<and> in_scope (ctx_key c) (ctx_groups c) (fkey e)"
  by (simp add: visible_def getById_iff [OF assms])

text \<open>
  Isolation from the request to the row: whatever arguments a client sends, once the session of key
  \<open>k\<close> and group \<open>gs\<close> is injected, \<open>amend\<close>, \<open>forget\<close> and \<open>link\<close> (the three fallback modes) see a fragment
  exactly when it is in force, in the agent's scope, and owned by \<open>k\<close> or a member of \<open>gs\<close>; and a link is
  only made between two fragments that are seen.
\<close>

theorem requests_isolated:
  assumes "store_ok sha db" and "x_keyId x = Some k" and "x_groupKeyIds x = Some gs"
  shows "(let c = extractRequestCtx (inject_args x args) mode
          in visible i c db = Some e \<longleftrightarrow>
               e \<in> set (rows db) \<and> fid e = i \<and> valid e \<and> agent_scope (ctx_agent c) False e \<and>
               (\<exists>v. fkey e = Some v \<and> (v = k \<or> v \<in> set gs))) \<and>
         (memory_link sha (inject_args x args) a b rel w False db = Inr (LLinked, db') \<longrightarrow>
            (\<forall>j\<in>{a, b}. \<exists>f\<in>set (rows db). fid f = j \<and> valid f \<and> (\<exists>v. fkey f = Some v \<and> (v = k \<or> v \<in> set gs))))"
proof -
  have scope: "in_scope (Some k) (Some gs) v \<longleftrightarrow> (\<exists>u. v = Some u \<and> (u = k \<or> u \<in> set gs))" for v
    by (auto simp: in_scope_def)
  note seen = visible_iff [OF assms(1)] session_ctx [OF assms(2,3)] scope
  have "\<exists>f\<in>set (rows db). fid f = j \<and> valid f \<and> (\<exists>v. fkey f = Some v \<and> (v = k \<or> v \<in> set gs))"
    if "memory_link sha (inject_args x args) a b rel w False db = Inr (LLinked, db')" "j \<in> {a, b}" for j
  proof -
    from that(1) obtain e1 e2 where "visible a (extractRequestCtx (inject_args x args) FEmpty) db = Some e1"
      "visible b (extractRequestCtx (inject_args x args) FEmpty) db = Some e2"
      by (auto simp: memory_link_def Let_def split: option.split_asm)
    with that(2) show ?thesis unfolding seen by blast
  qed
  then show ?thesis unfolding Let_def seen by blast
qed

lemma two_tenants_ok: "store_ok rev two_tenants"
  by (rule store_reach_ok [OF two_tenants_reach])

definition k1_session :: tool_ctx where
  "k1_session = sample_ctx\<lparr>x_groupKeyIds := Some [''k1'']\<rparr>"

theorem requests_isolated_witness:
  "visible ''f2'' (extractRequestCtx (inject_args k1_session [(''groupKeyIds'', JArr [JStr ''k2''])]) FAmend) two_tenants = None"
proof (rule ccontr)
  let ?c = "extractRequestCtx (inject_args k1_session [(''groupKeyIds'', JArr [JStr ''k2''])]) FAmend"
  assume "visible ''f2'' ?c two_tenants \<noteq> None"
  then obtain e where e: "visible ''f2'' ?c two_tenants = Some e" by blast
  have "x_keyId k1_session = Some ''k1''" "x_groupKeyIds k1_session = Some [''k1'']"
    by (simp_all add: k1_session_def sample_ctx_def)
  from requests_isolated [OF two_tenants_ok this, THEN conjunct1, unfolded Let_def, THEN iffD1, OF e]
  show False by (auto simp: two_tenants_def prepareInsertRow_def note_of_def)
qed

section \<open>The same content again\<close>

lemma rows_ok_hash_unique:
  "rows_ok sha rs \<Longrightarrow> x \<in> set rs \<Longrightarrow> y \<in> set rs \<Longrightarrow> same_hash x y \<Longrightarrow> x = y"
  by (meson rows_ok_def rows_ok_unique)

lemma insert_known:
  assumes "store_ok sha db" and "e \<in> set (rows db)" and "fkey f = fkey e" and "fcontent f = fcontent e"
    and "row_ok (prepareInsertRow sha f)"
  shows "insert_frag sha f db =
     Inr (fid e, db\<lparr>rows := map (\<lambda>x. if x = e then promote (prepareInsertRow sha f) e else x) (rows db)\<rparr>)"
proof -
  let ?r = "prepareInsertRow sha f"
  have rs: "rows_ok sha (rows db)" using assms(1) by (simp add: store_ok_def)
  have hash: "content_hash e = sha (fcontent e)" using rs assms(2) by (simp add: rows_ok_def)
  have he: "same_hash ?r e" by (simp add: same_hash_def prepareInsertRow_def assms(3,4) hash)
  have iff: "same_hash ?r x \<longleftrightarrow> x = e" if "x \<in> set (rows db)" for x
  proof
    assume "same_hash ?r x"
    with he have "same_hash e x" by (simp add: same_hash_def)
    with rows_ok_hash_unique [OF rs assms(2) that] show "x = e" by simp
  qed (use he in simp)
  have "find (same_hash ?r) (rows db) = Some e"
  proof (rule find_unique [THEN iffD2, of fid _ _ "fid e"])
    show "distinct (map fid (rows db))" using rs by (simp add: rows_ok_def)
  qed (use iff assms(2) in simp_all)
  moreover have "map (\<lambda>x. if same_hash ?r x then promote ?r x else x) (rows db) =
      map (\<lambda>x. if x = e then promote ?r e else x) (rows db)"
    by (rule map_cong [OF refl]) (use iff in auto)
  ultimately show ?thesis using assms(5) by (simp add: insert_frag_def Let_def)
qed

text \<open>
  Remembering the same content again never makes a second row: for a row of the same tenant with
  the same content, whatever its state, the insertion succeeds with the id of that row, raises its
  importance and anchor flag to the higher of both and changes nothing else.  When that row has been
  superseded it stays so: the id reported as remembered is one that no read by id returns, and the
  same call repeated (with a new random id) gives the same result.
\<close>

theorem remembering_again:
  assumes "store_ok sha db" and "e \<in> set (rows db)" and "fkey f = fkey e" and "fcontent f = fcontent e"
    and "row_ok (prepareInsertRow sha f)"
  shows "\<exists>db'. insert_frag sha f db = Inr (fid e, db') \<and>
           rows db' = map (\<lambda>x. if x = e then promote (prepareInsertRow sha f) e else x) (rows db) \<and>
           slinks db' = slinks db \<and> versions db' = versions db \<and>
           insert_frag sha (f\<lparr>fid := other\<rparr>) db' = Inr (fid e, db') \<and>
           (\<not> valid e \<longrightarrow> (\<forall>a k gs peers. getById (fid e) a k gs peers False db' = None))"
proof -
  let ?r = "prepareInsertRow sha f" and ?f2 = "f\<lparr>fid := other\<rparr>"
  let ?db' = "db\<lparr>rows := map (\<lambda>x. if x = e then promote ?r e else x) (rows db)\<rparr>"
  have ins: "insert_frag sha f db = Inr (fid e, ?db')" by (rule insert_known [OF assms])
  have ok: "store_ok sha ?db'" by (rule insert_frag_ok [OF assms(1) ins])
  have e': "promote ?r e \<in> set (rows ?db')" "fid (promote ?r e) = fid e" "valid (promote ?r e) = valid e"
    using assms(2) by (auto simp: promote_def)
  have "prepareInsertRow sha ?f2 = ?r\<lparr>fid := other\<rparr>" by (simp add: prepareInsertRow_def)
  then have r2: "row_ok (prepareInsertRow sha ?f2)" using assms(5) by (simp add: row_ok_def)
  have "promote (prepareInsertRow sha ?f2) (promote ?r e) = promote ?r e"
    by (simp add: promote_def prepareInsertRow_def)
  then have "insert_frag sha ?f2 ?db' = Inr (fid (promote ?r e), ?db'\<lparr>rows := rows ?db'\<rparr>)"
    using insert_known [OF ok e'(1), of ?f2] assms(3,4) r2 by (simp add: promote_def cong: map_cong if_cong)
  then have "insert_frag sha ?f2 ?db' = Inr (fid e, ?db')" by (simp add: promote_def)
  moreover have "getById (fid e) a k gs peers False ?db' = None" if "\<not> valid e" for a k gs peers
    using getById_None [OF ok e'(1)] e'(2,3) that by simp
  ultimately show ?thesis using ins by (intro exI [of _ ?db']) simp
qed

definition retired :: fragment where
  "retired = (prepareInsertRow rev (note_of ''f1'' (Some ''k1'') ''alpha''))\<lparr>valid := False\<rparr>"

definition retired_store :: store where
  "retired_store = \<lparr>rows = [retired], versions = [], slinks = []\<rparr>"

lemma retired_store_ok: "store_ok rev retired_store"
  by (simp add: store_ok_def rows_ok_def links_ok_def retired_store_def retired_def prepareInsertRow_def note_of_def row_ok_def
      sanitizeInsertImportance_def MAX_INITIAL_IMPORTANCE_def)

theorem remembering_again_witness:
  "\<exists>db'. insert_frag rev (note_of ''f9'' (Some ''k1'') ''alpha'') retired_store = Inr (''f1'', db') \<and>
     getById ''f1'' ''default'' (Some ''k1'') None False False db' = None"
proof -
  let ?f = "note_of ''f9'' (Some ''k1'') ''alpha''"
  have m: "retired \<in> set (rows retired_store)" "fkey ?f = fkey retired" "fcontent ?f = fcontent retired"
    and i: "fid retired = ''f1''" and v: "\<not> valid retired"
    by (simp_all add: retired_store_def retired_def prepareInsertRow_def note_of_def)
  have "row_ok (prepareInsertRow rev ?f)" by code_simp
  from remembering_again [OF retired_store_ok m this, of "''f9''"] obtain db' where
    d: "insert_frag rev ?f retired_store = Inr (''f1'', db')"
    and g: "\<not> valid retired \<longrightarrow> (\<forall>a k gs peers. getById ''f1'' a k gs peers False db' = None)"
    unfolding i by (elim exE conjE) (rule that)
  from g v have "getById ''f1'' ''default'' (Some ''k1'') None False False db' = None" by simp
  with d show ?thesis by (intro exI [of _ db'] conjI)
qed

section \<open>Amendments\<close>

lemma update_refused_same:
  assumes "update_frag sha i u a k db = Inr (r, db')" and "\<forall>e. r \<noteq> Updated e"
  shows "db' = db"
  using assms by (auto simp: update_frag_def Let_def split: option.split_asm if_split_asm)

lemma set_fields_none: "no_updates u \<Longrightarrow> set_fields sha u e = e"
  by (simp add: no_updates_def set_fields_def)

lemma update_updated:
  assumes "update_frag sha i u a k db = Inr (Updated r, db')"
  shows "\<exists>e. find (\<lambda>e. fid e = i) (rows db) = Some e \<and> (\<not> truthy k \<or> fkey e = k) \<and> r = set_fields sha u e \<and>
    rows db' = map (\<lambda>x. if fid x = i then set_fields sha u x else x) (rows db) \<and>
    versions db' = versions db @ (if no_updates u then [] else [archive a e]) \<and> slinks db' = slinks db"
proof -
  from assms obtain e where e: "find (\<lambda>e. fid e = i) (rows db) = Some e" "\<not> (truthy k \<and> fkey e \<noteq> k)"
    by (auto simp: update_frag_def split: option.split_asm if_split_asm)
  show ?thesis
  proof (cases "no_updates u")
    case True
    with assms e have "r = e" "db' = db" by (auto simp: update_frag_def split: option.split_asm)
    moreover have "map (\<lambda>x. if fid x = i then set_fields sha u x else x) (rows db) = rows db"
      by (rule map_idI) (simp add: set_fields_none [OF True])
    ultimately show ?thesis using e True by (intro exI [of _ e]) (simp add: set_fields_none)
  next
    case False
    with assms e have "r = set_fields sha u e"
      "db' = (archiveVersion a e db)\<lparr>rows := map (\<lambda>x. if fid x = i then set_fields sha u x else x) (rows db)\<rparr>"
      by (auto simp: update_frag_def Let_def split: option.split_asm if_split_asm)
    with e False show ?thesis by (intro exI [of _ e]) (simp add: archiveVersion_def)
  qed
qed

lemma visible_find:
  assumes "store_ok sha db" and "visible i c db = Some e"
  shows "find (\<lambda>e. fid e = i) (rows db) = Some e"
  using assms(2) visible_iff [OF assms(1)] find_unique [of fid "rows db" "\<lambda>e. fid e = i" i e] assms(1)
  by (simp add: store_ok_def rows_ok_def)

text \<open>
  An amendment archives exactly what it overwrites: when \<open>amend\<close> reports an update, the fragment was
  visible to the request and owned by its key, its row is replaced by the amended one and no other row
  or link changes, and the history gains the previous state as its last entry (nothing when no field
  was given); every other answer (not found, not owned, merged with a duplicate, dry run) leaves the
  table and the index as they were.
\<close>

theorem amend_archives:
  assumes "store_ok sha (table m)" and "amend sha extract now params i u dryRun m = Inr (res, m')"
  shows "case res of
           AUpdated r \<Rightarrow>
             (let c = extractRequestCtx params FAmend; u' = lower_keywords u
              in \<exists>e. visible i c (table m) = Some e \<and> (\<not> truthy (ctx_key c) \<or> fkey e = ctx_key c) \<and> \<not> dryRun \<and>
                   r = set_fields sha u' e \<and> store_ok sha (table m') \<and>
                   rows (table m') = map (\<lambda>x. if fid x = i then r else x) (rows (table m)) \<and>
                   slinks (table m') = slinks (table m) \<and>
                   versions (table m') = versions (table m) @ (if no_updates u' then [] else [archive (ctx_agent c) e]))
         | _ \<Rightarrow> m' = m"
proof (cases "\<exists>r. res = AUpdated r")
  case False
  with assms(2) show ?thesis
    by (auto simp: amend_def Let_def split: if_split_asm option.split_asm sum.split_asm update_result.split_asm)
next
  case True
  then obtain r where r: "res = AUpdated r" by blast
  let ?c = "extractRequestCtx params FAmend" and ?u = "lower_keywords u"
  from assms(2) r obtain e where e: "visible i ?c (table m) = Some e" "\<not> dryRun"
    and u: "update_frag sha i ?u (ctx_agent ?c) (ctx_key ?c) (table m) = Inr (Updated r, table m')"
    by (auto simp: amend_def Let_def split: if_split_asm option.split_asm sum.split_asm update_result.split_asm)
  have f: "find (\<lambda>e. fid e = i) (rows (table m)) = Some e" by (rule visible_find [OF assms(1) e(1)])
  from update_updated [OF u] f have up: "\<not> truthy (ctx_key ?c) \<or> fkey e = ctx_key ?c" "r = set_fields sha ?u e"
    "rows (table m') = map (\<lambda>x. if fid x = i then set_fields sha ?u x else x) (rows (table m))"
    "versions (table m') = versions (table m) @ (if no_updates ?u then [] else [archive (ctx_agent ?c) e])"
    "slinks (table m') = slinks (table m)" by auto
  have "x = e" if "x \<in> set (rows (table m))" "fid x = i" for x
    using rows_ok_unique [of sha "rows (table m)" x e] find_SomeD [OF f] that assms(1) by (simp add: store_ok_def)
  then have "rows (table m') = map (\<lambda>x. if fid x = i then r else x) (rows (table m))"
    unfolding up(2,3) by (intro map_cong [OF refl]) auto
  then show ?thesis
    unfolding r amend_result.case Let_def
    using e up(1,2,4,5) update_ok [OF assms(1) u] by (intro exI [of _ e] conjI)
qed

definition new_topic :: updates where
  "new_topic =
     \<lparr>u_content = None, u_topic = Some ''u'', u_keywords = None, u_type = None, u_importance = None, u_anchor = None, u_assertion = None\<rparr>"

definition two_memory :: memory where
  "two_memory = \<lparr>table = two_tenants, index = empty_index\<rparr>"

definition k1_args :: "(string \<times> jv) list" where
  "k1_args = inject_args k1_session []"

theorem amend_archives_witness:
  "\<exists>r m'. amend rev (\<lambda>c n. []) 0 k1_args ''f1'' new_topic False two_memory = Inr (AUpdated r, m') \<and>
     length (versions (table m')) = 1 \<and> ftopic r = ''u''"
proof -
  have "case amend rev (\<lambda>c n. []) 0 k1_args ''f1'' new_topic False two_memory of Inr (AUpdated r, m') \<Rightarrow> True | _ \<Rightarrow> False"
    by code_simp
  then obtain r m' where a: "amend rev (\<lambda>c n. []) 0 k1_args ''f1'' new_topic False two_memory = Inr (AUpdated r, m')"
    by (auto split: sum.split_asm prod.split_asm amend_result.split_asm)
  have "store_ok rev (table two_memory)" by (simp add: two_memory_def two_tenants_ok)
  from amend_archives [OF this a] obtain e where
    r: "r = set_fields rev (lower_keywords new_topic) e" and
    v: "versions (table m') = versions (table two_memory) @
         (if no_updates (lower_keywords new_topic) then [] else [archive (ctx_agent (extractRequestCtx k1_args FAmend)) e])"
    unfolding amend_result.case Let_def by (elim exE conjE) (rule that)
  have "\<not> no_updates (lower_keywords new_topic)" by (simp add: new_topic_def lower_keywords_def no_updates_def)
  with v have "length (versions (table m')) = 1" by (simp add: two_memory_def two_tenants_def)
  moreover have "ftopic r = ''u''" by (simp add: r set_fields_def new_topic_def lower_keywords_def)
  ultimately show ?thesis using a by blast
qed

section \<open>Forgetting exactly\<close>

lemma forget_by_id:
  assumes "fa_id a = i" and "i \<noteq> []" and "\<not> fa_dryRun a"
  shows "forget params a m =
      (let c = extractRequestCtx params FNull
       in case visible i c (table m) of None \<Rightarrow> (FNotFound, m)
       | Some e \<Rightarrow> if ttl_tier e = ''permanent'' \<and> \<not> fa_force a then (FProtected, m)
                   else let (ok, db) = delete_frag (fid e) (ctx_key c) (table m)
                        in (FDone (if ok then 1 else 0) 0, \<lparr>table = db, index = deindex_row e (index m)\<rparr>))"
  using assms unfolding forget_def Let_def by simp

text \<open>
  Forgetting one fragment, for a request of key \<open>k\<close>: a fragment the request does not see is reported
  as not found and nothing changes; a permanent one without \<open>force\<close> is reported as protected and
  nothing changes; an own one is deleted, with every other row kept up to its \<open>linked_to\<close>; and one that
  the request sees because a member of the group owns it is reported as not deleted and stays in the
  table, but has been taken out of the index: searches by its topic no longer lead to it.
\<close>

theorem forget_one:
  assumes "store_ok sha (table m)" and "x_keyId x = Some k" and "x_groupKeyIds x = Some gs" and "k \<noteq> []"
    and "fa_id a = i" and "i \<noteq> []" and "\<not> fa_dryRun a"
    and "params = inject_args x args" and "c = extractRequestCtx params FNull" and "forget params a m = (res, m')"
  shows "(visible i c (table m) = None \<longrightarrow> res = FNotFound \<and> m' = m) \<and>
    (\<forall>e. visible i c (table m) = Some e \<longrightarrow>
       (ttl_tier e = ''permanent'' \<and> \<not> fa_force a \<longrightarrow> res = FProtected \<and> m' = m) \<and>
       (\<not> (ttl_tier e = ''permanent'' \<and> \<not> fa_force a) \<longrightarrow>
          index m' = deindex_row e (index m) \<and>
          (fkey e = Some k \<longrightarrow> res = FDone 1 0 \<and> map strip (rows (table m')) = map strip (filter (\<lambda>r. fid r \<noteq> i) (rows (table m)))) \<and>
          (fkey e \<noteq> Some k \<longrightarrow> res = FDone 0 0 \<and> table m' = table m \<and>
             (ready (index m) \<and> ftopic e \<noteq> [] \<longrightarrow> fid e \<notin> set (searchByTopic (ftopic e) (Single (fkey e)) (index m'))))))"
proof -
  have key: "ctx_key c = Some k" unfolding assms(8,9) by (rule session_ctx [OF assms(2,3)])
  note f = forget_by_id [OF assms(5-7), of params m, folded assms(9), unfolded Let_def]
  show ?thesis
  proof (cases "visible i c (table m)")
    case None
    with f assms(10) show ?thesis by simp
  next
    case (Some e)
    with visible_iff [OF assms(1)] have e: "e \<in> set (rows (table m))" "fid e = i" by auto
    show ?thesis
    proof (cases "ttl_tier e = ''permanent'' \<and> \<not> fa_force a")
      case True
      with f Some assms(10) show ?thesis by simp
    next
      case False
      obtain ok db where d: "delete_frag i (Some k) (table m) = (ok, db)" by fastforce
      have res: "res = FDone (if ok then 1 else 0) 0" "m' = \<lparr>table = db, index = deindex_row e (index m)\<rparr>"
        using f Some False assms(10) by (auto simp: Let_def e(2) key d)
      have own: "ok \<and> map strip (rows db) = map strip (filter (\<lambda>r. fid r \<noteq> i) (rows (table m)))" if "fkey e = Some k"
      proof -
        have "list_ex (\<lambda>e. fid e = i \<and> fkey e = Some k) (rows (table m))" using e that by (auto simp: list_ex_iff)
        then have "ok" "rows db = filter (\<lambda>e. fid e \<noteq> i) (rows (unlink [i] (table m)))"
          using d by (auto simp: delete_frag_def list_ex_iff)
        then show ?thesis by (simp add: filter_map o_def strip_def)
      qed
      have peer: "\<not> ok \<and> db = table m" if "fkey e \<noteq> Some k"
      proof -
        have "x = e" if "x \<in> set (rows (table m))" "fid x = i" for x
          using rows_ok_unique [of sha "rows (table m)" x e] assms(1) e that by (simp add: store_ok_def)
        with that have "\<not> list_ex (\<lambda>e. fid e = i \<and> fkey e = Some k) (rows (table m))" unfolding list_ex_iff by blast
        with d assms(4) show ?thesis by (simp add: delete_frag_def)
      qed
      have gone: "fid e \<notin> set (searchByTopic (ftopic e) (Single (fkey e)) (deindex_row e (index m)))"
        if "ready (index m)" "ftopic e \<noteq> []"
        using that by (simp add: searchByTopic_def unionFromKeyNamespaces_def deindex_row_def deindex_frag_mem)
      show ?thesis using own peer gone False by (simp add: Some res)
    qed
  qed
qed

definition forget_f2 :: forget_args where
  "forget_f2 = \<lparr>fa_id = ''f2'', fa_topic = [], fa_force = True, fa_dryRun = False\<rparr>"

definition group_session :: tool_ctx where
  "group_session = sample_ctx\<lparr>x_groupKeyIds := Some [''k1'', ''k2'']\<rparr>"

theorem forget_one_witness:
  "fst (forget (inject_args group_session []) forget_f2 two_memory) = FDone 0 0"
proof -
  let ?c = "extractRequestCtx (inject_args group_session []) FNull"
  let ?e = "prepareInsertRow rev (note_of ''f2'' (Some ''k2'') ''beta'')"
  obtain res m' where f: "forget (inject_args group_session []) forget_f2 two_memory = (res, m')" by fastforce
  have ok: "store_ok rev (table two_memory)" by (simp add: two_memory_def two_tenants_ok)
  have x: "x_keyId group_session = Some ''k1''" "x_groupKeyIds group_session = Some [''k1'', ''k2'']" "''k1'' \<noteq> []"
    and a: "fa_id forget_f2 = ''f2''" "''f2'' \<noteq> []" "\<not> fa_dryRun forget_f2"
    by (simp_all add: group_session_def sample_ctx_def forget_f2_def)
  have v: "visible ''f2'' ?c (table two_memory) = Some ?e" by code_simp
  have "\<not> (ttl_tier ?e = ''permanent'' \<and> \<not> fa_force forget_f2)" "fkey ?e \<noteq> Some ''k1''"
    by (simp_all add: forget_f2_def prepareInsertRow_def note_of_def)
  with forget_one [OF ok x a refl refl f, THEN conjunct2, THEN spec, THEN mp, OF v] have "res = FDone 0 0" by simp
  with f show ?thesis by simp
qed

section \<open>Protection lost\<close>

lemma forget_owned:
  assumes "fa_id a = i" and "i \<noteq> []" and "\<not> fa_dryRun a" and "store_ok sha (table m)"
    and v: "visible i (extractRequestCtx params FNull) (table m) = Some e" and t: "ttl_tier e \<noteq> ''permanent''"
    and "fkey e = ctx_key (extractRequestCtx params FNull)"
  shows "fst (forget params a m) = FDone 1 0"
proof -
  from v visible_iff [OF assms(4)] have e: "e \<in> set (rows (table m))" "fid e = i" by auto
  then have "fst (delete_frag i (ctx_key (extractRequestCtx params FNull)) (table m))"
    using assms(7) by (auto simp: delete_frag_def list_ex_iff)
  then show ?thesis
    using v t e(2) by (cases "delete_frag i (ctx_key (extractRequestCtx params FNull)) (table m)")
      (simp add: forget_by_id [OF assms(1-3)] Let_def)
qed

lemma set_rows_map: "x \<in> set (rows db) \<Longrightarrow> g x \<in> set (rows (db\<lparr>rows := map g (rows db)\<rparr>))"
  by simp

lemma updateTtlTier_hit:
  assumes "e \<in> set (rows db)" and "fid e = i" and "fkey e = keyId" and "tier \<in> {''short'', ''hot'', ''warm'', ''cold'', ''permanent''}"
  shows "\<exists>b. updateTtlTier i tier keyId db =
     Inr (b, db\<lparr>rows := map (\<lambda>e. if fid e = i \<and> (\<not> truthy keyId \<or> fkey e = keyId) then e\<lparr>ttl_tier := tier\<rparr> else e) (rows db)\<rparr>)"
  using assms by (auto simp: updateTtlTier_def Let_def)

text \<open>
  Remembering can take protection away: a permanent fragment is refused by \<open>forget\<close> without
  \<open>force\<close>; but after the same content is remembered again with an importance below 0.3 (and no tier
  asked for), the row keeps at least its importance and yet its tier has become \<open>short\<close>, and the same
  \<open>forget\<close> deletes it.
\<close>

theorem remembering_unprotects:
  assumes "store_ok sha (table m)" and "e \<in> set (rows (table m))" and "valid e" and "ttl_tier e = ''permanent''"
    and "fkey e = Some k" and "k \<noteq> []" and "fid e \<noteq> []"
    and "fkey f = Some k" and "fcontent f = fcontent e" and "row_ok (prepareInsertRow sha f)" and "importance f < 3 / 10"
    and "x_keyId x = Some k" and "x_groupKeyIds x = Some gs" and "params = inject_args x args"
    and "agent_scope (ctx_agent (extractRequestCtx params FNull)) False e"
    and "a = \<lparr>fa_id = fid e, fa_topic = t, fa_force = False, fa_dryRun = False\<rparr>"
  shows "forget params a m = (FProtected, m) \<and>
    (\<exists>m1. persistNonAtomic sha extract now f sid [] None (Some k) m = Inr ((fid e, ''short''), m1) \<and>
       (\<exists>e1\<in>set (rows (table m1)). fid e1 = fid e \<and> importance e \<le> importance e1 \<and> ttl_tier e1 = ''short'') \<and>
       fst (forget params a m1) = FDone 1 0)"
proof -
  let ?c = "extractRequestCtx params FNull" and ?p = "promote (prepareInsertRow sha f) e"
  have key: "ctx_key ?c = Some k" "ctx_groups ?c = Some gs" unfolding assms(14) by (rule session_ctx [OF assms(12,13)])+
  have arg: "fa_id a = fid e" "\<not> fa_dryRun a" "\<not> fa_force a" by (simp_all add: assms(16))
  have "visible (fid e) ?c (table m) = Some e"
    using assms(2,3,5,15) by (simp add: visible_iff [OF assms(1)] key in_scope_def)
  then have prot: "forget params a m = (FProtected, m)"
    using assms(4) arg by (simp add: forget_by_id [OF arg(1) assms(7) arg(2)] Let_def)
  let ?db1 = "(table m)\<lparr>rows := map (\<lambda>x. if x = e then ?p else x) (rows (table m))\<rparr>"
  have ins: "insert_frag sha f (table m) = Inr (fid e, ?db1)"
    by (rule insert_known [OF assms(1,2)]) (use assms(5,8,9,10) in simp_all)
  have ok1: "store_ok sha ?db1" by (rule insert_frag_ok [OF assms(1) ins])
  have p: "?p \<in> set (rows ?db1)" "fid ?p = fid e" "fkey ?p = Some k" "valid ?p" "agent ?p = agent e" "importance e \<le> importance ?p"
    using assms(2,3,5) by (auto simp: promote_def)
  let ?hit = "\<lambda>x. fid x = fid e \<and> (\<not> truthy (Some k) \<or> fkey x = Some k)"
  let ?db2 = "?db1\<lparr>rows := map (\<lambda>x. if ?hit x then x\<lparr>ttl_tier := ''short''\<rparr> else x) (rows ?db1)\<rparr>"
  obtain b where tier: "updateTtlTier (fid e) ''short'' (Some k) ?db1 = Inr (b, ?db2)"
    using updateTtlTier_hit [OF p(1,2,3), of "''short''"] by auto
  have ok2: "store_ok sha ?db2" by (rule tier_ok [OF ok1 tier])
  let ?m1 = "\<lparr>table = ?db2, index = index_frag extract now (f\<lparr>fid := fid e\<rparr>) sid (fkey f) (index m)\<rparr>"
  have per: "persistNonAtomic sha extract now f sid [] None (Some k) m = Inr ((fid e, ''short''), ?m1)"
    using assms(11) tier by (simp add: persistNonAtomic_def ins supersede_all_def Let_def)
  let ?e1 = "?p\<lparr>ttl_tier := ''short''\<rparr>"
  have e1: "?e1 \<in> set (rows ?db2)"
  proof -
    have "(if ?hit ?p then ?p\<lparr>ttl_tier := ''short''\<rparr> else ?p) \<in> set (rows ?db2)"
      by (rule set_rows_map [OF p(1), where g = "\<lambda>x. if ?hit x then x\<lparr>ttl_tier := ''short''\<rparr> else x"])
    then show ?thesis by (simp only: p(2,3) simp_thms if_True)
  qed
  have "visible (fid e) ?c ?db2 = Some ?e1"
    unfolding visible_iff [OF ok2] key
  proof (intro conjI)
    show "?e1 \<in> set (rows ?db2)" by (rule e1)
    show "fid ?e1 = fid e" "valid ?e1" using p(2,4) by simp_all
    show "agent_scope (ctx_agent ?c) False ?e1" using assms(15) p(5) by (simp add: agent_scope_def)
    show "in_scope (Some k) (Some gs) (fkey ?e1)" using p(3) by (simp add: in_scope_def)
  qed
  then have "fst (forget params a ?m1) = FDone 1 0"
    by (intro forget_owned [OF arg(1) assms(7) arg(2), of sha ?m1 params ?e1]) (use ok2 p(3) key in simp_all)
  moreover have "\<exists>e1\<in>set (rows (table ?m1)). fid e1 = fid e \<and> importance e \<le> importance e1 \<and> ttl_tier e1 = ''short''"
  proof (rule bexI)
    show "fid ?e1 = fid e \<and> importance e \<le> importance ?e1 \<and> ttl_tier ?e1 = ''short''" using p(2,6) by simp
    show "?e1 \<in> set (rows (table ?m1))" using e1 by (simp only: memory.simps)
  qed
  ultimately show ?thesis using prot per by blast
qed

text \<open>A permanent decision of key \<open>k1\<close>, and a request of that key.\<close>

definition kept_note :: fragment where
  "kept_note = (prepareInsertRow rev (note_of ''f1'' (Some ''k1'') ''alpha''))\<lparr>ttl_tier := ''permanent''\<rparr>"

definition kept_memory :: memory where
  "kept_memory = \<lparr>table = \<lparr>rows = [kept_note], versions = [], slinks = []\<rparr>, index = empty_index\<rparr>"

lemma kept_memory_ok: "store_ok rev (table kept_memory)"
  by (simp add: store_ok_def rows_ok_def links_ok_def kept_memory_def kept_note_def prepareInsertRow_def note_of_def row_ok_def
      sanitizeInsertImportance_def MAX_INITIAL_IMPORTANCE_def)

definition forget_f1 :: forget_args where
  "forget_f1 = \<lparr>fa_id = ''f1'', fa_topic = [], fa_force = False, fa_dryRun = False\<rparr>"

definition faint_note :: fragment where
  "faint_note = (note_of ''f9'' (Some ''k1'') ''alpha'')\<lparr>importance := 1 / 5\<rparr>"

theorem remembering_unprotects_witness:
  "fst (forget k1_args forget_f1 kept_memory) = FProtected \<and>
   (\<exists>m1. persistNonAtomic rev (\<lambda>c n. []) 0 faint_note None [] None (Some ''k1'') kept_memory = Inr ((''f1'', ''short''), m1) \<and>
      fst (forget k1_args forget_f1 m1) = FDone 1 0)"
proof -
  have e: "kept_note \<in> set (rows (table kept_memory))" "valid kept_note" "ttl_tier kept_note = ''permanent''"
    "fkey kept_note = Some ''k1''" "''k1'' \<noteq> []" "fid kept_note \<noteq> []" "fkey faint_note = Some ''k1''"
    "fcontent faint_note = fcontent kept_note"
    by (simp_all add: kept_memory_def kept_note_def faint_note_def prepareInsertRow_def note_of_def)
  have r: "row_ok (prepareInsertRow rev faint_note)" by code_simp
  have i: "importance faint_note < 3 / 10" by (simp add: faint_note_def)
  have x: "x_keyId k1_session = Some ''k1''" "x_groupKeyIds k1_session = Some [''k1'']"
    by (simp_all add: k1_session_def sample_ctx_def)
  have s: "agent_scope (ctx_agent (extractRequestCtx k1_args FNull)) False kept_note" by code_simp
  have a: "forget_f1 = \<lparr>fa_id = fid kept_note, fa_topic = [], fa_force = False, fa_dryRun = False\<rparr>" and fid: "fid kept_note = ''f1''"
    by (simp_all add: forget_f1_def kept_note_def prepareInsertRow_def note_of_def)
  from remembering_unprotects [OF kept_memory_ok e r i x k1_args_def s a, of "\<lambda>c n. []" 0 None]
  show ?thesis unfolding fid by (elim conjE exE) (intro conjI exI; simp)
qed

end
