(* ===== verification/CaseEvents.thy ===== *)
theory CaseEvents
  imports Fragments "HOL-Library.Product_Lexorder"
begin

text \<open>
  The event graph of a case: \<open>lib/memory/CaseEventStore.js\<close> with the tables of migration 026, the
  recording of events by \<open>remember\<close> and \<open>amend\<close> (\<open>lib/memory/processors/MemoryRememberer.js\<close>) and the
  feedback of verifications to fragments (\<open>lib/memory/signals/CaseRewardBackprop.js\<close>).

  The identifier of a new event (a UUID that the database draws) and the time are arguments.  A
  statement that the database refuses and an exception of the code are \<open>Inl\<close>.  The fragments that
  evidence may name are given by \<open>frag_in\<close>.
\<close>

record case_event =
  ce_id :: string
  ce_case :: string
  ce_session :: "string option"
  sequence_no :: int
  event_type :: string
  summary :: string
  entity_keys :: "string list"
  source_fragment :: "string option"
  ce_key :: "string option"
  ce_created :: int

record event_edge =
  e_from :: string
  e_to :: string
  edge_type :: string
  e_confidence :: rat

record evidence =
  ev_fragment :: string
  ev_event :: string
  ev_kind :: string
  ev_confidence :: rat

record case_db =
  events :: "case_event list"
  edges :: "event_edge list"
  evidences :: "evidence list"

datatype case_error = CaseIdRequired | EventTypeRequired | InvalidEventType | CaseRefused

section \<open>Writing\<close>

definition VALID_EVENT_TYPES :: "string list" where
  "VALID_EVENT_TYPES =
     [''milestone_reached'', ''hypothesis_proposed'', ''hypothesis_rejected'', ''decision_committed'', ''error_observed'',
      ''fix_attempted'', ''verification_passed'', ''verification_failed'']"

text \<open>\<open>COALESCE(MAX(sequence_no), -1) + 1\<close> over the events of the case.\<close>

definition max_seq :: "string \<Rightarrow> case_event list \<Rightarrow> int \<Rightarrow> int" where
  "max_seq c = fold (\<lambda>e m. if ce_case e = c then max (sequence_no e) m else m)"

definition next_seq :: "string \<Rightarrow> case_db \<Rightarrow> int" where
  "next_seq c db = max_seq c (events db) (- 1) + 1"

definition has_event :: "string \<Rightarrow> case_db \<Rightarrow> bool" where
  "has_event i db = list_ex (\<lambda>e. ce_id e = i) (events db)"

text \<open>\<open>append\<close>: the draft carries the fields of the call, the identifier and the time of the insertion.\<close>

definition append_event :: "case_event \<Rightarrow> case_db \<Rightarrow> case_error + (case_event \<times> case_db)" where
  "append_event draft db =
     (if ce_case draft = [] then Inl CaseIdRequired
      else if event_type draft = [] then Inl EventTypeRequired
      else if event_type draft \<notin> set VALID_EVENT_TYPES then Inl InvalidEventType
      else if has_event (ce_id draft) db then Inl CaseRefused
      else let e = draft\<lparr>sequence_no := next_seq (ce_case draft) db\<rparr>
           in Inr (e, db\<lparr>events := events db @ [e]\<rparr>))"

definition same_edge :: "string \<Rightarrow> string \<Rightarrow> string \<Rightarrow> event_edge \<Rightarrow> bool" where
  "same_edge a b t x \<longleftrightarrow> e_from x = a \<and> e_to x = b \<and> edge_type x = t"

definition addEdge :: "string \<Rightarrow> string \<Rightarrow> string \<Rightarrow> rat \<Rightarrow> case_db \<Rightarrow> case_error + case_db" where
  "addEdge a b t c db =
     (if \<not> has_event a db \<or> \<not> has_event b db \<or>
         t \<notin> {''caused_by'', ''resolved_by'', ''preceded_by'', ''contradicts''} then Inl CaseRefused
      else if list_ex (same_edge a b t) (edges db) then Inr db
      else Inr (db\<lparr>edges := edges db @ [\<lparr>e_from = a, e_to = b, edge_type = t, e_confidence = c\<rparr>]\<rparr>))"

definition addEvidence :: "(string \<Rightarrow> bool) \<Rightarrow> string \<Rightarrow> string \<Rightarrow> string \<Rightarrow> rat \<Rightarrow> case_db \<Rightarrow> case_error + case_db" where
  "addEvidence frag_in f i k c db =
     (if \<not> frag_in f \<or> \<not> has_event i db \<or> k \<notin> {''supports'', ''contradicts'', ''produced_by''} then Inl CaseRefused
      else if list_ex (\<lambda>x. ev_fragment x = f \<and> ev_event x = i \<and> ev_kind x = k) (evidences db) then Inr db
      else Inr (db\<lparr>evidences := evidences db @ [\<lparr>ev_fragment = f, ev_event = i, ev_kind = k, ev_confidence = c\<rparr>]\<rparr>))"

text \<open>\<open>.catch(() => {})\<close>: a refused statement is ignored.\<close>

definition quiet :: "(case_db \<Rightarrow> case_error + case_db) \<Rightarrow> case_db \<Rightarrow> case_db" where
  "quiet f db = (case f db of Inl _ \<Rightarrow> db | Inr db' \<Rightarrow> db')"

text \<open>Deleting an event deletes its edges and its evidence (ON DELETE CASCADE).\<close>

definition DAY :: int where
  "DAY = 86400000"

definition keep_events :: "(case_event \<Rightarrow> bool) \<Rightarrow> case_db \<Rightarrow> case_db" where
  "keep_events P db =
     (let ids = map ce_id (filter P (events db))
      in \<lparr>events = filter P (events db),
          edges = filter (\<lambda>x. e_from x \<in> set ids \<and> e_to x \<in> set ids) (edges db),
          evidences = filter (\<lambda>x. ev_event x \<in> set ids) (evidences db)\<rparr>)"

definition deleteExpired :: "int \<Rightarrow> case_db \<Rightarrow> nat \<times> case_db" where
  "deleteExpired now db =
     (length (filter (\<lambda>e. ce_created e < now - 90 * DAY) (events db)),
      keep_events (\<lambda>e. \<not> ce_created e < now - 90 * DAY) db)"

text \<open>Deleting a fragment deletes its evidence (ON DELETE CASCADE).\<close>

definition drop_fragment :: "string \<Rightarrow> case_db \<Rightarrow> case_db" where
  "drop_fragment f db = db\<lparr>evidences := filter (\<lambda>x. ev_fragment x \<noteq> f) (evidences db)\<rparr>"

section \<open>Reading\<close>

record case_opts =
  o_limit :: "nat option"
  o_from :: "int option"
  o_to :: "int option"
  o_type :: "string option"
  o_key :: "string option"

definition no_opts :: case_opts where
  "no_opts = \<lparr>o_limit = None, o_from = None, o_to = None, o_type = None, o_key = None\<rparr>"

definition event_matches :: "case_opts \<Rightarrow> case_event \<Rightarrow> bool" where
  "event_matches opts e \<longleftrightarrow>
     (\<forall>t\<in>set_option (o_from opts). t \<le> ce_created e) \<and>
     (\<forall>t\<in>set_option (o_to opts). ce_created e \<le> t) \<and>
     (\<forall>t\<in>set_option (o_type opts). t = [] \<or> event_type e = t) \<and>
     (o_key opts = None \<or> ce_key e = o_key opts)"

definition in_order :: "case_event list \<Rightarrow> case_event list" where
  "in_order = sort_key (\<lambda>e. (ce_created e, sequence_no e))"

definition getByCase :: "string \<Rightarrow> case_opts \<Rightarrow> case_db \<Rightarrow> case_event list" where
  "getByCase c opts db =
     take (min (nullish_to (o_limit opts) 100) 500)
       (in_order (filter (\<lambda>e. ce_case e = c \<and> event_matches opts e) (events db)))"

definition getBySession :: "string \<Rightarrow> nat option \<Rightarrow> string option \<Rightarrow> case_db \<Rightarrow> case_event list" where
  "getBySession s limit keyId db =
     take (min (nullish_to limit 50) 500)
       (in_order (filter (\<lambda>e. ce_session e = Some s \<and> (keyId = None \<or> ce_key e = keyId)) (events db)))"

definition event_by_id :: "string \<Rightarrow> case_db \<Rightarrow> case_event option" where
  "event_by_id i db = find (\<lambda>e. ce_id e = i) (events db)"

definition owned_by :: "string \<Rightarrow> string \<Rightarrow> case_db \<Rightarrow> bool" where
  "owned_by k i db \<longleftrightarrow> (case event_by_id i db of None \<Rightarrow> False | Some e \<Rightarrow> ce_key e = Some k)"

definition getEdgesByEvents :: "string list \<Rightarrow> string option \<Rightarrow> case_db \<Rightarrow> event_edge list" where
  "getEdgesByEvents ids keyId db =
     (if ids = [] then []
      else filter (\<lambda>x. (e_from x \<in> set ids \<or> e_to x \<in> set ids) \<and>
                       (case keyId of None \<Rightarrow> True | Some k \<Rightarrow> owned_by k (e_from x) db \<and> owned_by k (e_to x) db))
             (edges db))"

definition row_by_id :: "string \<Rightarrow> store \<Rightarrow> fragment option" where
  "row_by_id i st = find (\<lambda>e. fid e = i) (rows st)"

definition getEvidenceByEvent :: "string \<Rightarrow> string option \<Rightarrow> store \<Rightarrow> case_db \<Rightarrow> (fragment \<times> evidence) list" where
  "getEvidenceByEvent i keyId st db =
     sort_key (\<lambda>(f, x). - ev_confidence x)
       (List.map_filter (\<lambda>x. if ev_event x = i
          then (case row_by_id (ev_fragment x) st of
                  Some f \<Rightarrow> if keyId = None \<or> fkey f = keyId then Some (f, x) else None
                | None \<Rightarrow> None)
          else None) (evidences db))"

definition getEventsByFragment :: "string \<Rightarrow> string option \<Rightarrow> case_db \<Rightarrow> (case_event \<times> evidence) list" where
  "getEventsByFragment f keyId db =
     sort_key (\<lambda>(e, x). ce_created e)
       (List.map_filter (\<lambda>x. if ev_fragment x = f
          then (case event_by_id (ev_event x) db of
                  Some e \<Rightarrow> if keyId = None \<or> ce_key e = keyId then Some (e, x) else None
                | None \<Rightarrow> None)
          else None) (evidences db))"

section \<open>Recording\<close>

record case_frag =
  cf_id :: string
  cf_type :: string
  cf_content :: string
  cf_keywords :: "string list"
  cf_case :: string
  cf_session :: "string option"

definition FRAG_TO_EVENT :: "(string \<times> string) list" where
  "FRAG_TO_EVENT =
     [(''error'', ''error_observed''), (''decision'', ''decision_committed''), (''procedure'', ''fix_attempted'')]"

definition draft_event :: "case_frag \<Rightarrow> string \<Rightarrow> string option \<Rightarrow> string \<Rightarrow> int \<Rightarrow> case_event" where
  "draft_event f ty keyId i now =
     \<lparr>ce_id = i, ce_case = cf_case f, ce_session = cf_session f, sequence_no = 0, event_type = ty,
      summary = take 200 (cf_content f), entity_keys = cf_keywords f, source_fragment = Some (cf_id f),
      ce_key = keyId, ce_created = now\<rparr>"

definition link_previous :: "case_event \<Rightarrow> string option \<Rightarrow> case_db \<Rightarrow> case_db" where
  "link_previous e keyId db =
     (case find (\<lambda>p. ce_id p \<noteq> ce_id e) (getByCase (ce_case e) (no_opts\<lparr>o_limit := Some 2, o_key := keyId\<rparr>) db) of
        None \<Rightarrow> db
      | Some p \<Rightarrow> quiet (addEdge (ce_id e) (ce_id p) ''preceded_by'' 1) db)"

definition link_errors :: "case_event \<Rightarrow> string option \<Rightarrow> case_db \<Rightarrow> case_db" where
  "link_errors e keyId db =
     (if event_type e = ''fix_attempted'' then
        fold (\<lambda>x. quiet (addEdge (ce_id e) (ce_id x) ''resolved_by'' 1))
          (getByCase (ce_case e) (no_opts\<lparr>o_type := Some ''error_observed'', o_key := keyId\<rparr>) db) db
      else db)"

definition recordCaseEvent ::
  "(string \<Rightarrow> bool) \<Rightarrow> case_frag \<Rightarrow> string option \<Rightarrow> string \<Rightarrow> int \<Rightarrow> case_db \<Rightarrow> case_error + case_db" where
  "recordCaseEvent frag_in f keyId i now db =
     (case map_of FRAG_TO_EVENT (cf_type f) of
        None \<Rightarrow> Inr db
      | Some ty \<Rightarrow>
          (case append_event (draft_event f ty keyId i now) db of
             Inl err \<Rightarrow> Inl err
           | Inr (e, db1) \<Rightarrow>
               (let db2 = quiet (addEvidence frag_in (cf_id f) i ''produced_by'' 1) db1;
                    db3 = link_previous e keyId db2
                in Inr (link_errors e keyId db3))))"

text \<open>The event of an amendment that changes \<open>assertion_status\<close>.\<close>

definition amendCaseEvent ::
  "(string \<Rightarrow> bool) \<Rightarrow> case_frag \<Rightarrow> string \<Rightarrow> string option \<Rightarrow> string option \<Rightarrow> string \<Rightarrow> int \<Rightarrow> case_db \<Rightarrow> case_db" where
  "amendCaseEvent frag_in f old new keyId i now db =
     (if truthy new \<and> Some old \<noteq> new \<and> cf_case f \<noteq> [] then
        (case (if new = Some ''verified'' then Some ''verification_passed''
               else if new = Some ''rejected'' then Some ''verification_failed'' else None) of
           None \<Rightarrow> db
         | Some ty \<Rightarrow>
             (case append_event (draft_event f ty keyId i now) db of
                Inl _ \<Rightarrow> db
              | Inr (e, db1) \<Rightarrow> quiet (addEvidence frag_in (cf_id f) i ''produced_by'' 1) db1))
      else db)"

section \<open>Feedback of verifications\<close>

text \<open>The statement updates every evidence fragment of the case once, whatever the number of its events.\<close>

definition backprop :: "bool \<Rightarrow> string \<Rightarrow> string \<Rightarrow> string option \<Rightarrow> case_db \<Rightarrow> store \<Rightarrow> store" where
  "backprop enabled c ty keyId db st =
     (if \<not> enabled \<or> ty \<notin> {''verification_passed'', ''verification_failed''} then st
      else let delta = (if ty = ''verification_passed'' then 15 / 100 else - (10 / 100));
               hit = (\<lambda>f. list_ex (\<lambda>x. ev_fragment x = fid f \<and>
                        (case event_by_id (ev_event x) db of None \<Rightarrow> False | Some e \<Rightarrow> ce_case e = c)) (evidences db) \<and>
                        (keyId = None \<or> fkey f = keyId))
           in st\<lparr>rows := map (\<lambda>f. if hit f then f\<lparr>importance := min 1 (max 0 (importance f + delta))\<rparr> else f) (rows st)\<rparr>)"

section \<open>The event graph is a DAG\<close>

definition edge_ok :: "case_event list \<Rightarrow> event_edge \<Rightarrow> bool" where
  "edge_ok es x \<longleftrightarrow>
     (\<exists>a\<in>set es. \<exists>b\<in>set es. ce_id a = e_from x \<and> ce_id b = e_to x \<and> ce_case a = ce_case b \<and>
        sequence_no b < sequence_no a \<and>
        (edge_type x = ''resolved_by'' \<longrightarrow> event_type a = ''fix_attempted'' \<and> event_type b = ''error_observed''))"

definition events_ok :: "case_event list \<Rightarrow> bool" where
  "events_ok es \<longleftrightarrow>
     distinct (map ce_id es) \<and> (\<forall>e\<in>set es. event_type e \<in> set VALID_EVENT_TYPES \<and> ce_case e \<noteq> []) \<and>
     (\<forall>a\<in>set es. \<forall>b\<in>set es. ce_case a = ce_case b \<and> sequence_no a = sequence_no b \<longrightarrow> a = b)"

definition case_ok :: "case_db \<Rightarrow> bool" where
  "case_ok db \<longleftrightarrow>
     events_ok (events db) \<and> (\<forall>x\<in>set (edges db). edge_ok (events db) x) \<and>
     (\<forall>v\<in>set (evidences db). ev_event v \<in> ce_id ` set (events db))"

lemma max_seq_ge:
  "m \<le> max_seq c es m \<and> (\<forall>e\<in>set es. ce_case e = c \<longrightarrow> sequence_no e \<le> max_seq c es m)"
proof (induction es arbitrary: m)
  case Nil
  then show ?case by (simp add: max_seq_def)
next
  case (Cons x es)
  let ?m = "if ce_case x = c then max (sequence_no x) m else m"
  have "max_seq c (x # es) m = max_seq c es ?m" by (simp add: max_seq_def)
  moreover have "m \<le> ?m" "ce_case x = c \<Longrightarrow> sequence_no x \<le> ?m" by auto
  ultimately show ?case using Cons.IH [of ?m] by fastforce
qed

lemma next_seq_above: "e \<in> set (events db) \<Longrightarrow> ce_case e = c \<Longrightarrow> sequence_no e < next_seq c db"
  using max_seq_ge [of "- 1" c "events db"] by (auto simp: next_seq_def)

lemma has_event_iff: "has_event i db \<longleftrightarrow> i \<in> ce_id ` set (events db)"
  by (auto simp: has_event_def list_ex_iff)

lemma getByCase_mem:
  assumes "e \<in> set (getByCase c opts db)"
  shows "e \<in> set (events db)" "ce_case e = c" "event_matches opts e"
proof -
  have "e \<in> set (in_order (filter (\<lambda>e. ce_case e = c \<and> event_matches opts e) (events db)))"
    using assms in_set_takeD unfolding getByCase_def by fast
  then show "e \<in> set (events db)" "ce_case e = c" "event_matches opts e" by (auto simp: in_order_def)
qed

lemma append_event_Inr:
  assumes "append_event d db = Inr (e, db1)"
  shows "e = d\<lparr>sequence_no := next_seq (ce_case d) db\<rparr>" "events db1 = events db @ [e]" "edges db1 = edges db"
    "evidences db1 = evidences db" "ce_case d \<noteq> []" "event_type d \<in> set VALID_EVENT_TYPES" "\<not> has_event (ce_id d) db"
  using assms by (auto simp: append_event_def Let_def split: if_split_asm)

lemma quiet_evidence:
  "events (quiet (addEvidence fi f i k c) db) = events db" "edges (quiet (addEvidence fi f i k c) db) = edges db"
  "case_ok db \<Longrightarrow> case_ok (quiet (addEvidence fi f i k c) db)"
  by (auto simp: quiet_def addEvidence_def case_ok_def has_event_iff)

lemma quiet_edge_events [simp]: "events (quiet (addEdge a b t c) db) = events db"
  by (auto simp: quiet_def addEdge_def)

lemma quiet_edge_ok:
  assumes "case_ok db" and "edge_ok (events db) \<lparr>e_from = a, e_to = b, edge_type = t, e_confidence = c\<rparr>"
  shows "case_ok (quiet (addEdge a b t c) db)"
  using assms by (auto simp: quiet_def addEdge_def case_ok_def)

lemma case_ok_append:
  assumes ok: "case_ok db" and ap: "append_event d db = Inr (e, db1)"
  shows "case_ok db1" and "\<And>x. x \<in> set (events db) \<Longrightarrow> ce_case x = ce_case e \<Longrightarrow> sequence_no x < sequence_no e"
    and "ce_id e \<notin> ce_id ` set (events db)" and "e \<in> set (events db1)"
proof -
  note new = append_event_Inr [OF ap]
  show above: "\<And>x. x \<in> set (events db) \<Longrightarrow> ce_case x = ce_case e \<Longrightarrow> sequence_no x < sequence_no e"
    using next_seq_above by (simp add: new(1))
  show fresh: "ce_id e \<notin> ce_id ` set (events db)" using new(7) by (simp add: new(1) has_event_iff)
  show "e \<in> set (events db1)" by (simp add: new(2))
  have "event_type e = event_type d" "ce_case e = ce_case d" by (simp_all add: new(1))
  then have e: "event_type e \<in> set VALID_EVENT_TYPES" "ce_case e \<noteq> []" using new(5,6) by simp_all
  have es: "events_ok (events db)" using ok by (simp add: case_ok_def)
  have "events_ok (events db @ [e])"
    unfolding events_ok_def
  proof (intro conjI ballI impI)
    show "distinct (map ce_id (events db @ [e]))" using es fresh by (simp add: events_ok_def)
    show "event_type x \<in> set VALID_EVENT_TYPES" "ce_case x \<noteq> []" if "x \<in> set (events db @ [e])" for x
      using that es e by (auto simp: events_ok_def)
    fix a b assume "a \<in> set (events db @ [e])" "b \<in> set (events db @ [e])"
      and ab: "ce_case a = ce_case b \<and> sequence_no a = sequence_no b"
    then consider "a \<in> set (events db)" "b \<in> set (events db)" | "a = e" "b = e" | "a \<in> set (events db)" "b = e"
      | "a = e" "b \<in> set (events db)" by auto
    then show "a = b"
    proof cases
      case 1
      with es ab show ?thesis unfolding events_ok_def by blast
    next
      case 3
      with above [of a] ab show ?thesis by simp
    next
      case 4
      with above [of b] ab show ?thesis by simp
    qed simp
  qed
  moreover have "edge_ok (events db @ [e]) x" if "edge_ok (events db) x" for x
    using that by (auto simp: edge_ok_def)
  ultimately show "case_ok db1" using ok by (simp add: case_ok_def new(2-4))
qed

lemma link_previous_events [simp]: "events (link_previous e k db) = events db"
  by (simp add: link_previous_def split: option.split)

lemma fold_edges_events [simp]: "events (fold (\<lambda>x. quiet (addEdge a (ce_id x) t c)) xs db) = events db"
  by (induction xs arbitrary: db) simp_all

lemma fold_edges_ok:
  assumes "case_ok db" and "\<And>x. x \<in> set xs \<Longrightarrow> edge_ok (events db) \<lparr>e_from = a, e_to = ce_id x, edge_type = t, e_confidence = c\<rparr>"
  shows "case_ok (fold (\<lambda>x. quiet (addEdge a (ce_id x) t c)) xs db)"
  using assms by (induction xs arbitrary: db) (simp_all add: quiet_edge_ok)

lemma recordCaseEvent_cases:
  assumes "recordCaseEvent fi f k i now db = Inr db'"
  obtains "db' = db" "map_of FRAG_TO_EVENT (cf_type f) = None"
  | ty e db1 where "map_of FRAG_TO_EVENT (cf_type f) = Some ty" "append_event (draft_event f ty k i now) db = Inr (e, db1)"
    "db' = link_errors e k (link_previous e k (quiet (addEvidence fi (cf_id f) i ''produced_by'' 1) db1))"
  using assms by (auto simp: recordCaseEvent_def Let_def split: option.split_asm sum.split_asm prod.split_asm)

lemma recordCaseEvent_ok:
  assumes ok: "case_ok db" and rec: "recordCaseEvent fi f k i now db = Inr db'"
  shows "case_ok db'"
  using rec
proof (cases rule: recordCaseEvent_cases)
  case (2 ty e db1)
  note new = case_ok_append [OF ok 2(2)]
  note ev = append_event_Inr(2) [OF 2(2)]
  define db2 where "db2 = quiet (addEvidence fi (cf_id f) i ''produced_by'' 1) db1"
  have ok2: "case_ok db2" "events db2 = events db1" using quiet_evidence new(1) by (simp_all add: db2_def)
  have older: "edge_ok (events db1) \<lparr>e_from = ce_id e, e_to = ce_id x, edge_type = t, e_confidence = 1\<rparr>"
    if "x \<in> set (events db1)" "ce_case x = ce_case e" "ce_id x \<noteq> ce_id e"
      "t = ''resolved_by'' \<longrightarrow> event_type e = ''fix_attempted'' \<and> event_type x = ''error_observed''" for x t
  proof -
    from that have "x \<in> set (events db)" by (auto simp: ev)
    with new(2) that(2) have "sequence_no x < sequence_no e" by blast
    then show ?thesis unfolding edge_ok_def using that
      by (intro bexI [OF _ new(4)] bexI [OF _ that(1)]) simp
  qed
  have "case_ok (link_previous e k db2)"
  proof (cases "find (\<lambda>p. ce_id p \<noteq> ce_id e) (getByCase (ce_case e) (no_opts\<lparr>o_limit := Some 2, o_key := k\<rparr>) db2)")
    case None
    with ok2 show ?thesis by (simp add: link_previous_def)
  next
    case (Some p)
    then have p: "p \<in> set (getByCase (ce_case e) (no_opts\<lparr>o_limit := Some 2, o_key := k\<rparr>) db2)" "ce_id p \<noteq> ce_id e"
      by (auto simp: find_Some_iff)
    have "edge_ok (events db2) \<lparr>e_from = ce_id e, e_to = ce_id p, edge_type = ''preceded_by'', e_confidence = 1\<rparr>"
      unfolding ok2(2) using getByCase_mem [OF p(1)] p(2) by (intro older) (simp_all add: ok2(2))
    with ok2(1) Some show ?thesis by (simp add: link_previous_def quiet_edge_ok)
  qed
  moreover have "case_ok (link_errors e k db3)" if "case_ok db3" "events db3 = events db1" for db3
  proof (cases "event_type e = ''fix_attempted''")
    case True
    let ?xs = "getByCase (ce_case e) (no_opts\<lparr>o_type := Some ''error_observed'', o_key := k\<rparr>) db3"
    have "edge_ok (events db3) \<lparr>e_from = ce_id e, e_to = ce_id x, edge_type = ''resolved_by'', e_confidence = 1\<rparr>"
      if "x \<in> set ?xs" for x
    proof -
      note x = getByCase_mem [OF that]
      have ty: "event_type x = ''error_observed''" using x(3) by (simp add: event_matches_def no_opts_def)
      have "ce_id x \<noteq> ce_id e"
      proof
        assume "ce_id x = ce_id e"
        then have "x = e" using x(1) new(3) by (auto simp: \<open>events db3 = events db1\<close> ev image_iff)
        with ty True show False by simp
      qed
      with x ty True show ?thesis unfolding \<open>events db3 = events db1\<close>
        by (intro older) (simp_all add: \<open>events db3 = events db1\<close>)
    qed
    with that show ?thesis by (simp add: link_errors_def True fold_edges_ok)
  next
    case False
    with that show ?thesis by (simp add: link_errors_def)
  qed
  ultimately show ?thesis unfolding 2(3) db2_def [symmetric] using ok2(2) by simp
qed (simp add: ok)

lemma amendCaseEvent_ok:
  assumes "case_ok db"
  shows "case_ok (amendCaseEvent fi f old new k i now db)"
  using assms case_ok_append(1) quiet_evidence(3)
  by (auto simp: amendCaseEvent_def split: option.split sum.split)

lemma keep_events_ok:
  assumes "case_ok db"
  shows "case_ok (keep_events P db)"
proof -
  let ?es = "filter P (events db)"
  have es: "events_ok (events db)" using assms by (simp add: case_ok_def)
  then have inj: "inj_on ce_id (set (events db))" by (simp add: events_ok_def distinct_map)
  have "events_ok ?es"
    using es unfolding events_ok_def by (auto simp: distinct_map_filter)
  moreover have "edge_ok ?es x" if "x \<in> set (edges db)" "e_from x \<in> ce_id ` set ?es" "e_to x \<in> ce_id ` set ?es" for x
  proof -
    from assms that(1) have "edge_ok (events db) x" by (simp add: case_ok_def)
    then obtain a b where ab: "a \<in> set (events db)" "b \<in> set (events db)" "ce_id a = e_from x" "ce_id b = e_to x"
      "ce_case a = ce_case b" "sequence_no b < sequence_no a"
      "edge_type x = ''resolved_by'' \<longrightarrow> event_type a = ''fix_attempted'' \<and> event_type b = ''error_observed''"
      unfolding edge_ok_def by blast
    have "a \<in> set ?es" "b \<in> set ?es" using that(2,3) ab(1-4) inj by (auto simp: inj_on_def)
    with ab show ?thesis unfolding edge_ok_def by blast
  qed
  ultimately show ?thesis by (auto simp: case_ok_def keep_events_def Let_def)
qed

lemma drop_fragment_ok: "case_ok db \<Longrightarrow> case_ok (drop_fragment f db)"
  by (simp add: case_ok_def drop_fragment_def)

text \<open>The histories of the three tables.\<close>

inductive case_reach :: "case_db \<Rightarrow> bool" where
  cr_empty: "case_reach \<lparr>events = [], edges = [], evidences = []\<rparr>"
| cr_record: "case_reach db \<Longrightarrow> recordCaseEvent fi f k i now db = Inr db' \<Longrightarrow> case_reach db'"
| cr_amend: "case_reach db \<Longrightarrow> case_reach (amendCaseEvent fi f old new k i now db)"
| cr_expire: "case_reach db \<Longrightarrow> deleteExpired now db = (n, db') \<Longrightarrow> case_reach db'"
| cr_drop: "case_reach db \<Longrightarrow> case_reach (drop_fragment f db)"

lemma case_reach_ok: "case_reach db \<Longrightarrow> case_ok db"
proof (induction rule: case_reach.induct)
  case cr_empty
  then show ?case by (simp add: case_ok_def events_ok_def)
qed (auto simp: recordCaseEvent_ok amendCaseEvent_ok keep_events_ok drop_fragment_ok deleteExpired_def)

definition edge_rel :: "event_edge list \<Rightarrow> (string \<times> string) set" where
  "edge_rel xs = (\<lambda>x. (e_from x, e_to x)) ` set xs"

lemma case_ok_acyclic:
  assumes "case_ok db"
  shows "acyclic (edge_rel (edges db))"
proof -
  have es: "events_ok (events db)" using assms by (simp add: case_ok_def)
  define sq where "sq i = (THE n. \<exists>e\<in>set (events db). ce_id e = i \<and> n = sequence_no e)" for i
  have sq: "sq (ce_id e) = sequence_no e" if "e \<in> set (events db)" for e
    unfolding sq_def using that es
    by (intro the_equality) (auto simp: events_ok_def distinct_map inj_on_def)
  have step: "sq j < sq i" if "(i, j) \<in> edge_rel (edges db)" for i j
  proof -
    from that assms obtain x where "x \<in> set (edges db)" "e_from x = i" "e_to x = j" "edge_ok (events db) x"
      by (auto simp: edge_rel_def case_ok_def)
    then show ?thesis by (auto simp: edge_ok_def sq [symmetric])
  qed
  have "sq j < sq i" if "(i, j) \<in> (edge_rel (edges db))\<^sup>+" for i j
    using that by (induction rule: trancl_induct) (auto dest: step)
  then show ?thesis unfolding acyclic_def by blast
qed


section \<open>What one recording adds\<close>

lemma sort_key_snoc:
  assumes "\<And>x. x \<in> set xs \<Longrightarrow> g x \<le> g e"
  shows "sort_key g (xs @ [e]) = sort_key g xs @ [e]"
proof -
  have ins: "insort_key g x (ys @ [e]) = insort_key g x ys @ [e]" if "g x \<le> g e" for x ys
    using that by (induction ys) auto
  show ?thesis using assms by (induction xs) (simp_all add: ins)
qed

lemma fold_fresh_edges:
  assumes "has_event a db" and "\<And>x. x \<in> set xs \<Longrightarrow> has_event (ce_id x) db" and "distinct (map ce_id xs)"
    and "\<And>x y. x \<in> set xs \<Longrightarrow> y \<in> set (edges db) \<Longrightarrow> \<not> same_edge a (ce_id x) t y"
    and "t \<in> {''caused_by'', ''resolved_by'', ''preceded_by'', ''contradicts''}"
  shows "edges (fold (\<lambda>x. quiet (addEdge a (ce_id x) t c)) xs db) =
         edges db @ map (\<lambda>x. \<lparr>e_from = a, e_to = ce_id x, edge_type = t, e_confidence = c\<rparr>) xs"
  using assms(1-4)
proof (induction xs arbitrary: db)
  case (Cons x xs)
  let ?e = "\<lparr>e_from = a, e_to = ce_id x, edge_type = t, e_confidence = c\<rparr>"
  have one: "quiet (addEdge a (ce_id x) t c) db = db\<lparr>edges := edges db @ [?e]\<rparr>"
    using Cons.prems(1,2,4) assms(5) by (auto simp: quiet_def addEdge_def list_ex_iff)
  have "edges (fold (\<lambda>x. quiet (addEdge a (ce_id x) t c)) xs (db\<lparr>edges := edges db @ [?e]\<rparr>)) =
        edges (db\<lparr>edges := edges db @ [?e]\<rparr>) @ map (\<lambda>x. \<lparr>e_from = a, e_to = ce_id x, edge_type = t, e_confidence = c\<rparr>) xs"
  proof (rule Cons.IH)
    show "has_event a (db\<lparr>edges := edges db @ [?e]\<rparr>)" using Cons.prems(1) by (simp add: has_event_def)
    show "has_event (ce_id y) (db\<lparr>edges := edges db @ [?e]\<rparr>)" if "y \<in> set xs" for y
      using Cons.prems(2) [of y] that by (simp add: has_event_def)
    show "distinct (map ce_id xs)" using Cons.prems(3) by simp
    show "\<not> same_edge a (ce_id y) t z" if "y \<in> set xs" "z \<in> set (edges (db\<lparr>edges := edges db @ [?e]\<rparr>))" for y z
    proof (cases "z = ?e")
      case True
      then show ?thesis using that(1) Cons.prems(3) by (auto simp: same_edge_def image_iff)
    next
      case False
      then show ?thesis using that Cons.prems(4) [of y z] by simp
    qed
  qed
  then show ?case by (simp add: one)
qed simp

definition edge :: "string \<Rightarrow> string \<Rightarrow> case_event \<Rightarrow> event_edge" where
  "edge t i x = \<lparr>e_from = i, e_to = ce_id x, edge_type = t, e_confidence = 1\<rparr>"

lemma sorted_case_distinct:
  assumes "case_ok db"
  shows "distinct (map ce_id (getByCase c opts db))"
proof -
  have "distinct (map ce_id (events db))" using assms by (simp add: case_ok_def events_ok_def)
  then have "distinct (map ce_id (filter (\<lambda>e. ce_case e = c \<and> event_matches opts e) (events db)))"
    by (rule distinct_map_filter)
  then have "distinct (map ce_id (in_order (filter (\<lambda>e. ce_case e = c \<and> event_matches opts e) (events db))))"
    by (simp add: in_order_def distinct_map)
  then show ?thesis unfolding getByCase_def by (simp add: take_map [symmetric] distinct_take)
qed

lemma edge_endpoints: "case_ok db \<Longrightarrow> x \<in> set (edges db) \<Longrightarrow> has_event (e_from x) db \<and> has_event (e_to x) db"
  unfolding case_ok_def edge_ok_def has_event_iff by (metis imageI)

abbreviation of_key :: "string option \<Rightarrow> case_opts" where
  "of_key k \<equiv> no_opts\<lparr>o_key := k\<rparr>"

text \<open>A store \<open>d\<close> in which the event \<open>e\<close> has just been appended to \<open>db\<close>.\<close>

definition appended :: "case_event \<Rightarrow> string option \<Rightarrow> case_db \<Rightarrow> case_db \<Rightarrow> bool" where
  "appended e k db d \<longleftrightarrow>
     case_ok db \<and> events d = events db @ [e] \<and> \<not> has_event (ce_id e) db \<and> ce_key e = k \<and>
     sequence_no e = next_seq (ce_case e) db \<and> (\<forall>x\<in>set (events db). ce_created x \<le> ce_created e)"

lemma appended_has: "appended e k db d \<Longrightarrow> has_event (ce_id e) d" "appended e k db d \<Longrightarrow> has_event i db \<Longrightarrow> has_event i d"
  by (simp_all add: appended_def has_event_iff)

lemma link_previous_edges:
  assumes ap: "appended e k db d" and "edges d = edges db"
  shows "edges (link_previous e k d) = edges db @
     (case getByCase (ce_case e) (of_key k) db of [] \<Rightarrow> [] | p # _ \<Rightarrow> [edge ''preceded_by'' (ce_id e) p])"
proof -
  note a = ap [unfolded appended_def]
  define old where "old = in_order (filter (\<lambda>x. ce_case x = ce_case e \<and> event_matches (of_key k) x) (events db))"
  have "event_matches (of_key k\<lparr>o_limit := Some 2\<rparr>) = event_matches (of_key k)"
    by (rule ext) (simp add: event_matches_def no_opts_def)
  moreover have "event_matches (of_key k) e" using a by (simp add: event_matches_def no_opts_def)
  moreover have "in_order (filter (\<lambda>x. ce_case x = ce_case e \<and> event_matches (of_key k) x) (events db) @ [e]) = old @ [e]"
    unfolding in_order_def old_def using a next_seq_above [of _ db "ce_case e"]
    by (intro sort_key_snoc) (auto simp: less_eq_prod_def dest: less_imp_le)
  ultimately have two: "getByCase (ce_case e) (no_opts\<lparr>o_limit := Some 2, o_key := k\<rparr>) d = take 2 (old @ [e])"
    using a by (simp add: getByCase_def no_opts_def)
  have all: "getByCase (ce_case e) (of_key k) db = take 100 old" by (simp add: getByCase_def old_def no_opts_def)
  have old_mem: "has_event (ce_id x) db" if "x \<in> set old" for x
    using that by (auto simp: old_def in_order_def has_event_iff)
  show ?thesis
  proof (cases old)
    case Nil
    then show ?thesis by (simp add: link_previous_def two all assms(2))
  next
    case (Cons p ps)
    then have p: "has_event (ce_id p) db" using old_mem by simp
    then have "ce_id p \<noteq> ce_id e" using a by auto
    moreover have "\<not> list_ex (same_edge (ce_id e) (ce_id p) ''preceded_by'') (edges db)"
      using edge_endpoints [of db] a unfolding list_ex_iff same_edge_def by metis
    ultimately show ?thesis
      using appended_has [OF ap] p Cons
      by (simp add: link_previous_def two all assms(2) quiet_def addEdge_def edge_def)
  qed
qed

lemma link_errors_edges:
  assumes ap: "appended e k db d"
    and "\<And>x. x \<in> set (edges d) \<Longrightarrow> e_from x = ce_id e \<Longrightarrow> edge_type x \<noteq> ''resolved_by''"
  shows "edges (link_errors e k d) = edges d @
     (if event_type e = ''fix_attempted''
      then map (edge ''resolved_by'' (ce_id e)) (getByCase (ce_case e) (of_key k\<lparr>o_type := Some ''error_observed''\<rparr>) db)
      else [])"
proof (cases "event_type e = ''fix_attempted''")
  case True
  note a = ap [unfolded appended_def]
  let ?errs = "getByCase (ce_case e) (no_opts\<lparr>o_type := Some ''error_observed'', o_key := k\<rparr>)"
  have errs: "?errs d = ?errs db" using a True by (simp add: getByCase_def event_matches_def no_opts_def)
  have "edges (fold (\<lambda>x. quiet (addEdge (ce_id e) (ce_id x) ''resolved_by'' 1)) (?errs db) d) =
    edges d @ map (\<lambda>x. \<lparr>e_from = ce_id e, e_to = ce_id x, edge_type = ''resolved_by'', e_confidence = 1\<rparr>) (?errs db)"
  proof (rule fold_fresh_edges)
    show "has_event (ce_id e) d" by (rule appended_has(1) [OF ap])
    show "has_event (ce_id x) d" if "x \<in> set (?errs db)" for x
      using getByCase_mem(1) [OF that] appended_has(2) [OF ap] by (simp add: has_event_iff)
    show "distinct (map ce_id (?errs db))" using a by (intro sorted_case_distinct) simp
    show "\<not> same_edge (ce_id e) (ce_id x) ''resolved_by'' y" if "y \<in> set (edges d)" for x y
      using assms(2) [OF that] by (auto simp: same_edge_def)
  qed simp
  with True errs show ?thesis by (simp add: link_errors_def edge_def [abs_def] no_opts_def)
qed (simp add: link_errors_def)

text \<open>
  What a recording links: on a clock that does not go back, a recorded event is added with the next
  sequence number and, of the events of the case that the key sees, a \<open>preceded_by\<close> edge leads to the
  first one in time (the comment of the code announces the last one before), and, if it is an
  attempted fix, a \<open>resolved_by\<close> edge leads to each of the first 100 errors; no other edge appears.
\<close>

theorem recording_links:
  assumes "case_ok db" and "\<forall>x\<in>set (events db). ce_created x \<le> now"
    and "map_of FRAG_TO_EVENT (cf_type f) = Some ty" and "cf_case f \<noteq> []" and "\<not> has_event i db"
  shows "\<exists>db'. recordCaseEvent fi f k i now db = Inr db' \<and>
     events db' = events db @ [(draft_event f ty k i now)\<lparr>sequence_no := next_seq (cf_case f) db\<rparr>] \<and>
     edges db' = edges db @
       (case getByCase (cf_case f) (of_key k) db of [] \<Rightarrow> [] | p # _ \<Rightarrow> [edge ''preceded_by'' i p]) @
       (if cf_type f = ''procedure''
        then map (edge ''resolved_by'' i) (getByCase (cf_case f) (of_key k\<lparr>o_type := Some ''error_observed''\<rparr>) db)
        else [])"
proof -
  define e where "e = (draft_event f ty k i now)\<lparr>sequence_no := next_seq (cf_case f) db\<rparr>"
  define db1 where "db1 = db\<lparr>events := events db @ [e]\<rparr>"
  define db2 where "db2 = quiet (addEvidence fi (cf_id f) i ''produced_by'' 1) db1"
  have ty: "ty \<in> set VALID_EVENT_TYPES" "ty \<noteq> []" "ty = ''fix_attempted'' \<longleftrightarrow> cf_type f = ''procedure''"
    using assms(3) by (auto simp: FRAG_TO_EVENT_def VALID_EVENT_TYPES_def split: if_split_asm)
  have e: "ce_id e = i" "ce_case e = cf_case f" "event_type e = ty" "ce_key e = k" "ce_created e = now"
    "sequence_no e = next_seq (cf_case f) db" by (simp_all add: e_def draft_event_def)
  have ap: "append_event (draft_event f ty k i now) db = Inr (e, db1)"
    using assms(4,5) ty by (simp add: append_event_def draft_event_def e_def db1_def Let_def)
  have d2: "appended e k db db2" "edges db2 = edges db"
    using assms(1,2,5) by (simp_all add: appended_def db2_def quiet_evidence db1_def e)
  then have d3: "appended e k db (link_previous e k db2)" by (simp add: appended_def)
  note x3 = link_previous_edges [OF d2, unfolded e]
  have "edge_type x \<noteq> ''resolved_by''" if "x \<in> set (edges (link_previous e k db2))" "e_from x = ce_id e" for x
  proof -
    have "x \<notin> set (edges db)" using that(2) edge_endpoints [OF assms(1)] assms(5) e(1) by metis
    with that(1) obtain p where "x = edge ''preceded_by'' i p" by (auto simp: x3 split: list.split_asm)
    then show ?thesis by (simp add: edge_def)
  qed
  note x4 = link_errors_edges [OF d3 this, unfolded e ty(3)]
  have "recordCaseEvent fi f k i now db = Inr (link_errors e k (link_previous e k db2))"
    by (simp add: recordCaseEvent_def assms(3) ap db2_def)
  moreover have "events (link_errors e k (link_previous e k db2)) = events db @ [e]"
    using d2(1) by (simp add: link_errors_def appended_def)
  moreover have "edges (link_errors e k (link_previous e k db2)) = edges db @
       (case getByCase (cf_case f) (of_key k) db of [] \<Rightarrow> [] | p # _ \<Rightarrow> [edge ''preceded_by'' i p]) @
       (if cf_type f = ''procedure''
        then map (edge ''resolved_by'' i) (getByCase (cf_case f) (of_key k\<lparr>o_type := Some ''error_observed''\<rparr>) db)
        else [])"
    using x4 unfolding x3 by (simp only: append_assoc)
  ultimately show ?thesis unfolding e_def [symmetric] by (intro exI conjI)
qed

text \<open>A case: an error, a decision and an attempted fix of key \<open>k1\<close>.\<close>

definition note_in_case :: "string \<Rightarrow> string \<Rightarrow> case_frag" where
  "note_in_case i ty = \<lparr>cf_id = i, cf_type = ty, cf_content = i, cf_keywords = [], cf_case = ''c'', cf_session = None\<rparr>"

definition record_in :: "string \<Rightarrow> string \<Rightarrow> string \<Rightarrow> int \<Rightarrow> case_db \<Rightarrow> case_db" where
  "record_in i ty ev t db =
     (case recordCaseEvent (\<lambda>_. True) (note_in_case i ty) (Some ''k1'') ev t db of Inl _ \<Rightarrow> db | Inr d \<Rightarrow> d)"

definition sample_case :: case_db where
  "sample_case =
     record_in ''f2'' ''decision'' ''e2'' 20 (record_in ''f1'' ''error'' ''e1'' 10 \<lparr>events = [], edges = [], evidences = []\<rparr>)"

lemma case_reach_record_in: "case_reach db \<Longrightarrow> case_reach (record_in i ty ev t db)"
  by (auto simp: record_in_def intro: cr_record split: sum.split)

lemma sample_case_reach: "case_reach sample_case"
  unfolding sample_case_def by (intro case_reach_record_in cr_empty)


lemma sample_case_events: "map ce_created (events sample_case) = [10, 20] \<and> map ce_id (events sample_case) = [''e1'', ''e2'']"
  by code_simp

theorem recording_links_witness:
  "\<exists>db'. recordCaseEvent (\<lambda>_. True) (note_in_case ''f3'' ''procedure'') (Some ''k1'') ''e3'' 30 sample_case = Inr db' \<and>
     length (events db') = 3 \<and> edges db' = edges sample_case @
       (case getByCase ''c'' (of_key (Some ''k1'')) sample_case of [] \<Rightarrow> [] | p # _ \<Rightarrow> [edge ''preceded_by'' ''e3'' p]) @
       map (edge ''resolved_by'' ''e3'')
         (getByCase ''c'' (of_key (Some ''k1'')\<lparr>o_type := Some ''error_observed''\<rparr>) sample_case)"
proof -
  have ids: "ce_id ` set (events sample_case) = {''e1'', ''e2''}"
    using sample_case_events [THEN conjunct2, THEN arg_cong [where f = set]] by simp
  have fresh: "\<not> has_event ''e3'' sample_case" unfolding has_event_iff ids by simp
  have "ce_created ` set (events sample_case) = {10, 20}"
    using sample_case_events [THEN conjunct1, THEN arg_cong [where f = set]] by simp
  then have "x \<in> set (events sample_case) \<Longrightarrow> ce_created x \<in> {10, 20}" for x by blast
  then have old: "\<forall>x\<in>set (events sample_case). ce_created x \<le> 30" by fastforce
  have two: "length (events sample_case) = 2"
    using sample_case_events [THEN conjunct1, THEN arg_cong [where f = length]] by simp
  have ty: "map_of FRAG_TO_EVENT (cf_type (note_in_case ''f3'' ''procedure'')) = Some ''fix_attempted''"
    "cf_case (note_in_case ''f3'' ''procedure'') = ''c''" "cf_type (note_in_case ''f3'' ''procedure'') = ''procedure''"
    by (simp_all add: FRAG_TO_EVENT_def note_in_case_def)
  have ne: "cf_case (note_in_case ''f3'' ''procedure'') \<noteq> []" by (simp add: ty(2))
  note r = recording_links [OF case_reach_ok [OF sample_case_reach] old ty(1) ne fresh, of "\<lambda>_. True" "Some ''k1''",
      unfolded ty(2,3) if_True simp_thms(6)]
  from r obtain db' where db': "recordCaseEvent (\<lambda>_. True) (note_in_case ''f3'' ''procedure'') (Some ''k1'') ''e3'' 30 sample_case = Inr db'"
    "events db' = events sample_case @ [(draft_event (note_in_case ''f3'' ''procedure'') ''fix_attempted'' (Some ''k1'') ''e3'' 30)
       \<lparr>sequence_no := next_seq ''c'' sample_case\<rparr>]"
    "edges db' = edges sample_case @
       (case getByCase ''c'' (of_key (Some ''k1'')) sample_case of [] \<Rightarrow> [] | p # _ \<Rightarrow> [edge ''preceded_by'' ''e3'' p]) @
       map (edge ''resolved_by'' ''e3'')
         (getByCase ''c'' (of_key (Some ''k1'')\<lparr>o_type := Some ''error_observed''\<rparr>) sample_case)"
    by (elim exE conjE) (rule that)
  have "length (events db') = 3" unfolding db'(2) length_append two by simp
  with db'(1,3) show ?thesis by (intro exI conjI)
qed

end
