(* ===== verification/History.thy ===== *)
theory History
  imports CaseEvents
begin

text \<open>
  Reconstruction of the history of a case or an entity: \<open>lib/memory/read/HistoryReconstructor.js\<close> on the
  fragment table (here with the columns that it reads), the links of theory \<open>Links\<close> and the event graph
  of theory \<open>CaseEvents\<close>.

  The search in the graph of causal links is the function \<open>walk\<close>, with the queue, the visited set and the
  chain of the code; it stops on every graph, cycles included, because every round shortens the queue
  or visits a node for the first time.  \<open>ILIKE\<close> is case-insensitive containment in Latin-1.  The text of
  \<open>_buildSummary\<close> is left out.
\<close>

record hist_frag =
  hf_id :: string
  hf_content :: string
  hf_topic :: string
  hf_keywords :: "string list"
  hf_case :: "string option"
  hf_key :: "string option"
  hf_workspace :: "string option"
  hf_resolution :: "string option"
  hf_created :: int
  hf_live :: bool

record hist_params =
  p_case :: "string option"
  p_entity :: "string option"
  p_from :: "int option"
  p_to :: "int option"
  p_query :: "string option"
  p_limit :: "nat option"
  p_key :: "string option"
  p_groups :: "string list option"
  p_workspace :: "string option"

record causal_chain =
  root_id :: string
  chain_nodes :: "(hist_frag \<times> nat) list"
  chain_length :: nat
  is_resolved :: bool

datatype branch = FragBranch hist_frag | EventBranch case_event

record history =
  ordered_timeline :: "hist_frag list"
  causal_chains :: "causal_chain list"
  unresolved_branches :: "branch list"
  supporting_fragments :: "hist_frag list"
  case_events :: "case_event list"
  event_evidence :: "(fragment \<times> evidence) list list"
  event_dag :: "event_edge list"

section \<open>Timeline and links\<close>

definition ilike :: "string \<Rightarrow> string \<Rightarrow> bool" where
  "ilike p t = contains (map js_lower p) (map js_lower t)"

definition group_keys :: "hist_params \<Rightarrow> string list" where
  "group_keys p = (case p_groups p of Some gs \<Rightarrow> gs | None \<Rightarrow> (case p_key p of None \<Rightarrow> [] | Some k \<Rightarrow> [k]))"

text \<open>The numbers of the placeholders before the key clause do not matter to it (\<open>clause_holds\<close>).\<close>

definition fetchTimeline :: "hist_params \<Rightarrow> hist_frag list \<Rightarrow> hist_frag list" where
  "fetchTimeline p fs =
     (let (ps, cl) = keyScopeClause [] ''f.key_id'' (p_key p) (Some (group_keys p));
          about = (\<lambda>f. if truthy (p_case p) then hf_case f = p_case p
                       else (case p_entity p of None \<Rightarrow> False
                             | Some e \<Rightarrow> ilike e (hf_topic f) \<or> map js_lower e \<in> set (hf_keywords f)))
      in take (min (nullish_to (p_limit p) 100) 500)
           (sort_key hf_created
             (filter (\<lambda>f. about f \<and>
                (case p_from p of None \<Rightarrow> True | Some t \<Rightarrow> t \<le> hf_created f) \<and>
                (case p_to p of None \<Rightarrow> True | Some t \<Rightarrow> hf_created f \<le> t) \<and>
                (truthy (p_query p) \<longrightarrow> (case p_query p of None \<Rightarrow> True | Some q \<Rightarrow> ilike q (hf_content f))) \<and>
                holds ps cl (hf_key f) \<and>
                (truthy (p_workspace p) \<longrightarrow> hf_workspace f = p_workspace p \<or> hf_workspace f = None) \<and>
                hf_live f) fs)))"

definition fetchLinks :: "string list \<Rightarrow> link_row list \<Rightarrow> link_row list" where
  "fetchLinks ids ls =
     (if ids = [] then [] else filter (\<lambda>l. (l_from l \<in> set ids \<or> l_to l \<in> set ids) \<and> \<not> l_deleted l) ls)"

section \<open>Causal chains\<close>

definition CAUSAL_TYPES :: "string list" where
  "CAUSAL_TYPES = [''caused_by'', ''resolved_by'']"

definition causal_edges :: "link_row list \<Rightarrow> event_edge list \<Rightarrow> (string \<times> string) list" where
  "causal_edges ls dag =
     map (\<lambda>l. (l_from l, l_to l)) (filter (\<lambda>l. relation l \<in> set CAUSAL_TYPES) ls) @
     map (\<lambda>x. (e_from x, e_to x)) (filter (\<lambda>x. edge_type x \<in> set CAUSAL_TYPES) dag)"

definition outgoing :: "(string \<times> string) list \<Rightarrow> string \<Rightarrow> string list" where
  "outgoing L i = map snd (filter (\<lambda>l. fst l = i) L)"

lemma set_outgoing: "set (outgoing L c) = set L `` {c}"
  by (force simp: outgoing_def)

text \<open>\<open>[...new Set(xs)]\<close>: the first occurrence of each element.\<close>

definition js_set :: "'a list \<Rightarrow> 'a list" where
  "js_set xs = rev (remdups (rev xs))"

definition chain_roots :: "(string \<times> string) list \<Rightarrow> string list" where
  "chain_roots L = filter (\<lambda>i. i \<notin> set (map snd L)) (js_set (map fst L))"

definition frag_of :: "hist_frag list \<Rightarrow> string \<Rightarrow> hist_frag option" where
  "frag_of fs i = find (\<lambda>f. hf_id f = i) (rev fs)"

function walk ::
  "(string \<times> string) list \<Rightarrow> (string \<Rightarrow> 'f option) \<Rightarrow> string list \<Rightarrow> string list \<Rightarrow> ('f \<times> nat) list \<Rightarrow> ('f \<times> nat) list" where
  "walk L fm [] visited ch = ch"
| "walk L fm (c # q) visited ch =
     (if c \<in> set visited then walk L fm q visited ch
      else walk L fm (q @ filter (\<lambda>x. x \<notin> set (c # visited)) (outgoing L c)) (c # visited)
             (case fm c of None \<Rightarrow> ch | Some f \<Rightarrow> ch @ [(f, length ch)]))"
  by pat_completeness auto

termination
proof (relation "measures [\<lambda>(L, fm, q, visited, ch). card ((set q \<union> snd ` set L) - set visited),
    \<lambda>(L, fm, q, visited, ch). length q]", goal_cases)
  case (2 L fm c q visited ch)
  have "card ((set q \<union> snd ` set L) - set visited) \<le> card ((set (c # q) \<union> snd ` set L) - set visited)"
    by (intro card_mono) auto
  then show ?case by auto
next
  case (3 L fm c q visited ch)
  have "(set (q @ filter (\<lambda>x. x \<notin> set (c # visited)) (outgoing L c)) \<union> snd ` set L) - set (c # visited)
      \<subset> (set (c # q) \<union> snd ` set L) - set visited"
    using 3 by (auto simp: set_outgoing image_iff) force+
  then have "card ((set (q @ filter (\<lambda>x. x \<notin> set (c # visited)) (outgoing L c)) \<union> snd ` set L) - set (c # visited))
      < card ((set (c # q) \<union> snd ` set L) - set visited)"
    by (intro psubset_card_mono) auto
  then show ?case by simp
qed simp

definition buildCausalChains :: "hist_frag list \<Rightarrow> link_row list \<Rightarrow> event_edge list \<Rightarrow> causal_chain list" where
  "buildCausalChains fs ls dag =
     (let L = causal_edges ls dag
      in if L = [] then []
         else List.map_filter (\<lambda>r.
                (let ch = walk L (frag_of fs) [r] [] []
                 in if ch = [] then None
                    else Some \<lparr>root_id = r, chain_nodes = ch, chain_length = length ch,
                               is_resolved = list_ex (\<lambda>(f, n). hf_resolution f = Some ''resolved'') ch\<rparr>))
              (chain_roots L))"

definition detectUnresolvedBranches ::
  "hist_frag list \<Rightarrow> causal_chain list \<Rightarrow> case_event list \<Rightarrow> event_edge list \<Rightarrow> branch list" where
  "detectUnresolvedBranches fs chs evs dag =
     (let done_ids = concat (map (\<lambda>c. map (\<lambda>(f, n). hf_id f) (chain_nodes c)) (filter is_resolved chs));
          from_ids = map e_from (filter (\<lambda>x. edge_type x = ''resolved_by'') dag)
      in map FragBranch (filter (\<lambda>f. hf_resolution f = Some ''open'' \<and> hf_id f \<notin> set done_ids) fs) @
         map EventBranch (filter (\<lambda>e. event_type e = ''error_observed'' \<and> ce_id e \<notin> set from_ids) evs))"

text \<open>What \<open>reconstruct\<close> returns for a timeline, the events, their evidence and the event graph.\<close>

definition assemble ::
  "hist_frag list \<Rightarrow> case_event list \<Rightarrow> (fragment \<times> evidence) list list \<Rightarrow> event_edge list \<Rightarrow> link_row list \<Rightarrow> history" where
  "assemble timeline evs evid dag ls =
     (if timeline = [] \<and> evs = []
      then \<lparr>ordered_timeline = [], causal_chains = [], unresolved_branches = [], supporting_fragments = [],
            case_events = [], event_evidence = [], event_dag = []\<rparr>
      else let links = fetchLinks (map hf_id timeline) ls;
               chs = buildCausalChains timeline links dag;
               chained = concat (map (\<lambda>c. map (\<lambda>(f, n). hf_id f) (chain_nodes c)) chs)
           in \<lparr>ordered_timeline = timeline, causal_chains = chs,
               unresolved_branches = detectUnresolvedBranches timeline chs evs dag,
               supporting_fragments = filter (\<lambda>f. hf_id f \<notin> set chained) timeline,
               case_events = evs, event_evidence = evid, event_dag = dag\<rparr>)"

definition events_of_call :: "hist_params \<Rightarrow> case_db \<Rightarrow> case_event list" where
  "events_of_call p cdb = (if truthy (p_case p) then getByCase (the (p_case p)) (of_key (p_key p)) cdb else [])"

text \<open>\<open>reconstruct\<close> with a case event store; \<open>Inl\<close> is the exception for missing parameters.\<close>

definition reconstruct ::
  "hist_params \<Rightarrow> hist_frag list \<Rightarrow> link_row list \<Rightarrow> store \<Rightarrow> case_db \<Rightarrow> unit + history" where
  "reconstruct p fs ls st cdb =
     (if \<not> truthy (p_case p) \<and> \<not> truthy (p_entity p) then Inl ()
      else let evs = events_of_call p cdb
           in Inr (assemble (fetchTimeline p fs) evs
                     (map (\<lambda>e. getEvidenceByEvent (ce_id e) (p_key p) st cdb) evs)
                     (getEdgesByEvents (map ce_id evs) (p_key p) cdb) ls))"

section \<open>The walk\<close>

definition closed :: "('a \<times> 'a) set \<Rightarrow> 'a set \<Rightarrow> 'a set \<Rightarrow> bool" where
  "closed R V Q \<longleftrightarrow> R `` V \<subseteq> V \<union> Q"

lemma closed_reach:
  assumes "closed R V Q" and "v \<in> V" and "(v, y) \<in> R\<^sup>*"
  shows "y \<in> V \<or> y \<in> R\<^sup>* `` Q"
  using assms(3)
proof (induction rule: rtrancl_induct)
  case base
  then show ?case using assms(2) by simp
next
  case (step y z)
  then show ?case using assms(1) unfolding closed_def by (meson Image_iff Un_iff rtrancl.rtrancl_into_rtrancl rtrancl.rtrancl_refl subsetD)
qed

lemma walk_spec:
  assumes "closed (set L) (set visited) (set q)"
  shows "\<exists>vs. distinct vs \<and> set vs = (set L)\<^sup>* `` set q - set visited \<and>
     (let fs = List.map_filter fm vs in walk L fm q visited ch = ch @ zip fs [length ch..<length ch + length fs])"
  using assms
proof (induction L fm q visited ch rule: walk.induct)
  case (1 L fm visited ch)
  then show ?case by (intro exI [of _ "[]"]) (simp add: map_filter_simps)
next
  case (2 L fm c q visited ch)
  let ?R = "(set L)\<^sup>*"
  show ?case
  proof (cases "c \<in> set visited")
    case True
    then have cl: "closed (set L) (set visited) (set q)" using 2(3) by (auto simp: closed_def)
    have "?R `` set (c # q) - set visited = ?R `` set q - set visited"
      using closed_reach [OF cl True] by auto
    with 2(1) [OF True cl] True show ?thesis by simp
  next
    case False
    define q' where "q' = q @ filter (\<lambda>x. x \<notin> set (c # visited)) (outgoing L c)"
    define ch' where "ch' = (case fm c of None \<Rightarrow> ch | Some f \<Rightarrow> ch @ [(f, length ch)])"
    have cl: "closed (set L) (set (c # visited)) (set q')"
      using 2(3) by (auto simp: closed_def q'_def set_outgoing)
    from 2(2) [OF False] cl obtain vs where vs: "distinct vs" "set vs = ?R `` set q' - set (c # visited)"
      "walk L fm q' (c # visited) ch' =
        ch' @ zip (List.map_filter fm vs) [length ch'..<length ch' + length (List.map_filter fm vs)]"
      by (auto simp: q'_def ch'_def Let_def)
    have "set q' \<subseteq> ?R `` set (c # q)" by (auto simp: q'_def set_outgoing)
    then have "?R `` set q' \<subseteq> ?R `` set (c # q)" by (auto intro: rtrancl_trans)
    moreover have "?R `` set (c # q) \<subseteq> insert c (set visited) \<union> ?R `` set q'"
    proof
      fix y assume "y \<in> ?R `` set (c # q)"
      then consider "(c, y) \<in> ?R" | "y \<in> ?R `` set q'" by (auto simp: q'_def)
      then show "y \<in> insert c (set visited) \<union> ?R `` set q'"
        using closed_reach [OF cl, of c y] by cases auto
    qed
    moreover have "c \<in> ?R `` set (c # q)" "c \<notin> set visited" using False by auto
    moreover have "insert c (A - insert c V) = B - V" if "A \<subseteq> B" "B \<subseteq> insert c V \<union> A" "c \<in> B" "c \<notin> V" for A B V
      using that by blast
    ultimately have set_vs: "set (c # vs) = ?R `` set (c # q) - set visited"
      using vs(2) by (simp only: list.set(2))
    have step: "walk L fm (c # q) visited ch = walk L fm q' (c # visited) ch'"
      using False by (simp only: walk.simps q'_def ch'_def if_False)
    have "walk L fm (c # q) visited ch =
        ch @ zip (List.map_filter fm (c # vs)) [length ch..<length ch + length (List.map_filter fm (c # vs))]"
    proof (cases "fm c")
      case None
      then show ?thesis unfolding step vs(3) by (simp add: ch'_def map_filter_simps)
    next
      case (Some f)
      have "[length ch..<length ch + Suc n] = length ch # [Suc (length ch)..<Suc (length ch) + n]" for n
        by (simp add: upt_conv_Cons del: upt_Suc)
      with Some show ?thesis unfolding step vs(3) by (simp add: ch'_def map_filter_simps del: upt_Suc)
    qed
    then show ?thesis using vs(1,2) set_vs by (intro exI [of _ "c # vs"]) (auto simp: Let_def)
  qed
qed

lemma map_filter_option:
  "set (List.map_filter fm vs) = {f. \<exists>i\<in>set vs. fm i = Some f}"
  by (induction vs) (auto simp: map_filter_simps split: option.split)

lemma frag_of_iff:
  assumes "distinct (map hf_id fs)"
  shows "frag_of fs i = Some f \<longleftrightarrow> f \<in> set fs \<and> hf_id f = i"
proof -
  have inj: "inj_on hf_id (set fs)" using assms by (simp add: distinct_map)
  have hit: "g \<in> set fs \<and> hf_id g = i" if "frag_of fs i = Some g" for g
    using find_SomeD [OF that [unfolded frag_of_def]] by simp
  show ?thesis
  proof
    assume f: "f \<in> set fs \<and> hf_id f = i"
    then have "frag_of fs i \<noteq> None" by (auto simp: frag_of_def find_None_iff)
    then obtain g where g: "frag_of fs i = Some g" by blast
    from hit [OF this] f inj have "g = f" by (simp add: inj_on_def)
    with g show "frag_of fs i = Some f" by simp
  qed (rule hit)
qed

lemma chain_walk:
  assumes "distinct (map hf_id fs)" and "walk L (frag_of fs) [r] [] [] = ch"
  shows "set (map fst ch) = {f \<in> set fs. (r, hf_id f) \<in> (set L)\<^sup>*}" "distinct (map (\<lambda>n. hf_id (fst n)) ch)"
    "map snd ch = [0..<length ch]"
proof -
  have "closed (set L) (set []) (set [r])" by (simp add: closed_def)
  from walk_spec [OF this, of "frag_of fs" "[]"] obtain vs where vs: "distinct vs" "set vs = {y. (r, y) \<in> (set L)\<^sup>*}"
    "ch = zip (List.map_filter (frag_of fs) vs) [0..<length (List.map_filter (frag_of fs) vs)]"
    using assms(2) by (auto simp: Let_def)
  then have fst: "map fst ch = List.map_filter (frag_of fs) vs" and snd: "map snd ch = [0..<length ch]" by simp_all
  have mem: "f \<in> set (List.map_filter (frag_of fs) us) \<longleftrightarrow> f \<in> set fs \<and> hf_id f \<in> set us" for f us
    by (auto simp: map_filter_option frag_of_iff [OF assms(1)])
  show "set (map fst ch) = {f \<in> set fs. (r, hf_id f) \<in> (set L)\<^sup>*}" 
    unfolding fst by (rule set_eqI) (simp add: mem vs(2))
  have "distinct (map hf_id (List.map_filter (frag_of fs) vs))" using vs(1)
  proof (induction vs)
    case (Cons v vs)
    show ?case
    proof (cases "frag_of fs v")
      case None
      with Cons show ?thesis by (simp add: map_filter_simps)
    next
      case (Some f)
      then have "hf_id f = v" by (simp add: frag_of_iff [OF assms(1)])
      then have "hf_id f \<notin> hf_id ` set (List.map_filter (frag_of fs) vs)" using Cons.prems mem by auto
      with Cons Some show ?thesis by (simp add: map_filter_simps)
    qed
  qed (simp add: map_filter_simps)
  then show "distinct (map (\<lambda>n. hf_id (fst n)) ch)"
    unfolding fst [symmetric] by (simp add: o_def)
  show "map snd ch = [0..<length ch]" by (rule snd)
qed

text \<open>
  C18. The causal chains are exact, on every graph of links and event edges, cyclic ones included (the
  search ends on each): there is one chain for every start of a causal edge that is no end of one and
  from which some fragment of the timeline is reachable; it holds exactly the fragments of the timeline
  reachable from its root, each once, numbered in the order of discovery, and is resolved exactly when
  one of them is.
\<close>

theorem causal_chains_exact:
  assumes "distinct (map hf_id fs)" and L_def: "L = causal_edges ls dag"
  shows "map root_id (buildCausalChains fs ls dag) =
           filter (\<lambda>r. \<exists>f\<in>set fs. (r, hf_id f) \<in> (set L)\<^sup>*) (chain_roots L) \<and>
         (\<forall>c\<in>set (buildCausalChains fs ls dag).
            set (map fst (chain_nodes c)) = {f \<in> set fs. (root_id c, hf_id f) \<in> (set L)\<^sup>*} \<and>
            distinct (map (\<lambda>n. hf_id (fst n)) (chain_nodes c)) \<and>
            map snd (chain_nodes c) = [0..<chain_length c] \<and>
            (is_resolved c \<longleftrightarrow>
               (\<exists>f\<in>set fs. (root_id c, hf_id f) \<in> (set L)\<^sup>* \<and> hf_resolution f = Some ''resolved'')))"
proof -
  define ch where "ch r = walk L (frag_of fs) [r] [] []" for r
  define mk where "mk r = \<lparr>root_id = r, chain_nodes = ch r, chain_length = length (ch r),
      is_resolved = list_ex (\<lambda>(f, n). hf_resolution f = Some ''resolved'') (ch r)\<rparr>" for r
  have ch: "set (map fst (ch r)) = {f \<in> set fs. (r, hf_id f) \<in> (set L)\<^sup>*}" "distinct (map (\<lambda>n. hf_id (fst n)) (ch r))"
    "map snd (ch r) = [0..<length (ch r)]" for r
    using chain_walk [OF assms(1) ch_def [symmetric]] by simp_all
  have ne: "ch r \<noteq> [] \<longleftrightarrow> (\<exists>f\<in>set fs. (r, hf_id f) \<in> (set L)\<^sup>*)" for r
    using ch(1) [of r] by (cases "ch r") auto
  have "List.map_filter (\<lambda>r. if ch r = [] then None else Some (mk r)) rs = map mk (filter (\<lambda>r. ch r \<noteq> []) rs)" for rs
    by (induction rs) (simp_all add: map_filter_simps)
  then have build: "buildCausalChains fs ls dag = map mk (filter (\<lambda>r. ch r \<noteq> []) (chain_roots L))"
    unfolding buildCausalChains_def L_def [symmetric] Let_def ch_def [symmetric] mk_def [symmetric]
    by (simp add: chain_roots_def js_set_def)
  have res: "is_resolved (mk r) \<longleftrightarrow> (\<exists>f\<in>set fs. (r, hf_id f) \<in> (set L)\<^sup>* \<and> hf_resolution f = Some ''resolved'')" for r
  proof -
    have "is_resolved (mk r) \<longleftrightarrow> (\<exists>f\<in>set (map fst (ch r)). hf_resolution f = Some ''resolved'')"
      by (auto simp: mk_def list_ex_iff case_prod_unfold)
    then show ?thesis unfolding ch(1) by auto
  qed
  show ?thesis
  proof (intro conjI ballI)
    show "map root_id (buildCausalChains fs ls dag) = filter (\<lambda>r. \<exists>f\<in>set fs. (r, hf_id f) \<in> (set L)\<^sup>*) (chain_roots L)"
      by (simp add: build ne mk_def o_def)
    fix c assume "c \<in> set (buildCausalChains fs ls dag)"
    then obtain r where c: "c = mk r" by (auto simp: build)
    then have "root_id c = r" "chain_nodes c = ch r" "chain_length c = length (ch r)" by (simp_all add: mk_def)
    then show "set (map fst (chain_nodes c)) = {f \<in> set fs. (root_id c, hf_id f) \<in> (set L)\<^sup>*}"
      "distinct (map (\<lambda>n. hf_id (fst n)) (chain_nodes c))" "map snd (chain_nodes c) = [0..<chain_length c]"
      "is_resolved c \<longleftrightarrow> (\<exists>f\<in>set fs. (root_id c, hf_id f) \<in> (set L)\<^sup>* \<and> hf_resolution f = Some ''resolved'')"
      using ch [of r] res [of r] c by simp_all
  qed
qed

lemma chain_in_timeline:
  assumes "c \<in> set (buildCausalChains fs ls dag)" and "(f, n) \<in> set (chain_nodes c)"
  shows "f \<in> set fs"
proof -
  let ?L = "causal_edges ls dag"
  obtain r where "chain_nodes c = walk ?L (frag_of fs) [r] [] []"
    using assms(1) unfolding buildCausalChains_def Let_def by (auto simp: map_filter_option split: if_split_asm)
  moreover have "closed (set ?L) (set []) (set [r])" by (simp add: closed_def)
  from walk_spec [OF this, of "frag_of fs" "[]"] obtain vs where
    "walk ?L (frag_of fs) [r] [] [] = zip (List.map_filter (frag_of fs) vs) [0..<length (List.map_filter (frag_of fs) vs)]"
    by (auto simp: Let_def)
  ultimately have "f \<in> set (List.map_filter (frag_of fs) vs)" using assms(2) by (auto dest: set_zip_leftD)
  then obtain i where i: "frag_of fs i = Some f" by (auto simp: map_filter_option)
  from find_SomeD [OF i [unfolded frag_of_def]] show ?thesis by simp
qed

lemma assemble_fields:
  assumes "E = [] \<Longrightarrow> V = [] \<and> D = []"
  shows "ordered_timeline (assemble T E V D ls) = T" "case_events (assemble T E V D ls) = E"
    "event_evidence (assemble T E V D ls) = V" "event_dag (assemble T E V D ls) = D"
    "set (causal_chains (assemble T E V D ls)) \<subseteq> set (buildCausalChains T (fetchLinks (map hf_id T) ls) D)"
    "E \<noteq> [] \<Longrightarrow> unresolved_branches (assemble T E V D ls) =
       detectUnresolvedBranches T (causal_chains (assemble T E V D ls)) E D"
  using assms by (simp_all add: assemble_def Let_def)

lemma reconstruct_fields:
  assumes "reconstruct p fs ls st cdb = Inr h"
  defines "E \<equiv> events_of_call p cdb" and "T \<equiv> fetchTimeline p fs"
  shows "ordered_timeline h = T" "case_events h = E"
    "event_evidence h = map (\<lambda>e. getEvidenceByEvent (ce_id e) (p_key p) st cdb) E"
    "event_dag h = getEdgesByEvents (map ce_id E) (p_key p) cdb"
    "set (causal_chains h) \<subseteq> set (buildCausalChains T (fetchLinks (map hf_id T) ls) (event_dag h))"
    "E \<noteq> [] \<Longrightarrow> unresolved_branches h = detectUnresolvedBranches T (causal_chains h) E (event_dag h)"
proof -
  define V where "V = map (\<lambda>e. getEvidenceByEvent (ce_id e) (p_key p) st cdb) E"
  define D where "D = getEdgesByEvents (map ce_id E) (p_key p) cdb"
  have h: "h = assemble T E V D ls"
    using assms(1) by (simp add: reconstruct_def Let_def E_def T_def V_def D_def split: if_split_asm)
  have empty: "E = [] \<Longrightarrow> V = [] \<and> D = []" by (simp add: V_def D_def getEdgesByEvents_def)
  note fields = assemble_fields [where E = E and V = V and D = D and T = T and ls = ls, OF empty]
  show "ordered_timeline h = T" unfolding h by (rule fields(1))
  show "case_events h = E" unfolding h by (rule fields(2))
  show "event_evidence h = map (\<lambda>e. getEvidenceByEvent (ce_id e) (p_key p) st cdb) E"
    unfolding h V_def [symmetric] by (rule fields(3))
  have D: "event_dag h = D" unfolding h by (rule fields(4))
  show "event_dag h = getEdgesByEvents (map ce_id E) (p_key p) cdb" unfolding D D_def by (rule refl)
  show "set (causal_chains h) \<subseteq> set (buildCausalChains T (fetchLinks (map hf_id T) ls) (event_dag h))"
    unfolding D unfolding h by (rule fields(5))
  show "E \<noteq> [] \<Longrightarrow> unresolved_branches h = detectUnresolvedBranches T (causal_chains h) E (event_dag h)"
    unfolding D unfolding h by (rule fields(6))
qed

lemma events_of_call_mem:
  assumes "e \<in> set (events_of_call p cdb)"
  shows "e \<in> set (events cdb)" "p_key p = Some k \<Longrightarrow> ce_key e = Some k"
proof -
  from assms have e: "e \<in> set (getByCase (the (p_case p)) (of_key (p_key p)) cdb)"
    by (simp add: events_of_call_def split: if_split_asm)
  show "e \<in> set (events cdb)" by (rule getByCase_mem(1) [OF e])
  show "p_key p = Some k \<Longrightarrow> ce_key e = Some k" using getByCase_mem(3) [OF e] by (simp add: event_matches_def)
qed

lemma fetchTimeline_mem:
  assumes "f \<in> set (fetchTimeline p fs)"
  shows "f \<in> set fs" "hf_live f" "in_scope (p_key p) (Some (group_keys p)) (hf_key f)"
proof -
  obtain ps cl where kc: "keyScopeClause [] ''f.key_id'' (p_key p) (Some (group_keys p)) = (ps, cl)" by fastforce
  have "f \<in> set fs \<and> hf_live f \<and> holds ps cl (hf_key f)"
    using assms unfolding fetchTimeline_def Let_def kc prod.case by (auto dest!: in_set_takeD)
  then show "f \<in> set fs" "hf_live f" "in_scope (p_key p) (Some (group_keys p)) (hf_key f)"
    using clause_holds [OF kc, of "[]"] by simp_all
qed

text \<open>
  A history stays inside the tenant: for a call with key \<open>k\<close>, the timeline has at most 500
  fragments, all in force and owned by \<open>k\<close> or its group, the chains contain fragments of the timeline
  only (although links are fetched without a key filter), and every event, every edge of the event
  graph and every piece of evidence belongs to \<open>k\<close> itself.
\<close>

theorem history_isolated:
  assumes "reconstruct p fs ls st cdb = Inr h" and "p_key p = Some k"
  shows "length (ordered_timeline h) \<le> 500 \<and>
         (\<forall>f\<in>set (ordered_timeline h). hf_live f \<and> in_scope (Some k) (Some (group_keys p)) (hf_key f)) \<and>
         (\<forall>c\<in>set (causal_chains h). \<forall>(f, n)\<in>set (chain_nodes c). f \<in> set (ordered_timeline h)) \<and>
         (\<forall>e\<in>set (case_events h). ce_key e = Some k) \<and>
         (\<forall>x\<in>set (event_dag h). owned_by k (e_from x) cdb \<and> owned_by k (e_to x) cdb) \<and>
         (\<forall>ev\<in>set (event_evidence h). \<forall>(f, x)\<in>set ev. fkey f = Some k)"
proof (intro conjI ballI)
  note fields = reconstruct_fields [OF assms(1)]
  show "length (ordered_timeline h) \<le> 500"
    by (auto simp: fields(1) fetchTimeline_def Let_def split: prod.split)
  show "hf_live f" "in_scope (Some k) (Some (group_keys p)) (hf_key f)" if "f \<in> set (ordered_timeline h)" for f
    using fetchTimeline_mem [of f p fs] that assms(2) by (simp_all add: fields(1))
  show "case n of (f, n) \<Rightarrow> f \<in> set (ordered_timeline h)"
    if "c \<in> set (causal_chains h)" "n \<in> set (chain_nodes c)" for c n
  proof -
    obtain f j where n: "n = (f, j)" by (cases n)
    from that(1) fields(5) have "c \<in> set (buildCausalChains (fetchTimeline p fs)
        (fetchLinks (map hf_id (fetchTimeline p fs)) ls) (event_dag h))" by blast
    from chain_in_timeline [OF this that(2) [unfolded n]] show ?thesis by (simp add: n fields(1))
  qed
  show "ce_key e = Some k" if "e \<in> set (case_events h)" for e
    using that events_of_call_mem(2) assms(2) by (simp add: fields(2))
  show "owned_by k (e_from x) cdb" "owned_by k (e_to x) cdb" if "x \<in> set (event_dag h)" for x
    using that by (simp_all add: fields(4) getEdgesByEvents_def assms(2) split: if_split_asm)
  show "case y of (f, x) \<Rightarrow> fkey f = Some k" if "ev \<in> set (event_evidence h)" "y \<in> set ev" for ev y
    using that by (auto simp: fields(3) getEvidenceByEvent_def map_filter_option assms(2) split: if_split_asm option.split_asm)
qed

text \<open>
  C20. No error is ever shown as resolved: \<open>_recordCaseEvent\<close> writes \<open>resolved_by\<close> edges from the fix to the
  error, and \<open>_detectUnresolvedBranches\<close> looks for the error at their start.  Hence in every history of
  the event tables every error event that \<open>reconstruct\<close> returns is reported as an unresolved branch,
  whatever fixes were recorded for it.
\<close>

theorem errors_never_resolved:
  assumes "case_reach cdb" and "reconstruct p fs ls st cdb = Inr h"
    and "e \<in> set (case_events h)" and "event_type e = ''error_observed''"
  shows "EventBranch e \<in> set (unresolved_branches h)"
proof -
  note fields = reconstruct_fields [OF assms(2)]
  have ok: "case_ok cdb" by (rule case_reach_ok [OF assms(1)])
  then have inj: "inj_on ce_id (set (events cdb))" by (simp add: case_ok_def events_ok_def distinct_map)
  have E: "e \<in> set (events_of_call p cdb)" using assms(3) by (simp add: fields(2))
  have not_from: "e_from x \<noteq> ce_id e" if x: "x \<in> set (event_dag h)" and ty: "edge_type x = ''resolved_by''" for x
  proof
    assume from_e: "e_from x = ce_id e"
    have "x \<in> set (edges cdb)" using x by (simp add: fields(4) getEdgesByEvents_def split: if_split_asm)
    then have "edge_ok (events cdb) x" using ok by (simp add: case_ok_def)
    then obtain a where a: "a \<in> set (events cdb)" "ce_id a = e_from x" "event_type a = ''fix_attempted''"
      using ty unfolding edge_ok_def by blast
    with inj events_of_call_mem(1) [OF E] from_e have "a = e" by (simp add: inj_on_def)
    with a(3) assms(4) show False by simp
  qed
  have "ce_id e \<notin> set (map e_from (filter (\<lambda>x. edge_type x = ''resolved_by'') (event_dag h)))"
  proof
    assume "ce_id e \<in> set (map e_from (filter (\<lambda>x. edge_type x = ''resolved_by'') (event_dag h)))"
    then obtain x where "x \<in> set (event_dag h)" "edge_type x = ''resolved_by''" "ce_id e = e_from x"
      unfolding set_map set_filter image_iff mem_Collect_eq by (elim bexE CollectE conjE) (rule that)
    with not_from [of x] show False by simp
  qed
  with E assms(4) have "e \<in> {e \<in> set (events_of_call p cdb). event_type e = ''error_observed'' \<and>
      ce_id e \<notin> set (map e_from (filter (\<lambda>x. edge_type x = ''resolved_by'') (event_dag h)))}" by blast
  then have "EventBranch e \<in> set (detectUnresolvedBranches (fetchTimeline p fs) (causal_chains h) (events_of_call p cdb) (event_dag h))"
    unfolding detectUnresolvedBranches_def Let_def set_append set_map [where f = EventBranch] set_filter
    by (intro UnI2 imageI)
  moreover have "events_of_call p cdb \<noteq> []" using E by auto
  ultimately show ?thesis unfolding fields(6) [OF \<open>events_of_call p cdb \<noteq> []\<close>] by blast
qed

section \<open>A case with an error and its fix\<close>

definition fixed_case :: case_db where
  "fixed_case = record_in ''f3'' ''procedure'' ''e3'' 30 sample_case"

definition case_note :: "string \<Rightarrow> int \<Rightarrow> string option \<Rightarrow> hist_frag" where
  "case_note i t res =
     \<lparr>hf_id = i, hf_content = i, hf_topic = ''t'', hf_keywords = [], hf_case = Some ''c'', hf_key = Some ''k1'',
      hf_workspace = None, hf_resolution = res, hf_created = t, hf_live = True\<rparr>"

text \<open>The error, its cause and its fix, with a cycle among two further fragments.\<close>

definition case_notes :: "hist_frag list" where
  "case_notes = [case_note ''f1'' 10 (Some ''open''), case_note ''f2'' 20 None, case_note ''f3'' 30 (Some ''resolved''),
     case_note ''f4'' 40 None, case_note ''f5'' 50 None]"

definition case_link :: "string \<Rightarrow> string \<Rightarrow> link_row" where
  "case_link a b = \<lparr>l_from = a, l_to = b, relation = ''caused_by'', weight = 1, l_deleted = False\<rparr>"

definition case_links :: "link_row list" where
  "case_links = [case_link ''f1'' ''f2'', case_link ''f2'' ''f3'', case_link ''f4'' ''f5'', case_link ''f5'' ''f4'']"

definition case_params :: hist_params where
  "case_params = \<lparr>p_case = Some ''c'', p_entity = None, p_from = None, p_to = None, p_query = None, p_limit = None,
     p_key = Some ''k1'', p_groups = None, p_workspace = None\<rparr>"

definition sample_history :: history where
  "sample_history =
     (case reconstruct case_params case_notes case_links \<lparr>rows = [], versions = [], slinks = []\<rparr> fixed_case of
        Inr h \<Rightarrow> h | Inl _ \<Rightarrow> assemble [] [] [] [] [])"

lemma sample_history_reconstructed:
  "reconstruct case_params case_notes case_links \<lparr>rows = [], versions = [], slinks = []\<rparr> fixed_case = Inr sample_history"
  by (simp add: sample_history_def reconstruct_def case_params_def Let_def)

lemma fixed_case_reach: "case_reach fixed_case"
  unfolding fixed_case_def by (rule case_reach_record_in [OF sample_case_reach])

lemma sample_history_values:
  "map root_id (causal_chains sample_history) = [''f1''] \<and>
   map ce_id (case_events sample_history) = [''e1'', ''e2'', ''e3''] \<and>
   map event_type (case_events sample_history) = [''error_observed'', ''decision_committed'', ''fix_attempted''] \<and>
   map (\<lambda>x. (e_from x, e_to x, edge_type x)) (event_dag sample_history) =
     [(''e2'', ''e1'', ''preceded_by''), (''e3'', ''e1'', ''preceded_by''), (''e3'', ''e1'', ''resolved_by'')]"
  by code_simp

theorem causal_chains_exact_witness:
  "map root_id (buildCausalChains case_notes case_links []) =
     filter (\<lambda>r. \<exists>f\<in>set case_notes. (r, hf_id f) \<in> (set (causal_edges case_links []))\<^sup>*) (chain_roots (causal_edges case_links []))"
proof -
  have "distinct (map hf_id case_notes)" by (simp add: case_notes_def case_note_def)
  from causal_chains_exact [OF this refl, of case_links "[]", THEN conjunct1] show ?thesis .
qed

theorem history_isolated_witness:
  "length (ordered_timeline sample_history) \<le> 500 \<and> list_all (\<lambda>e. ce_key e = Some ''k1'') (case_events sample_history)"
proof -
  have "p_key case_params = Some ''k1''" by (simp add: case_params_def)
  note iso = history_isolated [OF sample_history_reconstructed this]
  show ?thesis unfolding list_all_iff
    using iso [THEN conjunct1] iso [THEN conjunct2, THEN conjunct2, THEN conjunct2, THEN conjunct1] by blast
qed

theorem errors_never_resolved_witness:
  "event_type (hd (case_events sample_history)) = ''error_observed'' \<and>
   list_ex (\<lambda>x. edge_type x = ''resolved_by'' \<and> e_to x = ce_id (hd (case_events sample_history))) (event_dag sample_history) \<and>
   EventBranch (hd (case_events sample_history)) \<in> set (unresolved_branches sample_history)"
proof -
  have ty: "event_type (hd (case_events sample_history)) = ''error_observed''" by code_simp
  have "case_events sample_history \<noteq> []" by code_simp
  then have "hd (case_events sample_history) \<in> set (case_events sample_history)" by (rule hd_in_set)
  note un = errors_never_resolved [OF fixed_case_reach sample_history_reconstructed this ty]
  have ex: "list_ex (\<lambda>x. edge_type x = ''resolved_by'' \<and> e_to x = ce_id (hd (case_events sample_history))) (event_dag sample_history)"
    by code_simp
  from ty ex un show ?thesis by (intro conjI)
qed

end
