(* ===== verification/Reconsolidate.thy ===== *)
theory Reconsolidate
  imports Links
begin

text \<open>
  Reconsolidation of links, \<open>lib/memory/link/ReconsolidationEngine.js\<close>, and its caller in
  \<open>tool_feedback\<close> (\<open>lib/tools/memory.js\<close>).

  A call of \<open>reconsolidate\<close> has two steps: \<open>begin_recon\<close>, up to the first suspension (the guard of decays),
  and \<open>finish_recon\<close>, the transaction, which reads and writes under the row lock, with everything after
  it; other calls may run in between.  Weights are rational (the column is a 32-bit float).  The
  link row is that of theory \<open>Links\<close> with the columns of migration 027.
\<close>

record rlink = link_row +
  link_id :: int
  confidence :: rat
  quarantine_state :: "string option"
  delete_reason :: "string option"

text \<open>\<open>link_reconsolidations\<close>; \<open>a_time\<close> is \<open>created_at\<close>, the start of the transaction.\<close>

record audit =
  a_link :: int
  a_action :: string
  a_old_weight :: rat
  a_new_weight :: rat
  a_old_confidence :: rat
  a_new_confidence :: rat
  a_reason :: string
  a_triggered_by :: "string option"
  a_key :: "string option"
  a_time :: int

record engine =
  rlinks :: "rlink list"
  audits :: "audit list"
  lastDecayAt :: "(int, int) jsmap"
  pendingDecay :: "int list"

definition DELTAS :: "(string \<times> rat) list" where
  "DELTAS = [(''reinforce'', 2 / 10), (''decay'', - (15 / 100)), (''quarantine'', - (3 / 10)), (''restore'', 3 / 10),
     (''soft_delete'', 0)]"

definition delta_of :: "string \<Rightarrow> rat" where
  "delta_of action = nullish_to (map_of DELTAS action) 0"

definition RATE_LIMIT_MS :: int where
  "RATE_LIMIT_MS = 60000"

definition limited :: "string \<Rightarrow> bool" where
  "limited action \<longleftrightarrow> action \<in> {''decay'', ''quarantine''}"

text \<open>The guard: \<open>None\<close> when the call returns \<open>null\<close> at once.\<close>

definition begin_recon :: "int \<Rightarrow> string \<Rightarrow> int \<Rightarrow> engine \<Rightarrow> engine option" where
  "begin_recon i action now s =
     (if limited action then
        (if i \<in> set (pendingDecay s) \<or>
            (case map_of (lastDecayAt s) i of None \<Rightarrow> False | Some t \<Rightarrow> now - t < RATE_LIMIT_MS)
         then None else Some (s\<lparr>pendingDecay := pendingDecay s @ [i]\<rparr>))
      else Some s)"

definition apply_action :: "string \<Rightarrow> string option \<Rightarrow> rlink \<Rightarrow> rlink" where
  "apply_action action by l =
     (let d = delta_of action
      in l\<lparr>weight := max 0 (min 2 (weight l + d)),
           confidence := (if d < 0 then max 0 (confidence l - 1 / 10)
                          else if d > 0 then min 1 (confidence l + 5 / 100) else confidence l),
           quarantine_state := (if action = ''quarantine'' then Some ''soft''
                                else if action = ''restore'' then Some ''released'' else quarantine_state l),
           l_deleted := (if action = ''soft_delete'' then True else l_deleted l),
           delete_reason := (if action = ''soft_delete'' then by else delete_reason l)\<rparr>)"

definition active_link :: "int \<Rightarrow> engine \<Rightarrow> rlink option" where
  "active_link i s = find (\<lambda>l. link_id l = i \<and> \<not> l_deleted l) (rlinks s)"

datatype recon_result = RNull | RThrow | RDone rat rat rat rat

definition audit_of :: "int \<Rightarrow> string \<Rightarrow> string option \<Rightarrow> string option \<Rightarrow> int \<Rightarrow> rlink \<Rightarrow> audit" where
  "audit_of i action by key t l =
     (let l' = apply_action action by l
      in \<lparr>a_link = i, a_action = action, a_old_weight = weight l, a_new_weight = weight l',
          a_old_confidence = confidence l, a_new_confidence = confidence l',
          a_reason = nullish_to by action, a_triggered_by = by, a_key = key, a_time = t\<rparr>)"

text \<open>The transaction, started at \<open>t\<close>; \<open>up\<close> is false when a statement fails (then it is rolled back).\<close>

definition transact ::
  "int \<Rightarrow> string \<Rightarrow> string option \<Rightarrow> string option \<Rightarrow> bool \<Rightarrow> int \<Rightarrow> engine \<Rightarrow> recon_result \<times> engine" where
  "transact i action by key up t s =
     (if \<not> up then (RThrow, s)
      else case active_link i s of
        None \<Rightarrow> (RNull, s)
      | Some l \<Rightarrow>
          (if action \<notin> set (map fst DELTAS) then (RThrow, s)
           else (RDone (weight l) (weight (apply_action action by l)) (confidence l) (confidence (apply_action action by l)),
                 s\<lparr>rlinks := map (\<lambda>x. if link_id x = i \<and> \<not> l_deleted x then apply_action action by x else x) (rlinks s),
                   audits := audits s @ [audit_of i action by key t l]\<rparr>)))"

definition finish_recon ::
  "int \<Rightarrow> string \<Rightarrow> string option \<Rightarrow> string option \<Rightarrow> bool \<Rightarrow> int \<Rightarrow> int \<Rightarrow> engine \<Rightarrow> recon_result \<times> engine" where
  "finish_recon i action by key up t now s =
     (let (r, s1) = transact i action by key up t s;
          s2 = (case r of RDone _ _ _ _ \<Rightarrow> if limited action then s1\<lparr>lastDecayAt := AList.update i now (lastDecayAt s1)\<rparr> else s1
                | _ \<Rightarrow> s1)
      in (r, if limited action then s2\<lparr>pendingDecay := filter (\<lambda>j. j \<noteq> i) (pendingDecay s2)\<rparr> else s2))"

text \<open>A call that nothing interrupts.\<close>

definition reconsolidate ::
  "int \<Rightarrow> string \<Rightarrow> string option \<Rightarrow> string option \<Rightarrow> bool \<Rightarrow> int \<Rightarrow> engine \<Rightarrow> recon_result \<times> engine" where
  "reconsolidate i action by key up now s =
     (case begin_recon i action now s of None \<Rightarrow> (RNull, s) | Some s1 \<Rightarrow> finish_recon i action by key up now now s1)"

section \<open>Callers\<close>

definition adjacent_links :: "string \<Rightarrow> string \<Rightarrow> engine \<Rightarrow> int list" where
  "adjacent_links a b s =
     map link_id (filter (\<lambda>l. (l_from l = a \<and> l_to l = b \<or> l_from l = b \<and> l_to l = a) \<and>
       relation l \<in> {''related'', ''temporal''} \<and> \<not> l_deleted l \<and>
       (quarantine_state l = None \<or> quarantine_state l = Some ''released'')) (rlinks s))"

definition reconsolidate_all ::
  "int list \<Rightarrow> string \<Rightarrow> string option \<Rightarrow> string option \<Rightarrow> int \<Rightarrow> engine \<Rightarrow> engine" where
  "reconsolidate_all ids action by key now s =
     fold (\<lambda>i s. snd (reconsolidate i action by key True now s)) ids s"

definition quarantineAdjacentLinks :: "string \<Rightarrow> string \<Rightarrow> string option \<Rightarrow> int \<Rightarrow> engine \<Rightarrow> engine" where
  "quarantineAdjacentLinks a b key now s =
     reconsolidate_all (adjacent_links a b s) ''quarantine'' (Some (''conflict:'' @ a @ ''<->'' @ b)) key now s"

text \<open>The part of \<open>tool_feedback\<close> that \<open>ENABLE_RECONSOLIDATION\<close> switches on; \<open>relevant\<close> may be absent.\<close>

definition feedback_links ::
  "bool \<Rightarrow> string \<Rightarrow> bool option \<Rightarrow> string list \<Rightarrow> string option \<Rightarrow> int \<Rightarrow> engine \<Rightarrow> engine" where
  "feedback_links enabled tool relevant ids key now s =
     (if enabled \<and> ids \<noteq> [] then
        reconsolidate_all
          (map link_id (filter (\<lambda>l. (l_from l \<in> set ids \<or> l_to l \<in> set ids) \<and> \<not> l_deleted l) (rlinks s)))
          (if relevant = Some False then ''decay'' else ''reinforce'')
          (Some (''tool_feedback:'' @ tool)) key now s
      else s)"

section \<open>Interleaved calls\<close>

text \<open>
  The states of one process: the clock, the engine and the calls that are suspended, with the time of
  their guard.  A transaction starts between its guard and its end.
\<close>

inductive recon_reach :: "engine \<Rightarrow> int \<Rightarrow> engine \<Rightarrow> (int \<times> string \<times> int) list \<Rightarrow> bool" for s0 where
  rr_init: "recon_reach s0 now s0 []"
| rr_tick: "recon_reach s0 now s cs \<Longrightarrow> now \<le> now' \<Longrightarrow> recon_reach s0 now' s cs"
| rr_begin: "recon_reach s0 now s cs \<Longrightarrow> begin_recon i a now s = Some s' \<Longrightarrow> recon_reach s0 now s' ((i, a, now) # cs)"
| rr_finish: "recon_reach s0 now s cs \<Longrightarrow> (i, a, t0) \<in> set cs \<Longrightarrow> t0 \<le> t \<Longrightarrow> t \<le> now \<Longrightarrow>
    finish_recon i a by key up t now s = (r, s') \<Longrightarrow> recon_reach s0 now s' (remove1 (i, a, t0) cs)"

definition starting :: "engine \<Rightarrow> bool" where
  "starting s \<longleftrightarrow> audits s = [] \<and> lastDecayAt s = [] \<and> pendingDecay s = [] \<and>
     (\<forall>l\<in>set (rlinks s). 0 \<le> confidence l \<and> confidence l \<le> 1)"

text \<open>The suspended decays of a link.\<close>

definition decays_of :: "int \<Rightarrow> (int \<times> string \<times> int) list \<Rightarrow> (int \<times> string \<times> int) list" where
  "decays_of i cs = filter (\<lambda>(j, a, t). j = i \<and> limited a) cs"

definition apart :: "audit \<Rightarrow> audit \<Rightarrow> bool" where
  "apart x y \<longleftrightarrow>
     (limited (a_action x) \<and> limited (a_action y) \<and> a_link x = a_link y \<longrightarrow> a_time x + RATE_LIMIT_MS \<le> a_time y)"

definition audit_ok :: "audit \<Rightarrow> bool" where
  "audit_ok x \<longleftrightarrow> 0 \<le> a_new_weight x \<and> a_new_weight x \<le> 2 \<and> 0 \<le> a_new_confidence x \<and> a_new_confidence x \<le> 1"

definition recon_inv :: "int \<Rightarrow> engine \<Rightarrow> (int \<times> string \<times> int) list \<Rightarrow> bool" where
  "recon_inv now s cs \<longleftrightarrow>
     (\<forall>i. length (decays_of i cs) = (if i \<in> set (pendingDecay s) then 1 else 0)) \<and>
     (\<forall>x\<in>set (audits s). limited (a_action x) \<longrightarrow> (\<exists>m. map_of (lastDecayAt s) (a_link x) = Some m \<and> a_time x \<le> m)) \<and>
     (\<forall>i m. map_of (lastDecayAt s) i = Some m \<longrightarrow> m \<le> now \<and> (\<forall>(j, a, t)\<in>set (decays_of i cs). m + RATE_LIMIT_MS \<le> t)) \<and>
     sorted_wrt apart (audits s) \<and> (\<forall>x\<in>set (audits s). audit_ok x) \<and>
     (\<forall>l\<in>set (rlinks s). 0 \<le> confidence l \<and> confidence l \<le> 1)"

lemma apply_action_bounds:
  assumes "0 \<le> confidence l" and "confidence l \<le> 1"
  shows "0 \<le> weight (apply_action a by l)" "weight (apply_action a by l) \<le> 2"
    "0 \<le> confidence (apply_action a by l)" "confidence (apply_action a by l) \<le> 1"
  using assms by (auto simp: apply_action_def Let_def)

lemma begin_recon_cases:
  assumes "begin_recon i a now s = Some s'"
  shows "rlinks s' = rlinks s" "audits s' = audits s" "lastDecayAt s' = lastDecayAt s"
    "limited a \<Longrightarrow> i \<notin> set (pendingDecay s) \<and> (\<forall>m. map_of (lastDecayAt s) i = Some m \<longrightarrow> m + RATE_LIMIT_MS \<le> now)"
    "set (pendingDecay s') = (if limited a then insert i (set (pendingDecay s)) else set (pendingDecay s))"
  using assms by (auto simp: begin_recon_def split: if_split_asm option.split_asm)

lemma recon_invD:
  assumes "recon_inv now s cs"
  shows "length (decays_of i cs) = (if i \<in> set (pendingDecay s) then 1 else 0)"
    "x \<in> set (audits s) \<Longrightarrow> limited (a_action x) \<Longrightarrow> \<exists>m. map_of (lastDecayAt s) (a_link x) = Some m \<and> a_time x \<le> m"
    "map_of (lastDecayAt s) i = Some m \<Longrightarrow> m \<le> now"
    "map_of (lastDecayAt s) i = Some m \<Longrightarrow> (j, a, t) \<in> set (decays_of i cs) \<Longrightarrow> m + RATE_LIMIT_MS \<le> t"
    "sorted_wrt apart (audits s)" "x \<in> set (audits s) \<Longrightarrow> audit_ok x"
    "l \<in> set (rlinks s) \<Longrightarrow> 0 \<le> confidence l \<and> confidence l \<le> 1"
  using assms unfolding recon_inv_def by blast+

lemma recon_invI:
  assumes "\<And>i. length (decays_of i cs) = (if i \<in> set (pendingDecay s) then 1 else 0)"
    and "\<And>x. x \<in> set (audits s) \<Longrightarrow> limited (a_action x) \<Longrightarrow> \<exists>m. map_of (lastDecayAt s) (a_link x) = Some m \<and> a_time x \<le> m"
    and "\<And>i m. map_of (lastDecayAt s) i = Some m \<Longrightarrow> m \<le> now"
    and "\<And>i m j a t. map_of (lastDecayAt s) i = Some m \<Longrightarrow> (j, a, t) \<in> set (decays_of i cs) \<Longrightarrow> m + RATE_LIMIT_MS \<le> t"
    and "sorted_wrt apart (audits s)" and "\<And>x. x \<in> set (audits s) \<Longrightarrow> audit_ok x"
    and "\<And>l. l \<in> set (rlinks s) \<Longrightarrow> 0 \<le> confidence l \<and> confidence l \<le> 1"
  shows "recon_inv now s cs"
  using assms unfolding recon_inv_def by (intro conjI ballI allI impI) (auto simp: case_prod_unfold)

lemma begin_inv:
  assumes inv: "recon_inv now s cs" and b: "begin_recon i a now s = Some s'"
  shows "recon_inv now s' ((i, a, now) # cs)"
proof -
  note bc = begin_recon_cases [OF b]
  note D = recon_invD [OF inv]
  have d: "decays_of j ((i, a, now) # cs) = (if j = i \<and> limited a then (i, a, now) # decays_of j cs else decays_of j cs)" for j
    by (simp add: decays_of_def)
  show ?thesis
  proof (rule recon_invI, unfold bc(1-3))
    fix j show "length (decays_of j ((i, a, now) # cs)) = (if j \<in> set (pendingDecay s') then 1 else 0)"
    proof (cases "j = i \<and> limited a")
      case True
      then have "i \<notin> set (pendingDecay s)" using bc(4) by blast
      then have "length (decays_of i cs) = 0" using D(1) [of i] by simp
      with True show ?thesis by (simp add: d bc(5))
    next
      case False
      then have "(j \<in> set (pendingDecay s')) = (j \<in> set (pendingDecay s))" by (auto simp: bc(5))
      with False D(1) [of j] show ?thesis by (simp only: d if_False)
    qed
  next
    fix j m k b t assume m: "map_of (lastDecayAt s) j = Some m" "(k, b, t) \<in> set (decays_of j ((i, a, now) # cs))"
    show "m + RATE_LIMIT_MS \<le> t"
    proof (cases "(k, b, t) \<in> set (decays_of j cs)")
      case True
      with m(1) show ?thesis by (rule D(4))
    next
      case False
      with m(2) have "j = i" "limited a" "t = now" by (auto simp: d split: if_split_asm)
      with bc(4) m(1) show ?thesis by blast
    qed
  qed (fact D)+
qed

definition written :: "int \<Rightarrow> string \<Rightarrow> string option \<Rightarrow> string option \<Rightarrow> int \<Rightarrow> rlink \<Rightarrow> engine \<Rightarrow> engine" where
  "written i a by key t l s =
     s\<lparr>rlinks := map (\<lambda>x. if link_id x = i \<and> \<not> l_deleted x then apply_action a by x else x) (rlinks s),
       audits := audits s @ [audit_of i a by key t l]\<rparr>"

definition done_of :: "string \<Rightarrow> string option \<Rightarrow> rlink \<Rightarrow> recon_result" where
  "done_of a by l = RDone (weight l) (weight (apply_action a by l)) (confidence l) (confidence (apply_action a by l))"

lemma transact_eq:
  "transact i a by key up t s =
     (case active_link i s of
        Some l \<Rightarrow> if up \<and> a \<in> set (map fst DELTAS) then (done_of a by l, written i a by key t l s)
                 else (RThrow, s)
      | None \<Rightarrow> (if up then RNull else RThrow, s))"
  by (auto simp: transact_def written_def done_of_def split: option.split)

lemma finish_eq:
  "finish_recon i a by key up t now s =
     (case active_link i s of
        Some l \<Rightarrow>
          if up \<and> a \<in> set (map fst DELTAS)
          then (done_of a by l,
                if limited a then (written i a by key t l s)\<lparr>lastDecayAt := AList.update i now (lastDecayAt s),
                                     pendingDecay := filter (\<lambda>j. j \<noteq> i) (pendingDecay s)\<rparr>
                else written i a by key t l s)
          else (RThrow, if limited a then s\<lparr>pendingDecay := filter (\<lambda>j. j \<noteq> i) (pendingDecay s)\<rparr> else s)
      | None \<Rightarrow> (if up then RNull else RThrow,
                 if limited a then s\<lparr>pendingDecay := filter (\<lambda>j. j \<noteq> i) (pendingDecay s)\<rparr> else s))"
proof -
  have "lastDecayAt (written i a by key t l s) = lastDecayAt s" "pendingDecay (written i a by key t l s) = pendingDecay s" for l
    by (simp_all add: written_def)
  then show ?thesis
    by (cases "active_link i s") (simp_all add: finish_recon_def transact_eq done_of_def)
qed

lemma decays_remove:
  assumes "(i, a, t0) \<in> set cs"
  shows "decays_of j (remove1 (i, a, t0) cs) =
     (if j = i \<and> limited a then remove1 (i, a, t0) (decays_of j cs) else decays_of j cs)"
  using assms by (induction cs) (auto simp: decays_of_def)

lemma idle_inv:
  assumes inv: "recon_inv now s cs" and c: "(i, a, t0) \<in> set cs"
  shows "recon_inv now (if limited a then s\<lparr>pendingDecay := filter (\<lambda>j. j \<noteq> i) (pendingDecay s)\<rparr> else s) (remove1 (i, a, t0) cs)"
    (is "recon_inv now ?s ?cs")
proof -
  note D = recon_invD [OF inv]
  have same: "audits ?s = audits s" "rlinks ?s = rlinks s" "lastDecayAt ?s = lastDecayAt s" by simp_all
  have sub: "set (decays_of j ?cs) \<subseteq> set (decays_of j cs)" for j
    unfolding decays_remove [OF c] using set_remove1_subset [of "(i, a, t0)" "decays_of i cs"] by (cases "j = i") auto
  show ?thesis
  proof (rule recon_invI, unfold same)
    fix j show "length (decays_of j ?cs) = (if j \<in> set (pendingDecay ?s) then 1 else 0)"
    proof (cases "j = i \<and> limited a")
      case True
      then have m: "(i, a, t0) \<in> set (decays_of i cs)" using c by (simp add: decays_of_def)
      then have "length (decays_of i cs) = 1" using D(1) [of i] by (cases "decays_of i cs") (auto split: if_split_asm)
      with m True show ?thesis unfolding decays_remove [OF c] by (simp add: length_remove1)
    next
      case False
      then have "(j \<in> set (pendingDecay ?s)) = (j \<in> set (pendingDecay s))" by auto
      with False D(1) [of j] show ?thesis unfolding decays_remove [OF c] by (simp only: if_False)
    qed
  next
    fix j m k b t assume "map_of (lastDecayAt s) j = Some m" "(k, b, t) \<in> set (decays_of j ?cs)"
    then show "m + RATE_LIMIT_MS \<le> t" using D(4) sub by blast
  qed (fact D)+
qed

lemma write_inv:
  assumes inv: "recon_inv now s cs" and l: "0 \<le> confidence l \<and> confidence l \<le> 1" and t: "t \<le> now"
    and none: "limited a \<Longrightarrow> decays_of i cs = []"
    and gap: "\<And>m. limited a \<Longrightarrow> map_of (lastDecayAt s) i = Some m \<Longrightarrow> m + RATE_LIMIT_MS \<le> t"
    and s': "s' = (written i a by key t l s)\<lparr>lastDecayAt := (if limited a then AList.update i now (lastDecayAt s) else lastDecayAt s)\<rparr>"
  shows "recon_inv now s' cs"
proof -
  note D = recon_invD [OF inv]
  define x where "x = audit_of i a by key t l"
  have x: "a_link x = i" "a_action x = a" "a_time x = t" by (simp_all add: x_def audit_of_def Let_def)
  have au: "audits s' = audits s @ [x]" and pd: "pendingDecay s' = pendingDecay s"
    and rl: "rlinks s' = map (\<lambda>x. if link_id x = i \<and> \<not> l_deleted x then apply_action a by x else x) (rlinks s)"
    by (simp_all add: s' written_def x_def)
  have ld: "map_of (lastDecayAt s') j = (if limited a \<and> j = i then Some now else map_of (lastDecayAt s) j)" for j
    by (simp add: s' update_conv')
  have bound: "0 \<le> confidence (if link_id l = i \<and> \<not> l_deleted l then apply_action a by l else l) \<and>
      confidence (if link_id l = i \<and> \<not> l_deleted l then apply_action a by l else l) \<le> 1"
    if "l \<in> set (rlinks s)" for l
    using D(7) [OF that] apply_action_bounds(3,4) [of l a "by"] by simp
  show ?thesis
  proof (rule recon_invI)
    show "length (decays_of j cs) = (if j \<in> set (pendingDecay s') then 1 else 0)" for j
      unfolding pd by (rule D(1))
    show "\<exists>m. map_of (lastDecayAt s') (a_link y) = Some m \<and> a_time y \<le> m"
      if y: "y \<in> set (audits s')" "limited (a_action y)" for y
    proof (cases "y \<in> set (audits s)")
      case True
      then obtain m where m: "map_of (lastDecayAt s) (a_link y) = Some m" "a_time y \<le> m" using D(2) y(2) by blast
      moreover have "m \<le> now" by (rule D(3) [OF m(1)])
      ultimately show ?thesis by (auto simp: ld)
    next
      case False
      then have "y = x" using y(1) by (simp add: au)
      with y(2) t show ?thesis by (simp add: ld x)
    qed
    show "m \<le> now" if "map_of (lastDecayAt s') j = Some m" for j m
      using that D(3) [of j m] by (auto simp: ld split: if_split_asm)
    show "m + RATE_LIMIT_MS \<le> u" if "map_of (lastDecayAt s') j = Some m" "(k, b, u) \<in> set (decays_of j cs)" for j m k b u
      using that D(4) [of j m k b u] none by (auto simp: ld split: if_split_asm)
    have "apart y x" if "y \<in> set (audits s)" for y
      unfolding apart_def x
    proof
      assume y: "limited (a_action y) \<and> limited a \<and> a_link y = i"
      with D(2) [OF that] obtain m where "map_of (lastDecayAt s) i = Some m" "a_time y \<le> m" by blast
      with gap [of m] y show "a_time y + RATE_LIMIT_MS \<le> t" by simp
    qed
    then show "sorted_wrt apart (audits s')" using D(5) by (simp add: au sorted_wrt_append)
    have "audit_ok x" using apply_action_bounds [of l a "by"] l by (simp add: x_def audit_of_def audit_ok_def Let_def)
    then show "audit_ok y" if "y \<in> set (audits s')" for y using that D(6) by (auto simp: au)
    show "0 \<le> confidence l' \<and> confidence l' \<le> 1" if "l' \<in> set (rlinks s')" for l'
    proof -
      from that obtain l where "l \<in> set (rlinks s)" "l' = (if link_id l = i \<and> \<not> l_deleted l then apply_action a by l else l)"
        unfolding rl set_map by (elim imageE)
      with bound show ?thesis by simp
    qed
  qed
qed

lemma finish_inv:
  assumes inv: "recon_inv now s cs" and c: "(i, a, t0) \<in> set cs" and t: "t0 \<le> t" "t \<le> now"
    and f: "finish_recon i a by key up t now s = (r, s')"
  shows "recon_inv now s' (remove1 (i, a, t0) cs)"
proof -
  note D = recon_invD [OF inv]
  define s1 where "s1 = (if limited a then s\<lparr>pendingDecay := filter (\<lambda>j. j \<noteq> i) (pendingDecay s)\<rparr> else s)"
  have i1: "recon_inv now s1 (remove1 (i, a, t0) cs)" unfolding s1_def by (rule idle_inv [OF inv c])
  show ?thesis
  proof (cases "up \<and> a \<in> set (map fst DELTAS) \<and> active_link i s \<noteq> None")
    case True
    then obtain l where l: "active_link i s = Some l" by auto
    have s': "s' = (written i a by key t l s1)\<lparr>lastDecayAt := (if limited a then AList.update i now (lastDecayAt s1) else lastDecayAt s1)\<rparr>"
      using f True l by (auto simp: finish_eq s1_def written_def)
    have "l \<in> set (rlinks s)" using l find_Some_iff [of _ "rlinks s" l] by (auto simp: active_link_def)
    then have lb: "0 \<le> confidence l \<and> confidence l \<le> 1" by (rule D(7))
    have mem: "limited a \<Longrightarrow> (i, a, t0) \<in> set (decays_of i cs)" using c by (simp add: decays_of_def)
    have none: "decays_of i (remove1 (i, a, t0) cs) = []" if "limited a"
    proof -
      have "i \<notin> set (pendingDecay s1)" using that by (simp add: s1_def)
      then show ?thesis using recon_invD(1) [OF i1, of i] by simp
    qed
    have gap: "m + RATE_LIMIT_MS \<le> t" if "limited a" "map_of (lastDecayAt s1) i = Some m" for m
    proof -
      have "map_of (lastDecayAt s) i = Some m" using that by (simp add: s1_def)
      from D(4) [OF this mem [OF that(1)]] t(1) show ?thesis by simp
    qed
    show ?thesis by (rule write_inv [OF i1 lb t(2) none gap s'])
  next
    case False
    then have "s' = s1" using f by (auto simp: finish_eq s1_def split: option.split_asm)
    with i1 show ?thesis by simp
  qed
qed

lemma recon_reach_inv:
  assumes "recon_reach s0 now s cs" and "starting s0"
  shows "recon_inv now s cs"
  using assms
proof (induction rule: recon_reach.induct)
  case (rr_init now)
  then show ?case by (intro recon_invI) (auto simp: starting_def decays_of_def)
next
  case (rr_tick now s cs now')
  note D = recon_invD [OF rr_tick.IH [OF rr_tick.prems]]
  show ?case
  proof (rule recon_invI)
    show "m \<le> now'" if "map_of (lastDecayAt s) i = Some m" for i m using D(3) [OF that] rr_tick.hyps(2) by simp
  qed (fact D)+
next
  case (rr_begin now s cs i a s')
  then show ?case by (blast intro: begin_inv)
next
  case (rr_finish now s cs i a t0 t "by" key up r s')
  then show ?case by (blast intro: finish_inv)
qed

text \<open>
  C31. Decays are rate limited under any interleaving: however calls for any links overlap, fail or are
  refused, two decays or quarantines of the same link that both take effect start at least 60 seconds
  apart; and every change leaves a weight in [0, 2] and a confidence in [0, 1].
\<close>

theorem decays_rate_limited:
  assumes "recon_reach s0 now s cs" and "starting s0"
  shows "sorted_wrt (\<lambda>x y. limited (a_action x) \<and> limited (a_action y) \<and> a_link x = a_link y \<longrightarrow>
           a_time x + 60000 \<le> a_time y) (audits s) \<and>
         (\<forall>x\<in>set (audits s). 0 \<le> a_new_weight x \<and> a_new_weight x \<le> 2 \<and>
            0 \<le> a_new_confidence x \<and> a_new_confidence x \<le> 1)"
  using recon_invD(5,6) [OF recon_reach_inv [OF assms]]
  by (simp add: apart_def [abs_def] audit_ok_def RATE_LIMIT_MS_def)

section \<open>Feedback\<close>

definition reinforced :: "string option \<Rightarrow> (rlink \<Rightarrow> bool) \<Rightarrow> rlink \<Rightarrow> rlink" where
  "reinforced by P x = (if P x \<and> \<not> l_deleted x then apply_action ''reinforce'' by x else x)"

lemma reinforced_sel [simp]:
  "link_id (reinforced by P x) = link_id x" "l_deleted (reinforced by P x) = l_deleted x"
  by (simp_all add: reinforced_def apply_action_def Let_def)

lemma reconsolidate_reinforce:
  assumes "list_ex (\<lambda>x. link_id x = i \<and> \<not> l_deleted x) (rlinks s)"
  shows "rlinks (snd (reconsolidate i ''reinforce'' by key True now s)) = map (reinforced by (\<lambda>x. link_id x = i)) (rlinks s)"
proof -
  from assms obtain l where "active_link i s = Some l"
    unfolding active_link_def list_ex_iff by (metis (mono_tags, lifting) find_None_iff not_Some_eq)
  then show ?thesis
    by (simp add: reconsolidate_def begin_recon_def limited_def finish_eq DELTAS_def written_def reinforced_def)
qed

lemma reinforce_all:
  assumes "\<forall>i\<in>set is. list_ex (\<lambda>x. link_id x = i \<and> \<not> l_deleted x) (rlinks s)" and "distinct is"
  shows "rlinks (reconsolidate_all is ''reinforce'' by key now s) = map (reinforced by (\<lambda>x. link_id x \<in> set is)) (rlinks s)"
  using assms
proof (induction "is" arbitrary: s)
  case Nil
  then show ?case by (simp add: reconsolidate_all_def reinforced_def)
next
  case (Cons i js)
  let ?s = "snd (reconsolidate i ''reinforce'' by key True now s)"
  have first: "rlinks ?s = map (reinforced by (\<lambda>x. link_id x = i)) (rlinks s)"
    using Cons.prems(1) by (intro reconsolidate_reinforce) simp
  then have "\<forall>i\<in>set js. list_ex (\<lambda>x. link_id x = i \<and> \<not> l_deleted x) (rlinks ?s)"
    using Cons.prems(1) by (simp add: list_ex_iff)
  from Cons.IH [OF this] Cons.prems(2)
  have "rlinks (reconsolidate_all js ''reinforce'' by key now ?s) =
      map (reinforced by (\<lambda>x. link_id x \<in> set js)) (map (reinforced by (\<lambda>x. link_id x = i)) (rlinks s))"
    by (simp add: first)
  moreover have "reinforced by (\<lambda>x. link_id x \<in> set js) (reinforced by (\<lambda>x. link_id x = i) x) =
      reinforced by (\<lambda>x. link_id x \<in> set (i # js)) x" for x
    proof (cases "link_id x = i \<and> \<not> l_deleted x")
      case True
      then have "reinforced by (\<lambda>x. link_id x = i) x = apply_action ''reinforce'' by x"
        "link_id (apply_action ''reinforce'' by x) = i" by (simp_all add: reinforced_def apply_action_def Let_def)
      with True Cons.prems(2) show ?thesis by (simp add: reinforced_def)
    next
      case False
      then have "reinforced by (\<lambda>x. link_id x = i) x = x" by (auto simp: reinforced_def)
      with False show ?thesis by (auto simp: reinforced_def)
    qed
  ultimately show ?case by (simp add: reconsolidate_all_def o_def)
qed

text \<open>
  Feedback reaches the links of every tenant: \<open>tool_feedback\<close> checks the owner of the fragments whose
  importance it adapts, but its reconsolidation reinforces exactly the active links that touch one of the
  ids the caller names, whoever owns the fragments and whatever the key of the caller.
\<close>

theorem feedback_ignores_tenants:
  assumes "distinct (map link_id (rlinks s))" and "ids \<noteq> []" and "relevant \<noteq> Some False"
  shows "rlinks (feedback_links True tool relevant ids key now s) =
     map (\<lambda>l. if (l_from l \<in> set ids \<or> l_to l \<in> set ids) \<and> \<not> l_deleted l
               then apply_action ''reinforce'' (Some (''tool_feedback:'' @ tool)) l else l) (rlinks s)"
proof -
  let ?P = "\<lambda>l. (l_from l \<in> set ids \<or> l_to l \<in> set ids) \<and> \<not> l_deleted l"
  let ?is = "map link_id (filter ?P (rlinks s))"
  have "rlinks (feedback_links True tool relevant ids key now s) =
      map (reinforced (Some (''tool_feedback:'' @ tool)) (\<lambda>x. link_id x \<in> set ?is)) (rlinks s)"
    unfolding feedback_links_def using assms
    by (simp only: if_True simp_thms if_False) (rule reinforce_all, auto simp: list_ex_iff distinct_map_filter)
  moreover have "link_id x \<in> set ?is \<longleftrightarrow> ?P x" if "x \<in> set (rlinks s)" for x
    using assms(1) that by (auto simp: distinct_map inj_on_def)
  ultimately show ?thesis by (auto simp: reinforced_def intro!: map_cong)
qed

definition sample_link :: "int \<Rightarrow> string \<Rightarrow> string \<Rightarrow> rlink" where
  "sample_link i a b =
     \<lparr>l_from = a, l_to = b, relation = ''related'', weight = 1, l_deleted = False, link_id = i, confidence = 1,
      quarantine_state = None, delete_reason = None\<rparr>"

definition sample_engine :: engine where
  "sample_engine = \<lparr>rlinks = [sample_link 1 ''f1'' ''f2'', sample_link 2 ''f3'' ''f4''], audits = [], lastDecayAt = [],
     pendingDecay = []\<rparr>"

theorem feedback_ignores_tenants_witness:
  "map weight (rlinks (feedback_links True ''recall'' None [''f3''] (Some ''k1'') 0 sample_engine)) = [1, 12 / 10]"
proof -
  have "distinct (map link_id (rlinks sample_engine))" by (simp add: sample_engine_def sample_link_def)
  note r = feedback_ignores_tenants [OF this, of "[''f3'']" None "''recall''" "Some ''k1''" 0]
  have ne: "[''f3''] \<noteq> []" "(None :: bool option) \<noteq> Some False" by simp_all
  show ?thesis unfolding r [OF ne]
    by (simp add: sample_engine_def sample_link_def apply_action_def delta_of_def DELTAS_def)
qed

definition two_decays :: engine where
  "two_decays =
     snd (reconsolidate 1 ''quarantine'' None None True 70000
       (snd (reconsolidate 1 ''decay'' None None True 59999 (snd (reconsolidate 1 ''decay'' None None True 0 sample_engine)))))"

lemma reach_reconsolidate:
  assumes "recon_reach s0 now s cs"
  shows "recon_reach s0 now (snd (reconsolidate i a by key up now s)) cs"
proof (cases "begin_recon i a now s")
  case None
  with assms show ?thesis by (simp add: reconsolidate_def)
next
  case (Some s1)
  obtain r s2 where f: "finish_recon i a by key up now now s1 = (r, s2)" by fastforce
  have "recon_reach s0 now s2 (remove1 (i, a, now) ((i, a, now) # cs))"
    by (rule rr_finish [OF rr_begin [OF assms Some] _ _ _ f]) simp_all
  with Some f show ?thesis by (simp add: reconsolidate_def)
qed

lemma two_decays_reach: "recon_reach sample_engine 70000 two_decays []"
  unfolding two_decays_def
  by (rule reach_reconsolidate, rule rr_tick [where now = 59999], rule reach_reconsolidate, rule rr_tick [where now = 0],
      rule reach_reconsolidate, rule rr_init) simp_all

lemma two_decays_audits: "map (\<lambda>x. (a_link x, a_action x, a_time x)) (audits two_decays) = [(1, ''decay'', 0), (1, ''quarantine'', 70000)]"
  by code_simp

theorem decays_rate_limited_witness:
  "length (audits two_decays) = 2 \<and> a_time (audits two_decays ! 0) + 60000 \<le> a_time (audits two_decays ! 1)"
proof
  show len: "length (audits two_decays) = 2"
    using two_decays_audits [THEN arg_cong [where f = length]] by simp
  obtain x y where xy: "audits two_decays = [x, y]" using len by (auto simp: numeral_2_eq_2 length_Suc_conv)
  have "limited (a_action x) \<and> limited (a_action y) \<and> a_link x = a_link y"
    using two_decays_audits unfolding xy by (simp add: limited_def)
  moreover have "starting sample_engine" by (simp add: starting_def sample_engine_def sample_link_def)
  note decays_rate_limited [OF two_decays_reach this, THEN conjunct1]
  ultimately show "a_time (audits two_decays ! 0) + 60000 \<le> a_time (audits two_decays ! 1)" by (simp add: xy)
qed

end
