(* ===== verification/Dispatch.thy ===== *)
theory Dispatch
  imports Prelude
begin

text \<open>
  The LLM dispatcher, \<open>lib/llm/index.js\<close> with \<open>lib/llm/registry.js\<close>, the concurrency limits of
  \<open>lib/config.js\<close> and the cooldown of \<open>lib/llm/util/retry-hints.js\<close>: the chain of providers, and the
  attempts along it under the deadline of the chain.

  What the environment does is an argument: for each provider whether it is available and after how many
  milliseconds it says so, whether the semaphore grants a slot and after how long, and the answer or
  exception of the call and its duration.  \<open>sha8\<close> gives the first 8 digits of the SHA-256 of a text,
  \<open>json\<close> the JSON text of an object of strings.  Deadlines are in milliseconds; a chain timeout of 0
  means none.
\<close>

section \<open>Entries and keys\<close>

record llm_entry =
  n_provider :: string
  n_baseUrl :: "string option"
  n_model :: "string option"
  n_apiKey :: "string option"
  n_timeoutMs :: "int option"
  n_agent :: "string option"
  n_variant :: "string option"

datatype entry = EName string | EConf llm_entry

record llm_config =
  LLM_PRIMARY :: string
  LLM_FALLBACKS :: "llm_entry list"
  chainTimeoutMs :: int
  concurrencyEnabled :: bool
  concurrencyWaitMs :: int
  providerTimeoutMs :: "int option"

definition text_of :: "string option \<Rightarrow> string" where
  "text_of x = nullish_to x []"

definition option_tag :: "(string \<Rightarrow> string) \<Rightarrow> ((string \<times> string) list \<Rightarrow> string) \<Rightarrow> llm_entry \<Rightarrow> string" where
  "option_tag sha8 json e =
     (let ids = (case n_agent e of None \<Rightarrow> [] | Some a \<Rightarrow> [(''agent'', a)]) @
                (case n_variant e of None \<Rightarrow> [] | Some v \<Rightarrow> [(''variant'', v)])
      in if ids = [] then [] else ''|'' @ sha8 (json ids))"

definition conf_key :: "(string \<Rightarrow> string) \<Rightarrow> ((string \<times> string) list \<Rightarrow> string) \<Rightarrow> llm_entry \<Rightarrow> string" where
  "conf_key sha8 json e =
     n_provider e @ ''|'' @ text_of (n_baseUrl e) @ ''|'' @ text_of (n_model e) @
     (if truthy (n_apiKey e) then ''|'' @ sha8 (text_of (n_apiKey e)) else []) @ option_tag sha8 json e"

fun buildChainKey :: "(string \<Rightarrow> string) \<Rightarrow> ((string \<times> string) list \<Rightarrow> string) \<Rightarrow> entry \<Rightarrow> string" where
  "buildChainKey sha8 json (EName n) = n"
| "buildChainKey sha8 json (EConf e) = conf_key sha8 json e"

fun entry_name :: "entry \<Rightarrow> string" where
  "entry_name (EName n) = n"
| "entry_name (EConf e) = n_provider e"

section \<open>Providers\<close>

text \<open>A provider object: its name and the part of its configuration that the dispatcher reads.\<close>

record provider =
  pv_name :: string
  pv_baseUrl :: "string option"
  pv_model :: "string option"
  pv_apiKey :: "string option"
  pv_timeoutMs :: "int option"

definition CLI_PROVIDERS :: "string list" where
  "CLI_PROVIDERS = [''gemini-cli'', ''codex-cli'', ''copilot-cli'', ''qwen-cli'', ''opencode-cli'']"

text \<open>
  The names of the HTTP providers, the name of the object and the default of \<open>config.baseUrl\<close>
  (Anthropic, Cohere and Google keep their default outside \<open>config\<close>).
\<close>

definition HTTP_PROVIDERS :: "(string \<times> string \<times> string option) list" where
  "HTTP_PROVIDERS =
     [(''openai'', ''openai'', Some ''https://api.openai.com/v1''), (''anthropic'', ''anthropic'', None),
      (''gemini'', ''google-gemini-api'', None), (''groq'', ''groq'', Some ''https://api.groq.com/openai/v1''),
      (''openrouter'', ''openrouter'', Some ''https://openrouter.ai/api/v1''), (''xai'', ''xai'', Some ''https://api.x.ai/v1''),
      (''ollama'', ''ollama'', None), (''vllm'', ''vllm'', None), (''deepseek'', ''deepseek'', Some ''https://api.deepseek.com''),
      (''mistral'', ''mistral'', Some ''https://api.mistral.ai/v1''), (''cohere'', ''cohere'', None),
      (''zai'', ''zai'', Some ''https://open.bigmodel.cn/api/paas/v4'')]"

fun conf_of :: "entry \<Rightarrow> llm_entry" where
  "conf_of (EConf e) = e"
| "conf_of (EName n) = \<lparr>n_provider = n, n_baseUrl = None, n_model = None, n_apiKey = None, n_timeoutMs = None,
     n_agent = None, n_variant = None\<rparr>"

definition createProvider :: "entry \<Rightarrow> provider option" where
  "createProvider en =
     (let e = conf_of en
      in if n_provider e \<in> set CLI_PROVIDERS
         then Some \<lparr>pv_name = n_provider e, pv_baseUrl = None, pv_model = n_model e, pv_apiKey = None,
                    pv_timeoutMs = n_timeoutMs e\<rparr>
         else case map_of HTTP_PROVIDERS (n_provider e) of
                None \<Rightarrow> None
              | Some (name, url) \<Rightarrow>
                  Some \<lparr>pv_name = name,
                        pv_baseUrl = (if url = None \<or> truthy (n_baseUrl e) then n_baseUrl e else url),
                        pv_model = n_model e, pv_apiKey = n_apiKey e, pv_timeoutMs = n_timeoutMs e\<rparr>)"

text \<open>The key of the semaphore: the options \<open>agent\<close> and \<open>variant\<close> are not passed.\<close>

definition dispatch_key :: "(string \<Rightarrow> string) \<Rightarrow> ((string \<times> string) list \<Rightarrow> string) \<Rightarrow> provider \<Rightarrow> string" where
  "dispatch_key sha8 json p =
     conf_key sha8 json \<lparr>n_provider = pv_name p, n_baseUrl = Some (text_of (pv_baseUrl p)), n_model = Some (text_of (pv_model p)),
       n_apiKey = pv_apiKey p, n_timeoutMs = None, n_agent = None, n_variant = None\<rparr>"

definition DEFAULT_LLM_CONCURRENCY :: "(string \<times> nat) list" where
  "DEFAULT_LLM_CONCURRENCY =
     [(''ollama'', 16), (''openai|https://token-plan-sgp.xiaomimimo.com/v1|mimo-v2-pro'', 8), (''gemini-cli'', 1),
      (''copilot-cli'', 1), (''codex-cli'', 1), (''qwen-cli'', 1), (''opencode-cli'', 1)]"

definition getConcurrencyLimit :: "(string \<times> nat) list \<Rightarrow> string \<Rightarrow> string \<Rightarrow> nat" where
  "getConcurrencyLimit limits chainKey name =
     (case map_of limits chainKey of
        Some n \<Rightarrow> n
      | None \<Rightarrow> (case map_of limits name of Some n \<Rightarrow> n | None \<Rightarrow> 10))"

section \<open>Building the chain\<close>

text \<open>What \<open>isAvailable()\<close> does for an entry, and after how long.\<close>

datatype available = Yes | No | Throws

definition remaining :: "int \<Rightarrow> int \<Rightarrow> int \<Rightarrow> int option" where
  "remaining limit t0 now = (if 0 < limit then Some (limit - (now - t0)) else None)"

definition expired :: "int option \<Rightarrow> bool" where
  "expired rem \<longleftrightarrow> (case rem of None \<Rightarrow> False | Some r \<Rightarrow> r \<le> 0)"

datatype dispatch_error = NoProvider | Deadline | SemTimeout string | Failed string string | FailedDeadline string

text \<open>
  One loop serves \<open>buildChain\<close> and \<open>buildChainFromEntries\<close>.  The race with the deadline is lost by an
  answer that does not come before it; the loop then throws.
\<close>

fun build_loop ::
  "(entry \<Rightarrow> string) \<Rightarrow> int \<Rightarrow> int \<Rightarrow> string list \<Rightarrow> provider list \<Rightarrow> int \<Rightarrow> (entry \<times> available \<times> int) list \<Rightarrow>
     (dispatch_error + provider list) \<times> int" where
  "build_loop key limit t0 seen chain now [] = (Inr chain, now)"
| "build_loop key limit t0 seen chain now ((e, av, ms) # es) =
     (if entry_name e = [] \<or> key e \<in> set seen then build_loop key limit t0 seen chain now es
      else case createProvider e of
        None \<Rightarrow> build_loop key limit t0 (key e # seen) chain now es
      | Some p \<Rightarrow>
          (let rem = remaining limit t0 now
           in if expired rem then (Inl Deadline, now)
              else case rem of
                Some r \<Rightarrow> if max 1 r \<le> ms then (Inl Deadline, now + max 1 r)
                          else build_loop key limit t0 (key e # seen) (if av = Yes then chain @ [p] else chain) (now + ms) es
              | None \<Rightarrow> build_loop key limit t0 (key e # seen) (if av = Yes then chain @ [p] else chain) (now + ms) es))"

definition chain_entries :: "llm_config \<Rightarrow> entry list" where
  "chain_entries cfg =
     (let primary = (case find (\<lambda>f. n_provider f = LLM_PRIMARY cfg) (LLM_FALLBACKS cfg) of
                       Some f \<Rightarrow> EConf f | None \<Rightarrow> EConf (conf_of (EName (LLM_PRIMARY cfg))))
      in primary # map EConf (LLM_FALLBACKS cfg))"

section \<open>Dispatching\<close>

text \<open>What the environment does for one attempt.\<close>

record 'r attempt =
  acq_ok :: bool
  acq_ms :: int
  call_res :: "string + 'r"
  call_ms :: int

text \<open>
  The trace: a wait for a slot (key, limit in ms, duration), the call (provider, start, timeout that is
  passed, duration) and the release of the slot.
\<close>

datatype trace_event =
  Acquire string int int | WaitTimeout string int int | Call string int "int option" int | Release string

definition withProviderTimeoutCap :: "llm_config \<Rightarrow> int option \<Rightarrow> provider \<Rightarrow> int option \<Rightarrow> int option" where
  "withProviderTimeoutCap cfg opt_timeout p rem =
     (let configured = nullish (nullish opt_timeout (pv_timeoutMs p)) (providerTimeoutMs cfg)
      in case rem of
           None \<Rightarrow> configured
         | Some r \<Rightarrow> Some (max 1 (min (nullish_to configured r) r)))"

definition wait_timeout :: "llm_config \<Rightarrow> int option \<Rightarrow> int" where
  "wait_timeout cfg rem = (case rem of None \<Rightarrow> concurrencyWaitMs cfg | Some r \<Rightarrow> max 1 (min (concurrencyWaitMs cfg) r))"

text \<open>The body of the loop for one provider: it returns the answer, breaks or goes on to the next one.\<close>

datatype 'r verdict = Return 'r | Break dispatch_error | Continue dispatch_error

definition after_call :: "string \<Rightarrow> 'r attempt \<Rightarrow> 'r verdict" where
  "after_call name a = (case call_res a of Inr x \<Rightarrow> Return x | Inl e \<Rightarrow> Continue (Failed name e))"

definition try_provider ::
  "(provider \<Rightarrow> string) \<Rightarrow> llm_config \<Rightarrow> int option \<Rightarrow> int \<Rightarrow> int \<Rightarrow> provider \<Rightarrow> 'r attempt \<Rightarrow>
     trace_event list \<times> 'r verdict \<times> int" where
  "try_provider key cfg opt t0 now p a =
     (let rem = remaining (chainTimeoutMs cfg) t0 now
      in if expired rem then ([], Break Deadline, now)
         else if concurrencyEnabled cfg then
           (let w = wait_timeout cfg rem;
                t1 = now + acq_ms a;
                rem1 = remaining (chainTimeoutMs cfg) t0 t1
            in if \<not> acq_ok a then
                 ([WaitTimeout (key p) w (acq_ms a)],
                  if expired rem1 then Break Deadline else Continue (SemTimeout (pv_name p)), t1)
               else if expired rem1 then
                 ([Acquire (key p) w (acq_ms a), Release (key p)], Continue (FailedDeadline (pv_name p)), t1)
               else
                 ([Acquire (key p) w (acq_ms a), Call (pv_name p) t1 (withProviderTimeoutCap cfg opt p rem1) (call_ms a),
                   Release (key p)], after_call (pv_name p) a, t1 + call_ms a))
         else
           ([Call (pv_name p) now (withProviderTimeoutCap cfg opt p rem) (call_ms a)], after_call (pv_name p) a,
            now + call_ms a))"

fun dispatch_loop ::
  "(provider \<Rightarrow> string) \<Rightarrow> llm_config \<Rightarrow> int option \<Rightarrow> int \<Rightarrow> dispatch_error list \<Rightarrow> int \<Rightarrow> (provider \<times> 'r attempt) list \<Rightarrow>
     trace_event list \<times> (dispatch_error list + 'r) \<times> int" where
  "dispatch_loop key cfg opt t0 errs now [] = ([], Inl errs, now)"
| "dispatch_loop key cfg opt t0 errs now ((p, a) # ps) =
     (let (tr, v, t) = try_provider key cfg opt t0 now p a
      in case v of
           Return x \<Rightarrow> (tr, Inr x, t)
         | Break e \<Rightarrow> (tr, Inl (errs @ [e]), t)
         | Continue e \<Rightarrow> (let (tr', r, t') = dispatch_loop key cfg opt t0 (errs @ [e]) t ps in (tr @ tr', r, t')))"

definition dispatchChain ::
  "(provider \<Rightarrow> string) \<Rightarrow> llm_config \<Rightarrow> int option \<Rightarrow> int \<Rightarrow> int \<Rightarrow> (provider \<times> 'r attempt) list \<Rightarrow>
     trace_event list \<times> (dispatch_error list + 'r) \<times> int" where
  "dispatchChain key cfg opt t0 now ps =
     (if ps = [] then ([], Inl [NoProvider], now) else dispatch_loop key cfg opt t0 [] now ps)"

section \<open>Cooldown after a refusal\<close>

text \<open>\<open>rnd\<close> is \<open>Math.random()\<close>; \<open>hint\<close> the wait that the server suggests.\<close>

definition computeCooldown :: "rat \<Rightarrow> int \<Rightarrow> int \<Rightarrow> int \<Rightarrow> int \<Rightarrow> int" where
  "computeCooldown rnd hint minMs maxMs hardCapMs =
     (let jitter = minMs + \<lfloor>rnd * of_int (max 0 (maxMs - minMs))\<rfloor>
      in min (max (max jitter hint) 0) hardCapMs)"

section \<open>A request\<close>

text \<open>
  \<open>llmJson\<close>: one start time for the chain and the attempts; \<open>providers\<close> is the explicit list of a caller,
  \<open>avail\<close> what \<open>isAvailable()\<close> of an entry does, \<open>env\<close> the environment of the attempts by position.
\<close>

definition request_entries :: "llm_config \<Rightarrow> entry list option \<Rightarrow> entry list" where
  "request_entries cfg providers = (case providers of Some (e # es) \<Rightarrow> e # es | _ \<Rightarrow> chain_entries cfg)"

definition llmJson ::
  "(entry \<Rightarrow> string) \<Rightarrow> (provider \<Rightarrow> string) \<Rightarrow> llm_config \<Rightarrow> int option \<Rightarrow> int \<Rightarrow> entry list option \<Rightarrow>
     (entry \<Rightarrow> available \<times> int) \<Rightarrow> (nat \<Rightarrow> 'r attempt) \<Rightarrow> trace_event list \<times> (dispatch_error list + 'r) \<times> int" where
  "llmJson key dkey cfg opt t0 providers avail env =
     (case build_loop key (chainTimeoutMs cfg) t0 [] [] t0 (map (\<lambda>e. (e, avail e)) (request_entries cfg providers)) of
        (Inl e, t) \<Rightarrow> ([], Inl [e], t)
      | (Inr chain, t) \<Rightarrow> dispatchChain dkey cfg opt t0 t (zip chain (map env [0..<length chain])))"

definition isLlmAvailable :: "(entry \<Rightarrow> string) \<Rightarrow> llm_config \<Rightarrow> (entry \<Rightarrow> available \<times> int) \<Rightarrow> bool" where
  "isLlmAvailable key cfg avail =
     (case build_loop key 0 0 [] [] 0 (map (\<lambda>e. (e, avail e)) (chain_entries cfg)) of
        (Inr chain, t) \<Rightarrow> chain \<noteq> [] | (Inl e, t) \<Rightarrow> False)"

section \<open>Deadlines\<close>

text \<open>The semaphore and the provider give up when the time they were given is over.\<close>

fun obeys :: "trace_event \<Rightarrow> bool" where
  "obeys (Acquire k w ms) = (ms \<le> w)"
| "obeys (WaitTimeout k w ms) = (ms \<le> w)"
| "obeys (Call n t (Some l) ms) = (ms \<le> l)"
| "obeys (Call n t None ms) = True"
| "obeys (Release k) = True"

text \<open>A call starts before the deadline \<open>d\<close>, with a time limit that does not pass it.\<close>

fun in_time :: "int \<Rightarrow> trace_event \<Rightarrow> bool" where
  "in_time d (Call n t cap ms) = (\<exists>l. cap = Some l \<and> 1 \<le> l \<and> t + l \<le> d)"
| "in_time d _ = True"

lemma expired_remaining:
  "0 < limit \<Longrightarrow> expired (remaining limit t0 now) \<longleftrightarrow> t0 + limit \<le> now"
  by (auto simp: expired_def remaining_def)

lemma wait_in_time:
  assumes "0 < limit" and "now < t0 + limit"
  shows "now + wait_timeout cfg (remaining limit t0 now) \<le> t0 + limit"
  using assms by (auto simp: wait_timeout_def remaining_def)

lemma cap_in_time:
  assumes "0 < limit" and "now < t0 + limit"
  shows "\<exists>l. withProviderTimeoutCap cfg opt p (remaining limit t0 now) = Some l \<and> 1 \<le> l \<and> now + l \<le> t0 + limit"
  using assms by (auto simp: withProviderTimeoutCap_def remaining_def)

lemma try_provider_deadline:
  assumes T: "0 < chainTimeoutMs cfg" and t: "try_provider key cfg opt t0 now p a = (tr, v, t)"
  shows "\<forall>e\<in>set tr. in_time (t0 + chainTimeoutMs cfg) e"
    and "now \<le> t0 + chainTimeoutMs cfg \<Longrightarrow> \<forall>e\<in>set tr. obeys e \<Longrightarrow> t \<le> t0 + chainTimeoutMs cfg"
proof -
  let ?d = "t0 + chainTimeoutMs cfg"
  have cap: "\<exists>l. withProviderTimeoutCap cfg opt p (remaining (chainTimeoutMs cfg) t0 u) = Some l \<and> 1 \<le> l \<and> u + l \<le> ?d"
    if "\<not> ?d \<le> u" for u using cap_in_time [OF T] that by simp
  have w: "now + wait_timeout cfg (remaining (chainTimeoutMs cfg) t0 now) \<le> ?d" if "\<not> ?d \<le> now"
    using wait_in_time [OF T] that by simp
  show "\<forall>e\<in>set tr. in_time ?d e"
    using t cap by (auto simp: try_provider_def Let_def expired_remaining [OF T] split: if_split_asm)
  assume now: "now \<le> ?d" and ob: "\<forall>e\<in>set tr. obeys e"
  show "t \<le> ?d"
  proof (cases "?d \<le> now")
    case True
    then show ?thesis using t now by (auto simp: try_provider_def Let_def expired_remaining [OF T])
  next
    case False
    with t ob w [OF False] cap [OF False] cap [of "now + acq_ms a"] show ?thesis
      by (auto simp: try_provider_def Let_def expired_remaining [OF T] split: if_split_asm)
  qed
qed

lemma dispatch_loop_deadline:
  assumes "0 < chainTimeoutMs cfg" and "dispatch_loop key cfg opt t0 errs now ps = (tr, r, t)"
  shows "(\<forall>e\<in>set tr. in_time (t0 + chainTimeoutMs cfg) e) \<and>
     (now \<le> t0 + chainTimeoutMs cfg \<and> (\<forall>e\<in>set tr. obeys e) \<longrightarrow> t \<le> t0 + chainTimeoutMs cfg)"
  using assms(2)
proof (induction ps arbitrary: errs now tr r t)
  case (Cons pa ps)
  obtain p a where pa: "pa = (p, a)" by (cases pa)
  obtain tr1 v t1 where one: "try_provider key cfg opt t0 now p a = (tr1, v, t1)" by (metis prod_cases3)
  note dl = try_provider_deadline [OF assms(1) one]
  show ?case
  proof (cases v)
    case (Continue e)
    obtain tr2 r2 t2 where rest: "dispatch_loop key cfg opt t0 (errs @ [e]) t1 ps = (tr2, r2, t2)" by (metis prod_cases3)
    then have "tr = tr1 @ tr2" "t = t2" using Cons.prems one Continue by (simp_all add: pa)
    with Cons.IH [OF rest] dl show ?thesis by auto
  qed (use Cons.prems one dl in \<open>auto simp: pa\<close>)
qed simp

lemma build_loop_deadline:
  assumes "0 < limit" and "now \<le> t0 + limit"
  shows "snd (build_loop key limit t0 seen chain now es) \<le> t0 + limit"
  using assms(2)
proof (induction es arbitrary: seen chain now)
  case (Cons e es)
  obtain en av ms where e: "e = (en, av, ms)" by (cases e)
  show ?case
    using Cons by (auto simp: e Let_def expired_def remaining_def assms(1) max_def split: option.split)
qed simp

text \<open>
  A request ends by its deadline: with a chain timeout, every call of a provider in \<open>llmJson\<close> starts
  before the deadline and is given a time limit of at least a millisecond that does not pass it; and
  when the semaphores and providers keep to the limits they are given, the request ends by then, with an
  answer or an error, also if building the chain or waiting for slots took most of the time.
\<close>

theorem request_ends_by_deadline:
  assumes "0 < chainTimeoutMs cfg" and "llmJson key dkey cfg opt t0 providers avail env = (tr, r, t)"
  shows "(\<forall>e\<in>set tr. in_time (t0 + chainTimeoutMs cfg) e) \<and>
         ((\<forall>e\<in>set tr. obeys e) \<longrightarrow> t \<le> t0 + chainTimeoutMs cfg)"
proof -
  let ?es = "map (\<lambda>e. (e, avail e)) (request_entries cfg providers)"
  obtain b t1 where b: "build_loop key (chainTimeoutMs cfg) t0 [] [] t0 ?es = (b, t1)" by fastforce
  have t1: "t1 \<le> t0 + chainTimeoutMs cfg"
    using build_loop_deadline [OF assms(1), of t0 t0 key "[]" "[]" ?es] assms(1) b by simp
  show ?thesis
  proof (cases b)
    case (Inl e)
    with assms(2) b t1 show ?thesis by (auto simp: llmJson_def)
  next
    case (Inr chain)
    then have d: "dispatchChain dkey cfg opt t0 t1 (zip chain (map env [0..<length chain])) = (tr, r, t)"
      using assms(2) b by (simp add: llmJson_def)
    show ?thesis
    proof (cases "zip chain (map env [0..<length chain]) = []")
      case True
      with d t1 show ?thesis by (auto simp: dispatchChain_def)
    next
      case False
      with d have "dispatch_loop dkey cfg opt t0 [] t1 (zip chain (map env [0..<length chain])) = (tr, r, t)"
        by (simp only: dispatchChain_def if_False)
      from dispatch_loop_deadline [OF assms(1) this] t1 show ?thesis by simp
    qed
  qed
qed

section \<open>The answer\<close>

definition answer_of :: "bool \<Rightarrow> provider \<times> 'r attempt \<Rightarrow> 'r option" where
  "answer_of conc pa =
     (if conc \<and> \<not> acq_ok (snd pa) then None else case call_res (snd pa) of Inr x \<Rightarrow> Some x | Inl _ \<Rightarrow> None)"

definition error_of :: "bool \<Rightarrow> provider \<times> 'r attempt \<Rightarrow> dispatch_error" where
  "error_of conc pa =
     (if conc \<and> \<not> acq_ok (snd pa) then SemTimeout (pv_name (fst pa))
      else Failed (pv_name (fst pa)) (case call_res (snd pa) of Inl e \<Rightarrow> e | Inr _ \<Rightarrow> []))"

text \<open>The first provider that gets a slot and answers.\<close>

fun first_answer :: "bool \<Rightarrow> (provider \<times> 'r attempt) list \<Rightarrow> 'r option" where
  "first_answer conc [] = None"
| "first_answer conc (pa # ps) = (case answer_of conc pa of Some x \<Rightarrow> Some x | None \<Rightarrow> first_answer conc ps)"

text \<open>Every slot that is taken is given back before the next one is asked for.\<close>

fun slots :: "string option \<Rightarrow> trace_event list \<Rightarrow> bool" where
  "slots h [] = (h = None)"
| "slots h (Acquire k w ms # tr) = (h = None \<and> slots (Some k) tr)"
| "slots h (Release k # tr) = (h = Some k \<and> slots None tr)"
| "slots h (WaitTimeout k w ms # tr) = (h = None \<and> slots None tr)"
| "slots h (Call n t cap ms # tr) = slots h tr"

lemma slots_append: "slots h tr \<Longrightarrow> slots None tr' \<Longrightarrow> slots h (tr @ tr')"
  by (induction h tr rule: slots.induct) auto

lemma try_provider_slots:
  "try_provider key cfg opt t0 now p a = (tr, v, t) \<Longrightarrow> slots None tr"
  by (auto simp: try_provider_def Let_def split: if_split_asm)

lemma try_provider_verdict:
  assumes "try_provider key cfg opt t0 now p a = (tr, v, t)"
  shows "v = Return x \<Longrightarrow> answer_of (concurrencyEnabled cfg) (p, a) = Some x"
    and "v = Continue e \<Longrightarrow> e = FailedDeadline (pv_name p) \<and> 0 < chainTimeoutMs cfg \<and> t0 + chainTimeoutMs cfg \<le> t \<or>
           answer_of (concurrencyEnabled cfg) (p, a) = None \<and> e = error_of (concurrencyEnabled cfg) (p, a)"
    and "chainTimeoutMs cfg \<le> 0 \<Longrightarrow>
           v = (case answer_of (concurrencyEnabled cfg) (p, a) of
                  Some x \<Rightarrow> Return x | None \<Rightarrow> Continue (error_of (concurrencyEnabled cfg) (p, a)))"
  using assms
  by (auto simp: try_provider_def Let_def answer_of_def error_of_def after_call_def expired_def remaining_def
      split: if_split_asm sum.split_asm option.split_asm)

lemma late_loop:
  assumes "0 < chainTimeoutMs cfg" and "t0 + chainTimeoutMs cfg \<le> now"
  shows "\<exists>e. fst (snd (dispatch_loop key cfg opt t0 errs now ps)) = Inl e"
  using assms by (cases ps) (auto simp: try_provider_def Let_def expired_remaining)

lemma dispatch_loop_answer:
  assumes "dispatch_loop key cfg opt t0 errs now ps = (tr, r, t)"
  shows "slots None tr \<and> (\<forall>x. r = Inr x \<longrightarrow> first_answer (concurrencyEnabled cfg) ps = Some x) \<and>
     (chainTimeoutMs cfg \<le> 0 \<longrightarrow>
        r = (case first_answer (concurrencyEnabled cfg) ps of
               Some x \<Rightarrow> Inr x | None \<Rightarrow> Inl (errs @ map (error_of (concurrencyEnabled cfg)) ps)))"
  using assms
proof (induction ps arbitrary: errs now tr r t)
  case (Cons pa ps)
  obtain p a where pa: "pa = (p, a)" by (cases pa)
  obtain tr1 v t1 where one: "try_provider key cfg opt t0 now p a = (tr1, v, t1)" by (metis prod_cases3)
  note sl = try_provider_slots [OF one] and ve = try_provider_verdict [OF one]
  show ?case
  proof (cases v)
    case (Return x)
    then have "tr = tr1" "r = Inr x" using Cons.prems one by (simp_all add: pa)
    with sl ve(1) [OF Return] show ?thesis by (simp add: pa)
  next
    case (Break e)
    then have "tr = tr1" "r = Inl (errs @ [e])" using Cons.prems one by (simp_all add: pa)
    moreover have "\<not> chainTimeoutMs cfg \<le> 0" using ve(3) Break by (auto split: option.split_asm)
    ultimately show ?thesis using sl by simp
  next
    case (Continue e)
    obtain tr2 r2 t2 where rest: "dispatch_loop key cfg opt t0 (errs @ [e]) t1 ps = (tr2, r2, t2)" by (metis prod_cases3)
    then have r: "tr = tr1 @ tr2" "r = r2" using Cons.prems one Continue by (simp_all add: pa)
    from ve(2) [OF Continue] show ?thesis
    proof
      assume late: "e = FailedDeadline (pv_name p) \<and> 0 < chainTimeoutMs cfg \<and> t0 + chainTimeoutMs cfg \<le> t1"
      then obtain es where "r = Inl es" using late_loop [of cfg t0 t1 key opt "errs @ [e]" ps] rest r by auto
      then have "r \<noteq> Inr x" for x by simp
      moreover have "slots None tr" using Cons.IH [OF rest] sl r(1) by (simp add: slots_append)
      ultimately show ?thesis using late by simp
    next
      assume "answer_of (concurrencyEnabled cfg) (p, a) = None \<and> e = error_of (concurrencyEnabled cfg) (p, a)"
      then have none: "answer_of (concurrencyEnabled cfg) pa = None" "e = error_of (concurrencyEnabled cfg) pa" by (simp_all add: pa)
      have "slots None (tr1 @ tr2)" using Cons.IH [OF rest] sl by (simp add: slots_append)
      moreover have "r2 = (case first_answer (concurrencyEnabled cfg) ps of
          Some x \<Rightarrow> Inr x | None \<Rightarrow> Inl (errs @ map (error_of (concurrencyEnabled cfg)) (pa # ps)))"
        if "chainTimeoutMs cfg \<le> 0"
        using Cons.IH [OF rest, THEN conjunct2, THEN conjunct2, rule_format, OF that] none(2) by (simp split: option.split)
      ultimately show ?thesis using Cons.IH [OF rest, THEN conjunct2, THEN conjunct1]
        unfolding r first_answer.simps none(1) option.case by blast
    qed
  qed
qed simp

text \<open>
  The dispatcher gives the first answer: whatever the timing, an answer is that of the first provider
  of the chain that gets a slot and answers; without a chain timeout it is found whenever there is one,
  and otherwise the error lists the failure of every provider in order, of whatever kind (also those
  the error hierarchy declares fatal).  Every slot taken is released before the next one is asked for.
\<close>

theorem dispatch_first_answer:
  assumes "dispatchChain key cfg opt t0 now ps = (tr, r, t)"
  shows "slots None tr \<and> (\<forall>x. r = Inr x \<longrightarrow> first_answer (concurrencyEnabled cfg) ps = Some x) \<and>
     (chainTimeoutMs cfg \<le> 0 \<and> ps \<noteq> [] \<longrightarrow>
        r = (case first_answer (concurrencyEnabled cfg) ps of
               Some x \<Rightarrow> Inr x | None \<Rightarrow> Inl (map (error_of (concurrencyEnabled cfg)) ps)))"
proof (cases "ps = []")
  case True
  with assms show ?thesis by (auto simp: dispatchChain_def)
next
  case False
  with assms have "dispatch_loop key cfg opt t0 [] now ps = (tr, r, t)" by (simp add: dispatchChain_def)
  from dispatch_loop_answer [OF this, unfolded append_Nil] show ?thesis by simp
qed

text \<open>Two providers: the first gets no slot in time, the second answers.\<close>

definition sample_llm :: llm_config where
  "sample_llm = \<lparr>LLM_PRIMARY = ''gemini-cli'', LLM_FALLBACKS = [], chainTimeoutMs = 1000, concurrencyEnabled = True,
     concurrencyWaitMs = 300, providerTimeoutMs = None\<rparr>"

definition sample_env :: "nat \<Rightarrow> int attempt" where
  "sample_env n = (if n = 0 then \<lparr>acq_ok = False, acq_ms = 300, call_res = Inl [], call_ms = 0\<rparr>
     else \<lparr>acq_ok = True, acq_ms = 5, call_res = Inr 7, call_ms = 600\<rparr>)"

definition sample_entries :: "entry list" where
  "sample_entries = [EName ''gemini-cli'', EName ''codex-cli'', EName ''qwen-cli'']"

definition sample_avail :: "entry \<Rightarrow> available \<times> int" where
  "sample_avail e = (if e = EName ''codex-cli'' then (No, 10) else (Yes, 15))"

definition sample_request :: "trace_event list \<times> (dispatch_error list + int) \<times> int" where
  "sample_request =
     llmJson (buildChainKey id (\<lambda>_. [])) (dispatch_key id (\<lambda>_. [])) sample_llm None 0 (Some sample_entries) sample_avail sample_env"

lemma sample_request_value:
  "sample_request =
     ([WaitTimeout ''gemini-cli||'' 300 300, Acquire ''qwen-cli||'' 300 5, Call ''qwen-cli'' 345 (Some 655) 600, Release ''qwen-cli||''],
      Inr 7, 945)"
  by code_simp

theorem request_ends_by_deadline_witness:
  "list_all (in_time 1000) (fst sample_request) \<and> snd (snd sample_request) \<le> 1000"
proof -
  have "0 < chainTimeoutMs sample_llm" by (simp add: sample_llm_def)
  note d = request_ends_by_deadline [OF this sample_request_value [unfolded sample_request_def]]
  have T: "0 + chainTimeoutMs sample_llm = 1000" by (simp add: sample_llm_def)
  show ?thesis using d [unfolded T] by (simp add: sample_request_value)
qed

theorem dispatch_first_answer_witness:
  "slots None (fst sample_request) \<and>
   first_answer True [(the (createProvider (EName ''gemini-cli'')), sample_env 0), (the (createProvider (EName ''qwen-cli'')), sample_env 1)] = Some 7"
proof -
  let ?ps = "[(the (createProvider (EName ''gemini-cli'')), sample_env 0), (the (createProvider (EName ''qwen-cli'')), sample_env 1)]"
  have c: "concurrencyEnabled sample_llm" by (simp add: sample_llm_def)
  have "dispatchChain (dispatch_key id (\<lambda>_. [])) sample_llm None 0 40 ?ps = sample_request" by code_simp
  from dispatch_first_answer [OF this [unfolded sample_request_value]] c
  show ?thesis by (simp add: sample_request_value)
qed

section \<open>The limit of a keyed provider\<close>

definition bars :: "string \<Rightarrow> nat" where
  "bars s = length (filter (\<lambda>c. c = CHR ''|'') s)"

lemma bars_append [simp]: "bars (s @ t) = bars s + bars t"
  by (simp add: bars_def)

lemma bars_dispatch_key:
  assumes "truthy (pv_apiKey p)"
  shows "3 \<le> bars (dispatch_key sha8 json p)"
proof -
  have "bars (''|'' @ x) = Suc (bars x)" for x by (simp add: bars_def)
  then show ?thesis using assms by (simp add: dispatch_key_def conf_key_def)
qed

text \<open>
  A limit set for a chain key of a provider with an API key is never found: the key that the
  dispatcher looks up ends in a digest of the API key, so no entry of the documented form
  \<open>provider|baseUrl|model\<close> matches it.  In particular the built-in limit of 8 for one OpenAI endpoint
  never applies, and every \<open>openai\<close> provider with an API key runs with the general limit of 10.
\<close>

theorem keyed_limit_never_found:
  assumes "truthy (pv_apiKey p)" and "\<forall>k\<in>set (map fst limits). bars k \<le> 2"
  shows "getConcurrencyLimit limits (dispatch_key sha8 json p) name = nullish_to (map_of limits name) 10 \<and>
         getConcurrencyLimit DEFAULT_LLM_CONCURRENCY (dispatch_key sha8 json p) ''openai'' = 10"
proof -
  have none: "map_of ls (dispatch_key sha8 json p) = None" if "\<forall>k\<in>set (map fst ls). bars k \<le> 2" for ls :: "(string \<times> nat) list"
    using that bars_dispatch_key [OF assms(1), of sha8 json] by (force simp: map_of_eq_None_iff)
  have "\<forall>k\<in>set (map fst DEFAULT_LLM_CONCURRENCY). bars k \<le> 2" by (simp add: DEFAULT_LLM_CONCURRENCY_def bars_def)
  from none [OF this] none [OF assms(2)] show ?thesis
    by (simp add: getConcurrencyLimit_def nullish_to_def) (simp add: DEFAULT_LLM_CONCURRENCY_def)
qed

theorem keyed_limit_never_found_witness:
  "getConcurrencyLimit [(''openai||m'', 3)]
     (dispatch_key id (\<lambda>_. []) \<lparr>pv_name = ''openai'', pv_baseUrl = None, pv_model = Some ''m'', pv_apiKey = Some ''k'', pv_timeoutMs = None\<rparr>)
     ''openai'' = 10"
proof -
  let ?p = "\<lparr>pv_name = ''openai'', pv_baseUrl = None, pv_model = Some ''m'', pv_apiKey = Some ''k'', pv_timeoutMs = None\<rparr>"
  have "truthy (pv_apiKey ?p)" "\<forall>k\<in>set (map fst [(''openai||m'', 3 :: nat)]). bars k \<le> 2" by (simp_all add: bars_def)
  from keyed_limit_never_found [OF this, of id "\<lambda>_. []" "''openai''"] show ?thesis by simp
qed

lemma cooldown_bounds:
  assumes "0 \<le> rnd" and "0 \<le> minMs" and "minMs \<le> hardCapMs"
  shows "minMs \<le> computeCooldown rnd hint minMs maxMs hardCapMs" "computeCooldown rnd hint minMs maxMs hardCapMs \<le> hardCapMs"
proof -
  have "0 \<le> \<lfloor>rnd * of_int (max 0 (maxMs - minMs))\<rfloor>" using assms(1) by simp
  then have "minMs \<le> max (max (minMs + \<lfloor>rnd * of_int (max 0 (maxMs - minMs))\<rfloor>) hint) 0" by linarith
  with assms(3) show "minMs \<le> computeCooldown rnd hint minMs maxMs hardCapMs" by (simp add: computeCooldown_def Let_def)
  show "computeCooldown rnd hint minMs maxMs hardCapMs \<le> hardCapMs" by (simp add: computeCooldown_def Let_def)
qed

end
