(* ===== verification/Claims.thy ===== *)
theory Claims
  imports Scope
begin

text \<open>
  Claims: \<open>lib/symbolic/ClaimExtractor.js\<close>, \<open>ClaimStore.js\<close> with the table of migration 032,
  \<open>ClaimConflictDetector.js\<close>, the proactive gate \<open>rules/v1/proactive-gate.js\<close>, and their callers in
  \<open>lib/memory/write/RememberPostProcessor.js\<close>: the extraction of the claims of a new fragment and the
  links to similar fragments.

  Contents are lists of UTF-16 code units (\<open>ctext\<close>), because most markers are Korean.
  \<open>toLowerCase\<close> is modelled on Latin-1; Hangul has no case.  The morphemes of a content
  (\<open>MorphemeIndex.tokenize\<close>) are an argument, \<open>None\<close> when the tokenizer throws.
\<close>

section \<open>Text\<close>

type_synonym ctext = "nat list"

definition ascii :: "string \<Rightarrow> ctext" where
  "ascii s = map of_char s"

definition unit_space :: "nat \<Rightarrow> bool" where
  "unit_space c \<longleftrightarrow> c \<in> {9, 10, 11, 12, 13, 32, 0xA0, 0x1680, 0x2028, 0x2029, 0x202F, 0x205F, 0x3000, 0xFEFF} \<or>
     (0x2000 \<le> c \<and> c \<le> 0x200A)"

definition unit_lower :: "nat \<Rightarrow> nat" where
  "unit_lower n = (if 65 \<le> n \<and> n \<le> 90 \<or> 192 \<le> n \<and> n \<le> 214 \<or> 216 \<le> n \<and> n \<le> 222 then n + 32 else n)"

definition trim_text :: "ctext \<Rightarrow> ctext" where
  "trim_text s = rev (dropWhile unit_space (rev (dropWhile unit_space s)))"

definition compact :: "ctext \<Rightarrow> ctext" where
  "compact s = filter (\<lambda>c. \<not> unit_space c \<and> c \<noteq> 0xB7 \<and>
     c \<notin> set (ascii '',.!?~@#$%^&*()_+=|-/<>{}[]'') \<and> c \<noteq> 0x22 \<and> c \<noteq> 0x60 \<and> c \<noteq> 0x27 \<and> c \<noteq> 0x5C) s"

section \<open>Markers\<close>

definition POSITIVE_MARKERS :: "ctext list" where
  "POSITIVE_MARKERS =
   [[0xC0AC, 0xC6A9, 0xD55C, 0xB2E4], [0xC0AC, 0xC6A9, 0xD568], [0xC0AC, 0xC6A9],
    [0xC120, 0xD638, 0xD55C, 0xB2E4], [0xC120, 0xD638, 0xD568], [0xC120, 0xD638],
    [0xC124, 0xC815, 0xD55C, 0xB2E4], [0xC124, 0xC815, 0xD568], [0xC124, 0xC815],
    [0xCC44, 0xD0DD, 0xD55C, 0xB2E4], [0xCC44, 0xD0DD], [0xD65C, 0xC131, 0xD654, 0xD55C, 0xB2E4],
    [0xD65C, 0xC131, 0xD654], [0xC801, 0xC6A9, 0xD55C, 0xB2E4], [0xC801, 0xC6A9],
    [0xC9C0, 0xC6D0, 0xD55C, 0xB2E4], [0xC9C0, 0xC6D0], [0xD3EC, 0xD568, 0xD55C, 0xB2E4], [0xD3EC, 0xD568],
    [0xD544, 0xC218], [0xAD8C, 0xC7A5], ascii ''use'', ascii ''uses'', ascii ''prefer'', ascii ''prefers'',
    ascii ''enable'', ascii ''enabled'', ascii ''apply'', ascii ''applies'', ascii ''support'',
    ascii ''supports'', ascii ''adopt'', ascii ''adopts'', ascii ''required'', ascii ''recommended'']"

definition NEGATIVE_MARKERS :: "ctext list" where
  "NEGATIVE_MARKERS =
   [[0xC0AC, 0xC6A9, 0xD558, 0xC9C0, 0xC54A], [0xC0AC, 0xC6A9, 0xD558, 0xC9C0, 0x0020, 0xC54A],
    [0xC4F0, 0xC9C0, 0xC54A], [0xC4F0, 0xC9C0, 0x0020, 0xC54A], [0xAE08, 0xC9C0], [0xC81C, 0xC678],
    [0xBE44, 0xD65C, 0xC131, 0xD654], [0xBE44, 0xD65C, 0xC131], [0xBBF8, 0xC9C0, 0xC6D0],
    [0xC9C0, 0xC6D0, 0xD558, 0xC9C0, 0x0020, 0xC54A], [0xC81C, 0xAC70], [0xC0AD, 0xC81C],
    [0xC0AC, 0xC6A9, 0x0020, 0xC548], [0xC0AC, 0xC6A9, 0xC548],
    [0xD5C8, 0xC6A9, 0xD558, 0xC9C0, 0x0020, 0xC54A], [0xD5C8, 0xC6A9, 0xD558, 0xC9C0, 0xC54A],
    [0xC5C6, 0xB2E4], [0xC5C6, 0xC74C], [0xC54A, 0xC74C], [0xC54A, 0xB294, 0xB2E4],
    [0xC54A, 0xC2B5, 0xB2C8, 0xB2E4], [0xD558, 0xC9C0, 0x0020, 0xC54A], [0xD558, 0xC9C0, 0xC54A],
    [0xB418, 0xC9C0, 0x0020, 0xC54A], [0xB418, 0xC9C0, 0xC54A], [0xAD8C, 0xC7A5, 0xB418, 0xC9C0],
    [0xAD8C, 0xC7A5, 0xD558, 0xC9C0], ascii ''do not use'', ascii (''don'' @ [CHR 0x27] @ ''t use''),
    ascii ''does not use'', ascii ''disable'', ascii ''disabled'', ascii ''deprecated'', ascii ''reject'',
    ascii ''rejected'', ascii ''forbid'', ascii ''forbidden'', ascii ''remove'', ascii ''removed'',
    ascii ''never use'', ascii ''not supported'', ascii ''unsupported'', ascii ''not recommended'']"

definition UNCERTAIN_MARKERS :: "ctext list" where
  "UNCERTAIN_MARKERS =
   [[0xC544, 0xB9C8], [0xC544, 0xB9C8, 0xB3C4], [0xCD94, 0xC815], [0xCD94, 0xC815, 0xB41C, 0xB2E4],
    [0xAC00, 0xB2A5, 0xC131], [0xBD88, 0xD655, 0xC2E4], [0xC77C, 0x0020, 0xC218, 0xB3C4, 0x0020, 0xC788],
    [0xB85C, 0x0020, 0xBCF4, 0xC784], [0xB85C, 0x0020, 0xBCF4, 0xC778, 0xB2E4],
    [0xC77C, 0x0020, 0xAC83, 0xC73C, 0xB85C, 0x0020, 0xBCF4], ascii ''maybe'', ascii ''possibly'',
    ascii ''likely'', ascii ''perhaps'', ascii ''might'', ascii ''could be'', ascii ''seems'',
    ascii ''appears to'']"

section \<open>Extraction\<close>

datatype polarity = Positive | Negative | Uncertain

record claim =
  subject :: ctext
  predicate :: ctext
  obj :: "ctext option"
  polarity :: polarity
  confidence :: rat
  extractor :: string
  ruleVersion :: string

definition hit :: "ctext list \<Rightarrow> ctext \<Rightarrow> ctext option" where
  "hit markers content =
     (let lower = map unit_lower content; compact_lower = compact lower
      in find (\<lambda>m. let lm = map unit_lower m in contains lm lower \<or> contains (compact lm) compact_lower) markers)"

definition detectPolarity :: "ctext \<Rightarrow> polarity \<times> rat \<times> ctext option" where
  "detectPolarity content =
     (case hit UNCERTAIN_MARKERS content of
        Some m \<Rightarrow> (Uncertain, 5 / 10, Some m)
      | None \<Rightarrow>
          (case hit NEGATIVE_MARKERS content of
             Some m \<Rightarrow> (Negative, 75 / 100, Some m)
           | None \<Rightarrow>
               (case hit POSITIVE_MARKERS content of
                  Some m \<Rightarrow> (Positive, 7 / 10, Some m)
                | None \<Rightarrow> (Uncertain, 4 / 10, None))))"

definition safeTokenize :: "ctext list option \<Rightarrow> ctext list" where
  "safeTokenize toks = (case toks of None \<Rightarrow> [] | Some ts \<Rightarrow> filter (\<lambda>t. t \<noteq> []) ts)"

definition deriveSubject :: "ctext option \<Rightarrow> ctext list \<Rightarrow> ctext" where
  "deriveSubject topic tokens =
     (case topic of
        Some t \<Rightarrow> if trim_text t \<noteq> [] then trim_text t else if tokens \<noteq> [] then hd tokens else ascii ''unknown''
      | None \<Rightarrow> if tokens \<noteq> [] then hd tokens else ascii ''unknown'')"

definition derivePredicate :: "ctext option \<Rightarrow> ctext list \<Rightarrow> ctext" where
  "derivePredicate marker tokens =
     (case marker of
        Some m \<Rightarrow> m
      | None \<Rightarrow>
          (case find (\<lambda>t. t \<in> set POSITIVE_MARKERS \<or> t \<in> set NEGATIVE_MARKERS) tokens of
             Some t \<Rightarrow> t
           | None \<Rightarrow> ascii ''mentions''))"

definition deriveObject :: "ctext list \<Rightarrow> ctext \<Rightarrow> ctext option" where
  "deriveObject tokens subj = (if length tokens \<le> 1 then None else find (\<lambda>t. t \<noteq> subj) (rev tokens))"

definition extract_claims :: "string \<Rightarrow> ctext \<Rightarrow> ctext option \<Rightarrow> ctext list option \<Rightarrow> claim list" where
  "extract_claims version content topic toks =
     (if trim_text content = [] then []
      else let tokens = safeTokenize toks;
               (pol, conf, marker) = detectPolarity content;
               subj = deriveSubject topic tokens
           in [\<lparr>subject = subj, predicate = derivePredicate marker tokens, obj = deriveObject tokens subj,
                polarity = pol, confidence = conf, extractor = ''morpheme-rule'', ruleVersion = version\<rparr>])"

section \<open>The store\<close>

text \<open>The pool is missing, its queries fail, or they run.\<close>

datatype pool = NoPool | Broken | Working

datatype claim_error = TENANT_ISOLATION_VIOLATION | Db_error

record claim_row =
  c_id :: nat
  c_fragment :: string
  c_key :: "string option"
  c_claim :: claim

record claim_db =
  claims :: "claim_row list"
  next_id :: nat
  known :: "string list"

text \<open>The key of a call: the mode \<open>claim\<close> of \<open>normalizeKeyId\<close>.\<close>

definition norm_key :: "string option \<Rightarrow> string option" where
  "norm_key k = (case claim_key (case k of None \<Rightarrow> KNone | Some s \<Rightarrow> KOne s) of KOne s \<Rightarrow> Some s | _ \<Rightarrow> None)"

lemma norm_key_simps [simp]: "norm_key None = None" "norm_key (Some s) = (if s = [] then None else Some s)"
  by (simp_all add: norm_key_def)

lemma norm_key_idem [simp]: "norm_key (norm_key k) = norm_key k"
  by (cases k) auto

text \<open>The two unique indexes: one row per fragment, key, subject, predicate and object.\<close>

definition same_claim :: "string \<Rightarrow> string option \<Rightarrow> claim \<Rightarrow> claim_row \<Rightarrow> bool" where
  "same_claim f k c r \<longleftrightarrow> c_fragment r = f \<and> c_key r = k \<and> subject (c_claim r) = subject c \<and>
     predicate (c_claim r) = predicate c \<and> nullish_to (obj (c_claim r)) [] = nullish_to (obj c) []"

definition add_claim :: "string \<Rightarrow> string option \<Rightarrow> claim \<Rightarrow> claim_db \<Rightarrow> claim_db" where
  "add_claim f k c db =
     (if \<exists>r \<in> set (claims db). same_claim f k c r then db\<lparr>next_id := next_id db + 1\<rparr>
      else db\<lparr>claims := claims db @ [\<lparr>c_id = next_id db, c_fragment = f, c_key = k, c_claim = c\<rparr>],
             next_id := next_id db + 1\<rparr>)"

definition claim_ok :: "claim \<Rightarrow> bool" where
  "claim_ok c \<longleftrightarrow> 0 \<le> confidence c \<and> confidence c \<le> 1 \<and> extractor c \<in> {''morpheme-rule'', ''llm'', ''manual''}"

definition insert_claims ::
  "pool \<Rightarrow> string \<times> string option \<Rightarrow> claim list \<Rightarrow> string option \<Rightarrow> claim_db \<Rightarrow> claim_error + (nat \<times> claim_db)" where
  "insert_claims p frag cs ctx_key db =
     (if fst frag = [] \<or> cs = [] then Inr (0, db)
      else if norm_key (snd frag) \<noteq> norm_key ctx_key then Inl TENANT_ISOLATION_VIOLATION
      else case p of
             NoPool \<Rightarrow> Inr (0, db)
           | Broken \<Rightarrow> Inl Db_error
           | Working \<Rightarrow>
               if fst frag \<notin> set (known db) \<or> \<not> list_all claim_ok cs then Inl Db_error
               else let db' = fold (add_claim (fst frag) (norm_key (snd frag))) cs db
                    in Inr (length (claims db') - length (claims db), db'))"

definition getByFragmentId :: "pool \<Rightarrow> string \<Rightarrow> string option \<Rightarrow> claim_db \<Rightarrow> claim_error + claim_row list" where
  "getByFragmentId p f k db =
     (case p of NoPool \<Rightarrow> Inr [] | Broken \<Rightarrow> Inl Db_error
      | Working \<Rightarrow> Inr (filter (\<lambda>r. c_fragment r = f \<and> c_key r = norm_key k) (claims db)))"

definition deleteByFragmentId ::
  "pool \<Rightarrow> string \<Rightarrow> string option \<Rightarrow> claim_db \<Rightarrow> claim_error + (nat \<times> claim_db)" where
  "deleteByFragmentId p f k db =
     (case p of NoPool \<Rightarrow> Inr (0, db) | Broken \<Rightarrow> Inl Db_error
      | Working \<Rightarrow>
          let gone = (\<lambda>r. c_fragment r = f \<and> c_key r = norm_key k)
          in Inr (length (filter gone (claims db)), db\<lparr>claims := filter (\<lambda>r. \<not> gone r) (claims db)\<rparr>))"

record conflict_row =
  f1 :: string
  f2 :: string
  x_subject :: ctext
  x_predicate :: ctext
  x_object :: "ctext option"

definition opposed :: "claim_row \<Rightarrow> claim_row \<Rightarrow> bool" where
  "opposed a b \<longleftrightarrow> subject (c_claim a) = subject (c_claim b) \<and> predicate (c_claim a) = predicate (c_claim b) \<and>
     nullish_to (obj (c_claim a)) [] = nullish_to (obj (c_claim b)) [] \<and>
     polarity (c_claim a) = Positive \<and> polarity (c_claim b) = Negative \<and> c_fragment a \<noteq> c_fragment b"

definition findPolarityConflicts ::
  "pool \<Rightarrow> string \<Rightarrow> string option \<Rightarrow> rat option \<Rightarrow> claim_db \<Rightarrow> claim_error + conflict_row list" where
  "findPolarityConflicts p f k minConfidence db =
     (case p of NoPool \<Rightarrow> Inr [] | Broken \<Rightarrow> Inl Db_error
      | Working \<Rightarrow>
          let t = nullish_to minConfidence (7 / 10)
          in Inr [\<lparr>f1 = c_fragment a, f2 = c_fragment b, x_subject = subject (c_claim a),
                   x_predicate = predicate (c_claim a), x_object = obj (c_claim a)\<rparr>.
                  a \<leftarrow> claims db, b \<leftarrow> claims db,
                  opposed a b \<and> (c_fragment a = f \<or> c_fragment b = f) \<and> c_key a = norm_key k \<and> c_key b = norm_key k \<and>
                  t \<le> confidence (c_claim a) \<and> t \<le> confidence (c_claim b)])"

section \<open>The detector\<close>

record conflict =
  conflictWith :: string
  k_subject :: ctext
  k_predicate :: ctext
  k_object :: "ctext option"

record detection =
  conflicts :: "conflict list"
  severity :: string
  failed :: bool

definition severityFromRows :: "conflict_row list \<Rightarrow> string" where
  "severityFromRows rs = (if 4 \<le> length rs then ''high'' else if 2 \<le> length rs then ''medium'' else ''low'')"

definition detectPolarityConflicts ::
  "pool \<Rightarrow> string \<Rightarrow> string option \<Rightarrow> rat option \<Rightarrow> claim_db \<Rightarrow> detection" where
  "detectPolarityConflicts p f k minConfidence db =
     (let none = \<lparr>conflicts = [], severity = ''none'', failed = False\<rparr>
      in if f = [] then none
         else case findPolarityConflicts p f k minConfidence db of
                Inl _ \<Rightarrow> none\<lparr>failed := True\<rparr>
              | Inr [] \<Rightarrow> none
              | Inr rs \<Rightarrow>
                  \<lparr>conflicts = map (\<lambda>r. \<lparr>conflictWith = (if f1 r = f then f2 r else f1 r), k_subject = x_subject r,
                                       k_predicate = x_predicate r, k_object = x_object r\<rparr>) rs,
                   severity = severityFromRows rs, failed = False\<rparr>)"

section \<open>Extraction after a remember\<close>

text \<open>\<open>_extractSymbolicClaims\<close>: every failure is logged and swallowed.\<close>

definition extractSymbolicClaims ::
  "pool \<Rightarrow> string \<Rightarrow> string \<times> string option \<Rightarrow> ctext \<Rightarrow> ctext option \<Rightarrow> ctext list option \<Rightarrow> string option \<Rightarrow>
   claim_db \<Rightarrow> claim_db" where
  "extractSymbolicClaims p version frag content topic toks ctx_key db =
     (let cs = extract_claims version content topic toks
      in if cs = [] then db
         else case insert_claims p frag cs ctx_key db of Inl _ \<Rightarrow> db | Inr (_, db') \<Rightarrow> db')"

text \<open>A new fragment, and the deletion of a fragment with \<open>ON DELETE CASCADE\<close>.\<close>

definition add_fragment :: "string \<Rightarrow> claim_db \<Rightarrow> claim_db" where
  "add_fragment f db = db\<lparr>known := f # known db\<rparr>"

definition drop_fragment :: "string \<Rightarrow> claim_db \<Rightarrow> claim_db" where
  "drop_fragment f db =
     db\<lparr>known := removeAll f (known db), claims := filter (\<lambda>r. c_fragment r \<noteq> f) (claims db)\<rparr>"

definition empty_claims :: claim_db where
  "empty_claims = \<lparr>claims = [], next_id = 1, known = []\<rparr>"

text \<open>What the server does to the table of claims.\<close>

inductive claim_step :: "claim_db \<Rightarrow> claim_db \<Rightarrow> bool" where
  fragment: "claim_step db (add_fragment f db)"
| claim: "claim_step db (extractSymbolicClaims p v frag content topic toks k db)"
| clear: "deleteByFragmentId p f k db = Inr (n, db') \<Longrightarrow> claim_step db db'"
| cascade: "claim_step db (drop_fragment f db)"

section \<open>One claim after the other\<close>

lemma add_claim_simps [simp]:
  "known (add_claim f k c db) = known db" "next_id (add_claim f k c db) = next_id db + 1"
  by (simp_all add: add_claim_def)

lemma add_claim_rows:
  "r \<in> set (claims (add_claim f k c db)) \<Longrightarrow>
     r \<in> set (claims db) \<or> r = \<lparr>c_id = next_id db, c_fragment = f, c_key = k, c_claim = c\<rparr>"
  by (auto simp: add_claim_def split: if_splits)

lemma fold_add_claim_known [simp]: "known (fold (add_claim f k) cs db) = known db"
  by (induction cs arbitrary: db) auto

text \<open>A property of rows that holds of the rows of the table and of every row that may be added.\<close>

lemma fold_add_claim_rows:
  assumes "\<And>r. r \<in> set (claims db) \<Longrightarrow> P r"
    and "\<And>i c. c \<in> set cs \<Longrightarrow> P \<lparr>c_id = i, c_fragment = f, c_key = k, c_claim = c\<rparr>"
    and "r \<in> set (claims (fold (add_claim f k) cs db))"
  shows "P r"
  using assms
proof (induction cs arbitrary: db)
  case Nil
  then show ?case by simp
next
  case (Cons a cs)
  show ?case
  proof (rule Cons.IH)
    fix r assume "r \<in> set (claims (add_claim f k a db))"
    then show "P r" using Cons.prems(1) Cons.prems(2) [of a] by (auto dest: add_claim_rows)
  next
    fix i c assume "c \<in> set cs"
    then show "P \<lparr>c_id = i, c_fragment = f, c_key = k, c_claim = c\<rparr>" using Cons.prems(2) by simp
  next
    show "r \<in> set (claims (fold (add_claim f k) cs (add_claim f k a db)))" using Cons.prems(3) by simp
  qed
qed

text \<open>Rows that the added ones do not match are left alone, in their order.\<close>

lemma fold_add_claim_filter:
  "(\<And>i c. \<not> P \<lparr>c_id = i, c_fragment = f, c_key = k, c_claim = c\<rparr>) \<Longrightarrow>
   filter P (claims (fold (add_claim f k) cs db)) = filter P (claims db)"
  by (induction cs arbitrary: db) (auto simp: add_claim_def)

definition inserted :: "string \<times> string option \<Rightarrow> claim list \<Rightarrow> string option \<Rightarrow> claim_db \<Rightarrow> claim_db \<Rightarrow> bool" where
  "inserted frag cs k db db' \<longleftrightarrow> norm_key (snd frag) = norm_key k \<and> list_all claim_ok cs \<and>
     fst frag \<in> set (known db) \<and> db' = fold (add_claim (fst frag) (norm_key k)) cs db"

lemma insert_claims_Inr:
  "insert_claims p frag cs k db = Inr (n, db') \<Longrightarrow> db' = db \<or> inserted frag cs k db db'"
  by (cases p) (auto simp: insert_claims_def inserted_def Let_def split: if_split_asm)

lemma extractSymbolicClaims_result:
  "extractSymbolicClaims p v frag content topic toks k db = db \<or>
   inserted frag (extract_claims v content topic toks) k db (extractSymbolicClaims p v frag content topic toks k db)"
proof (cases "insert_claims p frag (extract_claims v content topic toks) k db")
  case (Inl e)
  then show ?thesis by (simp add: extractSymbolicClaims_def Let_def)
next
  case (Inr r)
  obtain n db' where r: "r = (n, db')" by force
  have "db' = db \<or> inserted frag (extract_claims v content topic toks) k db db'"
    using insert_claims_Inr Inr r by blast
  then show ?thesis by (auto simp: extractSymbolicClaims_def Let_def Inr r)
qed

section \<open>The invariant of the table\<close>

text \<open>
  The ids ascend, no two rows of a fragment and key have the same subject, predicate and object, every row
  belongs to a stored fragment and keeps the CHECK constraints.
\<close>

definition claims_ok :: "claim_db \<Rightarrow> bool" where
  "claims_ok db \<longleftrightarrow>
     sorted_wrt (\<lambda>a b. c_id a < c_id b \<and> \<not> same_claim (c_fragment b) (c_key b) (c_claim b) a) (claims db) \<and>
     (\<forall>r \<in> set (claims db). c_id r < next_id db \<and> c_fragment r \<in> set (known db) \<and> claim_ok (c_claim r))"

lemma claims_ok_add:
  "claims_ok db \<Longrightarrow> f \<in> set (known db) \<Longrightarrow> claim_ok c \<Longrightarrow> claims_ok (add_claim f k c db)"
  by (auto simp: claims_ok_def add_claim_def sorted_wrt_append less_Suc_eq)

lemma claims_ok_fold:
  "claims_ok db \<Longrightarrow> f \<in> set (known db) \<Longrightarrow> list_all claim_ok cs \<Longrightarrow> claims_ok (fold (add_claim f k) cs db)"
  by (induction cs arbitrary: db) (auto simp: claims_ok_add)

lemma claims_ok_inserted: "claims_ok db \<Longrightarrow> inserted frag cs k db db' \<Longrightarrow> claims_ok db'"
  by (simp add: inserted_def claims_ok_fold)

lemma claims_ok_filter:
  "claims_ok db \<Longrightarrow> claims_ok (db\<lparr>claims := filter P (claims db)\<rparr>)"
  by (auto simp: claims_ok_def sorted_wrt_filter)

lemma claims_ok_step: "claim_step db db' \<Longrightarrow> claims_ok db \<Longrightarrow> claims_ok db'"
proof (induction rule: claim_step.induct)
  case (fragment db f)
  then show ?case by (auto simp: claims_ok_def add_fragment_def)
next
  case (claim db p v frag content topic toks k)
  then show ?case
    using extractSymbolicClaims_result [of p v frag content topic toks k db] claims_ok_inserted by metis
next
  case (clear p f k db n db')
  then show ?case
    by (auto simp: deleteByFragmentId_def Let_def claims_ok_filter split: pool.splits)
next
  case (cascade db f)
  then show ?case by (auto simp: claims_ok_def drop_fragment_def sorted_wrt_filter)
qed

lemma claims_ok_reachable: "claim_step\<^sup>*\<^sup>* db db' \<Longrightarrow> claims_ok db \<Longrightarrow> claims_ok db'"
  by (induction rule: rtranclp_induct) (auto intro: claims_ok_step)

lemma claims_ok_empty [simp]: "claims_ok empty_claims"
  by (simp add: claims_ok_def empty_claims_def)

section \<open>What a key sees\<close>

definition seen_by :: "string option \<Rightarrow> claim_db \<Rightarrow> claim_row list" where
  "seen_by k db = filter (\<lambda>r. c_key r = norm_key k) (claims db)"

lemma pairs_filter:
  assumes "\<And>a b. R a b \<longleftrightarrow> P a b \<and> Q a \<and> Q b"
  shows "concat (map (\<lambda>a. concat (map (\<lambda>b. if R a b then [g a b] else []) ys)) xs) =
         concat (map (\<lambda>a. concat (map (\<lambda>b. if P a b then [g a b] else []) (filter Q ys))) (filter Q xs))"
proof (induction xs)
  case Nil
  then show ?case by simp
next
  case (Cons x xs)
  have "concat (map (\<lambda>b. if R x b then [g x b] else []) ys) =
      (if Q x then concat (map (\<lambda>b. if P x b then [g x b] else []) (filter Q ys)) else [])"
    by (induction ys) (auto simp: assms)
  then show ?case using Cons by simp
qed

lemma filter_drop: "(\<And>x. P x \<Longrightarrow> \<not> Q x) \<Longrightarrow> filter P (filter (\<lambda>x. \<not> Q x) xs) = filter P xs"
  by (induction xs) auto

lemma getByFragmentId_seen:
  "getByFragmentId p f k db =
     (case p of NoPool \<Rightarrow> Inr [] | Broken \<Rightarrow> Inl Db_error | Working \<Rightarrow> Inr (filter (\<lambda>r. c_fragment r = f) (seen_by k db)))"
  by (simp add: getByFragmentId_def seen_by_def conj_commute split: pool.split)

definition conflict_rows :: "string \<Rightarrow> rat \<Rightarrow> claim_row list \<Rightarrow> conflict_row list" where
  "conflict_rows f t rs =
     [\<lparr>f1 = c_fragment a, f2 = c_fragment b, x_subject = subject (c_claim a),
       x_predicate = predicate (c_claim a), x_object = obj (c_claim a)\<rparr>.
       a \<leftarrow> rs, b \<leftarrow> rs, opposed a b \<and> (c_fragment a = f \<or> c_fragment b = f) \<and>
       t \<le> confidence (c_claim a) \<and> t \<le> confidence (c_claim b)]"

lemma findPolarityConflicts_seen:
  "findPolarityConflicts p f k m db =
     (case p of NoPool \<Rightarrow> Inr [] | Broken \<Rightarrow> Inl Db_error
      | Working \<Rightarrow> Inr (conflict_rows f (nullish_to m (7 / 10)) (seen_by k db)))"
proof (cases p)
  case Working
  show ?thesis
    unfolding findPolarityConflicts_def conflict_rows_def seen_by_def Let_def Working pool.case
    by (rule arg_cong [where f = Inr], rule pairs_filter) blast
qed (simp_all add: findPolarityConflicts_def)

lemma same_view:
  "seen_by k db = seen_by k db' \<Longrightarrow>
     getByFragmentId p f k db = getByFragmentId p f k db' \<and> findPolarityConflicts p f k m db = findPolarityConflicts p f k m db'"
  by (simp add: getByFragmentId_seen findPolarityConflicts_seen split: pool.split)

lemma seen_by_inserted:
  "inserted frag cs k db db' \<Longrightarrow> norm_key k' \<noteq> norm_key k \<Longrightarrow> seen_by k' db' = seen_by k' db"
  by (simp add: inserted_def seen_by_def fold_add_claim_filter)

lemma seen_by_extract:
  "norm_key k' \<noteq> norm_key k \<Longrightarrow> seen_by k' (extractSymbolicClaims p v frag content topic toks k db) = seen_by k' db"
  using extractSymbolicClaims_result [of p v frag content topic toks k db] seen_by_inserted by metis

lemma seen_by_delete:
  assumes "deleteByFragmentId p f k db = Inr (n, db')" "norm_key k' \<noteq> norm_key k"
  shows "seen_by k' db' = seen_by k' db"
proof (cases p)
  case Working
  then have "claims db' = filter (\<lambda>r. \<not> (c_fragment r = f \<and> c_key r = norm_key k)) (claims db)"
    using assms(1) by (auto simp: deleteByFragmentId_def Let_def)
  moreover have "filter (\<lambda>r. c_key r = norm_key k') (filter (\<lambda>r. \<not> (c_fragment r = f \<and> c_key r = norm_key k)) (claims db)) =
      filter (\<lambda>r. c_key r = norm_key k') (claims db)"
    by (rule filter_drop) (use assms(2) in auto)
  ultimately show ?thesis unfolding seen_by_def by (simp only:)
qed (use assms in \<open>auto simp: deleteByFragmentId_def\<close>)

lemma extract_mismatch:
  "norm_key (snd frag) \<noteq> norm_key k \<Longrightarrow> extractSymbolicClaims p v frag content topic toks k db = db"
  using extractSymbolicClaims_result [of p v frag content topic toks k db] by (auto simp: inserted_def)

text \<open>
  The claims of a key are its own: what is extracted or deleted under one key changes neither the claims
  that another key reads nor the conflicts it finds, and nothing is stored for a fragment of another key.
\<close>

theorem claims_isolated:
  assumes "norm_key k' \<noteq> norm_key k"
    and "db1 = extractSymbolicClaims p v frag content topic toks k db"
    and "deleteByFragmentId q g k db1 = Inr (n, db2)"
  shows "getByFragmentId r f k' db2 = getByFragmentId r f k' db \<and>
    findPolarityConflicts r f k' m db2 = findPolarityConflicts r f k' m db \<and>
    (norm_key (snd frag) = norm_key k' \<longrightarrow> db1 = db)"
proof -
  have "seen_by k' db2 = seen_by k' db"
    using seen_by_delete [OF assms(3,1)] seen_by_extract [OF assms(1)] assms(2) by simp
  moreover have "db1 = db" if "norm_key (snd frag) = norm_key k'"
    using assms(1,2) that extract_mismatch by metis
  ultimately show ?thesis using same_view by blast
qed

section \<open>Extracted claims never conflict\<close>

lemma hit_mem: "hit ms c = Some m \<Longrightarrow> m \<in> set ms"
  by (auto simp: hit_def Let_def dest: find_SomeD)

lemma markers_disjoint: "set POSITIVE_MARKERS \<inter> set NEGATIVE_MARKERS = {}"
  by (simp add: POSITIVE_MARKERS_def NEGATIVE_MARKERS_def ascii_def)

definition marked :: "claim \<Rightarrow> bool" where
  "marked c \<longleftrightarrow> (polarity c = Positive \<longrightarrow> predicate c \<in> set POSITIVE_MARKERS) \<and>
     (polarity c = Negative \<longrightarrow> predicate c \<in> set NEGATIVE_MARKERS)"

lemma detectPolarity_hit:
  "fst (detectPolarity c) = Positive \<Longrightarrow> \<exists>m. hit POSITIVE_MARKERS c = Some m \<and> snd (snd (detectPolarity c)) = Some m"
  "fst (detectPolarity c) = Negative \<Longrightarrow> \<exists>m. hit NEGATIVE_MARKERS c = Some m \<and> snd (snd (detectPolarity c)) = Some m"
  by (auto simp: detectPolarity_def split: option.splits)

lemma detectPolarity_marker:
  assumes "detectPolarity content = (pol, conf, marker)"
  shows "(pol = Positive \<longrightarrow> (\<exists>m \<in> set POSITIVE_MARKERS. marker = Some m)) \<and>
         (pol = Negative \<longrightarrow> (\<exists>m \<in> set NEGATIVE_MARKERS. marker = Some m))"
  using detectPolarity_hit [of content] hit_mem by (fastforce simp: assms)

lemma marked_extract:
  assumes "c \<in> set (extract_claims v content topic toks)"
  shows "marked c"
proof -
  obtain pol conf marker where d: "detectPolarity content = (pol, conf, marker)"
    using prod_cases3 by blast
  have "polarity c = pol" "predicate c = derivePredicate marker (safeTokenize toks)"
    using assms by (auto simp: extract_claims_def Let_def d split: if_splits)
  then show ?thesis
    using detectPolarity_marker [OF d] by (auto simp: marked_def derivePredicate_def)
qed

lemma marked_step:
  "claim_step db db' \<Longrightarrow> \<forall>r \<in> set (claims db). marked (c_claim r) \<Longrightarrow> \<forall>r \<in> set (claims db'). marked (c_claim r)"
proof (induction rule: claim_step.induct)
  case (claim db p v frag content topic toks k)
  let ?cs = "extract_claims v content topic toks"
  let ?db' = "extractSymbolicClaims p v frag content topic toks k db"
  consider "?db' = db" | "?db' = fold (add_claim (fst frag) (norm_key k)) ?cs db"
    using extractSymbolicClaims_result [of p v frag content topic toks k db] unfolding inserted_def by blast
  then show ?case
  proof cases
    case 1
    then show ?thesis using claim by simp
  next
    case 2
    have "marked (c_claim r)" if "r \<in> set (claims (fold (add_claim (fst frag) (norm_key k)) ?cs db))" for r
      by (rule fold_add_claim_rows [OF _ _ that]) (use claim marked_extract in auto)
    then show ?thesis unfolding 2 by blast
  qed
qed (auto simp: add_fragment_def drop_fragment_def deleteByFragmentId_def Let_def split: pool.splits)

lemma marked_reachable:
  "claim_step\<^sup>*\<^sup>* empty_claims db \<Longrightarrow> \<forall>r \<in> set (claims db). marked (c_claim r)"
  by (induction rule: rtranclp_induct) (simp add: empty_claims_def, blast dest: marked_step)

lemma marked_not_opposed: "marked (c_claim a) \<Longrightarrow> marked (c_claim b) \<Longrightarrow> \<not> opposed a b"
  using markers_disjoint by (auto simp: marked_def opposed_def)

lemma no_conflict_rows: "\<forall>r \<in> set rs. marked (c_claim r) \<Longrightarrow> conflict_rows f t rs = []"
  by (auto simp: conflict_rows_def marked_not_opposed)

lemma reachable_no_conflict_rows:
  assumes "claim_step\<^sup>*\<^sup>* empty_claims db"
  shows "findPolarityConflicts p f k m db = (if p = Broken then Inl Db_error else Inr [])"
proof -
  have "\<forall>r \<in> set (seen_by k db). marked (c_claim r)"
    using marked_reachable [OF assms] by (simp add: seen_by_def)
  then show ?thesis by (simp add: findPolarityConflicts_seen no_conflict_rows split: pool.split)
qed

lemma extracted_no_conflict:
  assumes "claim_step\<^sup>*\<^sup>* empty_claims db"
  shows "conflicts (detectPolarityConflicts p f k m db) = []"
  using reachable_no_conflict_rows [OF assms, of p f k m]
  by (simp add: detectPolarityConflicts_def Let_def split: if_splits)

text \<open>
  On every table that the server can build, the detector finds nothing, for any fragment, key
  and threshold: the predicate of an extracted claim is its marker, and no marker is both positive and negative,
  while a conflict needs one predicate on both sides.
\<close>

theorem extracted_claims_never_conflict:
  assumes "claim_step\<^sup>*\<^sup>* empty_claims db"
  shows "conflicts (detectPolarityConflicts p f k m db) = []"
  by (rule extracted_no_conflict [OF assms])

text \<open>Two fragments, about using and about forbidding \<open>a\<close>, whose claims differ in the polarity and in the predicate.\<close>

definition uses_a :: claim_db where
  "uses_a = extractSymbolicClaims Working ''v1'' (''f'', None) [0xC0AC, 0xC6A9] (Some (ascii ''style''))
     (Some [ascii ''use'', ascii ''a'']) None (add_fragment ''f'' empty_claims)"

definition forbids_a :: claim_db where
  "forbids_a = extractSymbolicClaims Working ''v1'' (''g'', None) [0xAE08, 0xC9C0] (Some (ascii ''style''))
     (Some [ascii ''forbid'', ascii ''a'']) None (add_fragment ''g'' uses_a)"

lemma forbids_a_reachable: "claim_step\<^sup>*\<^sup>* empty_claims forbids_a"
  unfolding forbids_a_def uses_a_def
  by (rule rtranclp.rtrancl_into_rtrancl, rule rtranclp.rtrancl_into_rtrancl, rule rtranclp.rtrancl_into_rtrancl,
      rule r_into_rtranclp, rule claim_step.fragment, rule claim_step.claim, rule claim_step.fragment,
      rule claim_step.claim)

lemmas text_eval = ascii_def compact_def unit_space_def unit_lower_def trim_text_def

lemma polarity_use: "detectPolarity [0xC0AC, 0xC6A9] = (Positive, 7 / 10, Some [0xC0AC, 0xC6A9])"
  by (simp add: detectPolarity_def hit_def UNCERTAIN_MARKERS_def NEGATIVE_MARKERS_def POSITIVE_MARKERS_def text_eval)

lemma polarity_forbid: "detectPolarity [0xAE08, 0xC9C0] = (Negative, 3 / 4, Some [0xAE08, 0xC9C0])"
  by (simp add: detectPolarity_def hit_def UNCERTAIN_MARKERS_def NEGATIVE_MARKERS_def text_eval)

lemma forbids_a_claims:
  "map (\<lambda>r. (c_fragment r, subject (c_claim r), obj (c_claim r), polarity (c_claim r))) (claims forbids_a) =
     [(''f'', ascii ''style'', Some (ascii ''a''), Positive), (''g'', ascii ''style'', Some (ascii ''a''), Negative)]"
  by (simp add: forbids_a_def uses_a_def extractSymbolicClaims_def extract_claims_def insert_claims_def Let_def
      polarity_use polarity_forbid safeTokenize_def deriveSubject_def deriveObject_def derivePredicate_def
      claim_ok_def add_claim_def same_claim_def add_fragment_def empty_claims_def text_eval)

lemma extracted_claims_never_conflict_witness:
  "claim_step\<^sup>*\<^sup>* empty_claims forbids_a \<and> map (polarity \<circ> c_claim) (claims forbids_a) = [Positive, Negative] \<and>
   conflicts (detectPolarityConflicts Working ''f'' None None forbids_a) = []"
proof -
  have "map (polarity \<circ> c_claim) (claims forbids_a) = [Positive, Negative]"
    using arg_cong [OF forbids_a_claims, of "map (\<lambda>(_, _, _, p). p)"] by (simp add: comp_def)
  then show ?thesis using forbids_a_reachable extracted_claims_never_conflict [OF forbids_a_reachable] by simp
qed

lemma claims_isolated_witness:
  "norm_key (Some ''k'') \<noteq> norm_key None \<and>
   getByFragmentId Working ''f'' (Some ''k'') forbids_a = getByFragmentId Working ''f'' (Some ''k'') (add_fragment ''g'' uses_a)"
proof -
  obtain n db2 where d: "deleteByFragmentId NoPool ''f'' None forbids_a = Inr (n, db2)" "db2 = forbids_a"
    by (simp add: deleteByFragmentId_def)
  have "norm_key (Some ''k'') \<noteq> norm_key None" by simp
  from claims_isolated [OF this forbids_a_def d(1)] show ?thesis using d(2) by simp
qed

end
