(* ===== verification/Proactive.thy ===== *)
theory Proactive
  imports Claims Tenancy
begin

text \<open>
  Links to similar fragments after a \<open>remember\<close>: \<open>_proactiveRecall\<close> of
  \<open>lib/memory/write/RememberPostProcessor.js\<close> and its gate, \<open>lib/symbolic/rules/v1/proactive-gate.js\<close>,
  with the settings \<open>proactiveRecall\<close> of \<open>config/memory.js\<close> and \<open>config/symbolic.js\<close>.

  The candidates are what the search returns.  A fragment is the row of the database; the gate reads a field
  \<open>workspace_id\<close>, which no row has (the column is \<open>workspace\<close>), so \<open>gate_view\<close> leaves it undefined.
\<close>

section \<open>The gate\<close>

record gate_frag =
  g_id :: string
  g_case :: "string option"
  quarantine_state :: "string option"
  workspace_id :: "string option"
  g_session :: "string option"
  g_created :: "int option"

record proactive_cfg =
  mode :: string
  keywordOverlapMin :: "rat option"
  requireSameWorkspace :: bool
  caseIdPolicy :: "string option"
  adjacencyWindowMs :: "int option"

definition PROACTIVE_DEFAULTS :: proactive_cfg where
  "PROACTIVE_DEFAULTS = \<lparr>mode = ''auto'', keywordOverlapMin = Some (1 / 2), requireSameWorkspace = True,
     caseIdPolicy = Some ''strict-or-adjacent'', adjacencyWindowMs = Some (24 * 3600 * 1000)\<rparr>"

text \<open>Both present, not empty, and different; both present, not empty, and the same.\<close>

definition differ :: "string option \<Rightarrow> string option \<Rightarrow> bool" where
  "differ a b \<longleftrightarrow> truthy a \<and> truthy b \<and> a \<noteq> b"

definition agree :: "string option \<Rightarrow> string option \<Rightarrow> bool" where
  "agree a b \<longleftrightarrow> truthy a \<and> truthy b \<and> a = b"

definition case_policy :: "proactive_cfg \<Rightarrow> gate_frag \<Rightarrow> gate_frag \<Rightarrow> bool" where
  "case_policy cfg source target =
     (let policy = nullish_to (caseIdPolicy cfg) ''strict-or-adjacent'';
          window = nullish_to (adjacencyWindowMs cfg) 86400000
      in if policy = ''both-required'' then g_case source \<noteq> None \<and> g_case target \<noteq> None \<and> g_case source = g_case target
         else if policy = ''strict-or-adjacent'' \<and> (g_case source = None \<or> g_case target = None)
         then agree (g_session source) (g_session target) \<or>
              (case (g_created source, g_created target) of (Some a, Some b) \<Rightarrow> \<bar>a - b\<bar> \<le> window | _ \<Rightarrow> False) \<or>
              agree (workspace_id source) (workspace_id target)
         else True)"

definition evaluateProactiveGate ::
  "proactive_cfg option \<Rightarrow> (string \<Rightarrow> string option \<Rightarrow> detection) option \<Rightarrow> gate_frag \<Rightarrow> gate_frag option \<Rightarrow>
   string option \<Rightarrow> bool \<times> string" where
  "evaluateProactiveGate cfg detector source target keyId =
     (case target of
        None \<Rightarrow> (False, ''invalid_target'')
      | Some t \<Rightarrow>
          if g_id t = [] then (False, ''invalid_target'')
          else if truthy (quarantine_state t) \<and> quarantine_state t \<noteq> Some ''released'' then (False, ''quarantine'')
          else if differ (g_case source) (g_case t) then (False, ''cohort_mismatch'')
          else if (case cfg of None \<Rightarrow> False
                   | Some c \<Rightarrow> requireSameWorkspace c \<and> differ (workspace_id source) (workspace_id t))
          then (False, ''workspace_mismatch'')
          else if (case cfg of None \<Rightarrow> False | Some c \<Rightarrow> \<not> case_policy c source t) then (False, ''case_policy'')
          else if (case detector of None \<Rightarrow> False | Some d \<Rightarrow> conflicts (d (g_id t) keyId) \<noteq> [])
          then (False, ''polarity_conflict'')
          else (True, ''ok''))"

section \<open>The candidates\<close>

record memo =
  m_id :: string
  m_content :: ctext
  m_keywords :: "ctext list option"
  m_workspace :: "string option"
  m_case :: "string option"
  m_session :: "string option"
  m_created :: "int option"

definition gate_view :: "memo \<Rightarrow> gate_frag" where
  "gate_view m = \<lparr>g_id = m_id m, g_case = m_case m, quarantine_state = None, workspace_id = None,
     g_session = m_session m, g_created = m_created m\<rparr>"

text \<open>\<open>split\<close> at white space; the parts of at most one unit are dropped afterwards.\<close>

fun split_space :: "ctext \<Rightarrow> ctext list" where
  "split_space [] = [[]]"
| "split_space (c # cs) = (if unit_space c then [] # split_space cs
     else case split_space cs of [] \<Rightarrow> [[c]] | w # ws \<Rightarrow> (c # w) # ws)"

definition source_keywords :: "memo \<Rightarrow> ctext list" where
  "source_keywords m =
     (case m_keywords m of
        Some (k # ks) \<Rightarrow> k # ks
      | _ \<Rightarrow> take 8 (filter (\<lambda>w. 1 < length w) (split_space (m_content m))))"

definition overlap :: "ctext list \<Rightarrow> memo \<Rightarrow> rat" where
  "overlap keywords cand =
     (let new = remdups (map (map unit_lower) keywords);
          kws = map (map unit_lower) (case m_keywords cand of None \<Rightarrow> [] | Some ks \<Rightarrow> ks);
          shared = length (filter (\<lambda>k. k \<in> set new) kws)
      in of_nat shared / of_nat (max (max (length new) (length kws)) 1))"

definition enough :: "proactive_cfg \<Rightarrow> rat \<Rightarrow> bool" where
  "enough cfg r \<longleftrightarrow> (case keywordOverlapMin cfg of None \<Rightarrow> True | Some t \<Rightarrow> t \<le> r)"

text \<open>The ids that the new fragment is linked to; \<open>gated\<close> is \<open>enabled\<close> and \<open>proactiveGate\<close> of \<open>SYMBOLIC_CONFIG\<close>.\<close>

definition proactive_targets ::
  "proactive_cfg \<Rightarrow> bool \<Rightarrow> (string \<Rightarrow> string option \<Rightarrow> detection) \<Rightarrow> string option \<Rightarrow> memo \<Rightarrow> memo list option \<Rightarrow> string list" where
  "proactive_targets cfg gated detector keyId new search =
     (case search of
        None \<Rightarrow> []
      | Some candidates \<Rightarrow>
          let keywords = source_keywords new
          in if mode cfg = ''off'' \<or> keywords = [] then []
             else map m_id (filter (\<lambda>c. m_id c \<noteq> m_id new \<and> enough cfg (overlap keywords c) \<and>
                    (mode cfg = ''legacy'' \<or> \<not> gated \<or>
                     fst (evaluateProactiveGate (Some cfg) (Some detector) (gate_view new) (Some (gate_view c)) keyId)))
                    candidates))"

text \<open>\<open>createLink\<close> for each of them; a refused link is logged and skipped.\<close>

definition try_link :: "string \<Rightarrow> string \<Rightarrow> store \<Rightarrow> store" where
  "try_link i j s = (case store_link i j ''related'' 1 s of Inl _ \<Rightarrow> s | Inr s' \<Rightarrow> s')"

definition proactiveRecall ::
  "proactive_cfg \<Rightarrow> bool \<Rightarrow> (string \<Rightarrow> string option \<Rightarrow> detection) \<Rightarrow> string option \<Rightarrow> memo \<Rightarrow> memo list option \<Rightarrow>
   store \<Rightarrow> store" where
  "proactiveRecall cfg gated detector keyId new search s =
     fold (try_link (m_id new)) (proactive_targets cfg gated detector keyId new search) s"

section \<open>What the links rest on\<close>

lemma gate_allowed:
  "fst (evaluateProactiveGate (Some cfg) (Some d) source (Some t) keyId) \<longleftrightarrow>
     g_id t \<noteq> [] \<and> (truthy (quarantine_state t) \<longrightarrow> quarantine_state t = Some ''released'') \<and>
     \<not> differ (g_case source) (g_case t) \<and>
     (requireSameWorkspace cfg \<longrightarrow> \<not> differ (workspace_id source) (workspace_id t)) \<and> case_policy cfg source t \<and>
     conflicts (d (g_id t) keyId) = []"
  by (auto simp: evaluateProactiveGate_def)

lemma gate_view_simps [simp]:
  "g_id (gate_view m) = m_id m" "g_case (gate_view m) = m_case m" "quarantine_state (gate_view m) = None"
  "workspace_id (gate_view m) = None" "g_session (gate_view m) = m_session m" "g_created (gate_view m) = m_created m"
  by (simp_all add: gate_view_def)

lemma agree_None [simp]: "\<not> agree None b" "\<not> differ None b"
  by (simp_all add: agree_def differ_def)

text \<open>Two fragments are close when they share the session or were created within the window.\<close>

definition close_to :: "int \<Rightarrow> memo \<Rightarrow> memo \<Rightarrow> bool" where
  "close_to window a b \<longleftrightarrow> agree (m_session a) (m_session b) \<or>
     (\<exists>x y. m_created a = Some x \<and> m_created b = Some y \<and> \<bar>x - y\<bar> \<le> window)"

lemma case_policy_strict:
  "caseIdPolicy cfg = Some ''strict-or-adjacent'' \<Longrightarrow> adjacencyWindowMs cfg = Some w \<Longrightarrow>
   case_policy cfg (gate_view a) (gate_view b) \<longleftrightarrow> m_case a \<noteq> None \<and> m_case b \<noteq> None \<or> close_to w a b"
  by (auto simp: case_policy_def Let_def close_to_def split: option.split)

lemma proactive_targetsE:
  assumes "i \<in> set (proactive_targets cfg gated d keyId new search)"
  obtains cs c where "search = Some cs" "c \<in> set cs" "i = m_id c" "m_id c \<noteq> m_id new" "enough cfg (overlap (source_keywords new) c)"
    "mode cfg \<noteq> ''off''"
    "mode cfg = ''legacy'' \<or> \<not> gated \<or> fst (evaluateProactiveGate (Some cfg) (Some d) (gate_view new) (Some (gate_view c)) keyId)"
  using assms by (auto simp: proactive_targets_def Let_def split: option.splits if_splits)

lemma fold_try_link_ok: "store_ok sha s \<Longrightarrow> store_ok sha (fold (try_link i) js s)"
  by (induction js arbitrary: s) (auto simp: try_link_def store_link_ok split: sum.splits)

text \<open>
  With the gate on and the settings of the repository, every fragment that a new one is
  linked to is one of the candidates, another one, shares half of the keywords, is not in conflict, does not
  belong to another case, and is close in session or time unless both belong to the case.  The links
  keep the invariant of the fragment table.
\<close>

theorem proactive_links_justified:
  assumes "store_ok sha s"
    and "i \<in> set (proactive_targets PROACTIVE_DEFAULTS True d keyId new (Some candidates))"
  shows "store_ok sha (proactiveRecall PROACTIVE_DEFAULTS True d keyId new (Some candidates) s) \<and>
    (\<exists>c \<in> set candidates. i = m_id c \<and> i \<noteq> m_id new \<and> i \<noteq> [] \<and> 1 / 2 \<le> overlap (source_keywords new) c \<and>
       conflicts (d i keyId) = [] \<and> \<not> differ (m_case new) (m_case c) \<and>
       (m_case new \<noteq> None \<and> m_case c \<noteq> None \<or> close_to (24 * 3600 * 1000) new c))"
proof
  show "store_ok sha (proactiveRecall PROACTIVE_DEFAULTS True d keyId new (Some candidates) s)"
    unfolding proactiveRecall_def by (rule fold_try_link_ok [OF assms(1)])
  obtain c where c: "c \<in> set candidates" "i = m_id c" "m_id c \<noteq> m_id new"
      "enough PROACTIVE_DEFAULTS (overlap (source_keywords new) c)"
      "fst (evaluateProactiveGate (Some PROACTIVE_DEFAULTS) (Some d) (gate_view new) (Some (gate_view c)) keyId)"
    using proactive_targetsE [OF assms(2)] by (force simp: PROACTIVE_DEFAULTS_def)
  have "m_case new \<noteq> None \<and> m_case c \<noteq> None \<or> close_to (24 * 3600 * 1000) new c"
    using c(5) case_policy_strict [of PROACTIVE_DEFAULTS "24 * 3600 * 1000"]
    unfolding gate_allowed by (simp add: PROACTIVE_DEFAULTS_def)
  then show "\<exists>c \<in> set candidates. i = m_id c \<and> i \<noteq> m_id new \<and> i \<noteq> [] \<and> 1 / 2 \<le> overlap (source_keywords new) c \<and>
       conflicts (d i keyId) = [] \<and> \<not> differ (m_case new) (m_case c) \<and>
       (m_case new \<noteq> None \<and> m_case c \<noteq> None \<or> close_to (24 * 3600 * 1000) new c)"
    using c unfolding gate_allowed by (intro bexI [of _ c]) (simp_all add: enough_def PROACTIVE_DEFAULTS_def)
qed

section \<open>What they do not rest on\<close>

definition in_workspace :: "string option \<Rightarrow> memo \<Rightarrow> memo" where
  "in_workspace w m = m\<lparr>m_workspace := w\<rparr>"

lemma in_workspace_simps [simp]:
  "m_id (in_workspace w m) = m_id m" "gate_view (in_workspace w m) = gate_view m"
  "source_keywords (in_workspace w m) = source_keywords m" "overlap ks (in_workspace w m) = overlap ks m"
  by (auto simp: in_workspace_def gate_view_def source_keywords_def overlap_def split: option.split list.split)

lemma targets_any_workspace:
  "proactive_targets cfg gated d keyId (in_workspace w new) (Some (map (in_workspace v) cs)) =
   proactive_targets cfg gated d keyId new (Some cs)"
  by (simp add: proactive_targets_def Let_def filter_map comp_def)

text \<open>
  Workspaces separate nothing: for every setting, \<open>requireSameWorkspace\<close> included, moving the
  new fragment to one workspace and all candidates to another changes no link.  With the symbolic flags off, as
  they are by default, the mode \<open>auto\<close> makes the links of the mode \<open>legacy\<close>.
\<close>

theorem workspaces_not_separated:
  "proactiveRecall cfg gated d keyId (in_workspace w new) (Some (map (in_workspace v) cs)) s =
     proactiveRecall cfg gated d keyId new (Some cs) s \<and>
   proactiveRecall (cfg\<lparr>mode := ''auto''\<rparr>) False d keyId new search s =
     proactiveRecall (cfg\<lparr>mode := ''legacy''\<rparr>) False d keyId new search s"
  unfolding proactiveRecall_def
  by (simp add: targets_any_workspace, simp add: proactive_targets_def enough_def Let_def split: option.split)

section \<open>The detector behind the gate\<close>

text \<open>With the detector of theory \<open>Claims\<close> on a table that the server built, the gate never reports a conflict.\<close>

lemma gate_never_polarity:
  assumes "claim_step\<^sup>*\<^sup>* empty_claims db"
  shows "snd (evaluateProactiveGate cfg (Some (\<lambda>f k. detectPolarityConflicts p f k m db)) source target keyId) \<noteq> ''polarity_conflict''"
  using extracted_no_conflict [OF assms] by (simp add: evaluateProactiveGate_def split: option.split)

definition note_about :: "string \<Rightarrow> ctext list \<Rightarrow> string option \<Rightarrow> memo" where
  "note_about i ks w = \<lparr>m_id = i, m_content = [], m_keywords = Some ks, m_workspace = w, m_case = None,
     m_session = Some ''s1'', m_created = None\<rparr>"

abbreviation "gate_x \<equiv> note_about ''f1'' [[120], [121]] (Some ''w1'')"
abbreviation "gate_y \<equiv> note_about ''f2'' [[88]] (Some ''w2'')"

lemma gate_sample: "proactive_targets PROACTIVE_DEFAULTS True (\<lambda>f k. detectPolarityConflicts Working f k None empty_claims) None
     gate_x (Some [gate_y]) = [''f2'']"
  by code_simp

lemma proactive_links_justified_witness:
  "fst (evaluateProactiveGate (Some PROACTIVE_DEFAULTS) (Some (\<lambda>f k. detectPolarityConflicts Working f k None empty_claims))
     (gate_view gate_x) (Some (gate_view gate_y)) None) \<and>
   store_ok rev (proactiveRecall PROACTIVE_DEFAULTS True (\<lambda>f k. detectPolarityConflicts Working f k None empty_claims) None
     gate_x (Some [gate_y]) two_tenants)"
proof
  show "fst (evaluateProactiveGate (Some PROACTIVE_DEFAULTS) (Some (\<lambda>f k. detectPolarityConflicts Working f k None empty_claims))
     (gate_view gate_x) (Some (gate_view gate_y)) None)"
    by code_simp
  have "''f2'' \<in> set (proactive_targets PROACTIVE_DEFAULTS True (\<lambda>f k. detectPolarityConflicts Working f k None empty_claims) None
     gate_x (Some [gate_y]))"
    unfolding gate_sample by simp
  from proactive_links_justified [OF store_reach_ok [OF two_tenants_reach] this] show
    "store_ok rev (proactiveRecall PROACTIVE_DEFAULTS True (\<lambda>f k. detectPolarityConflicts Working f k None empty_claims) None
     gate_x (Some [gate_y]) two_tenants)" by blast
qed

end
