(* ===== verification/Lifecycle.thy ===== *)
theory Lifecycle
  imports Complex_Main Prelude
begin

text \<open>
  The life of a fragment: exponential decay, tiers, deletion, utility and feedback.  The statements of
  \<open>lib/memory/consolidate/FragmentGC.js\<close> and \<open>ConsolidatorGC.js\<close>, \<open>deleteExpired\<close> of
  \<open>lib/memory/write/FragmentWriter.js\<close>, the reference functions of \<open>consolidate/decay.js\<close> and
  \<open>feedbackFactor.js\<close>, and the cycle of \<open>MemoryConsolidator.js\<close> that runs them as stages.

  Scores are real numbers (the columns are 32-bit floats), times are seconds.  The content of a row is
  represented by the test of the one pattern that is read from it.  Where a query sorts or limits without
  fixing the order of equal rows, the model takes the order of the table.
\<close>

section \<open>Rows\<close>

record life =
  l_id :: string
  l_key :: "string option"
  l_topic :: string
  l_type :: "string option"
  l_resolved :: bool
  l_source :: "string option"
  l_importance :: real
  l_tier :: string
  l_anchor :: bool
  l_linked :: "string list"
  l_quality :: "bool option"
  l_valid :: bool
  l_created :: real
  l_accessed :: "real option"
  l_decayed :: "real option"
  l_ema :: "real option"
  l_access :: nat
  l_utility :: real

abbreviation "days n \<equiv> 86400 * n :: real"

text \<open>\<open>x < NOW() - interval\<close>; a missing time compares as unknown.\<close>

definition older :: "real \<Rightarrow> real \<Rightarrow> real option \<Rightarrow> bool" where
  "older now secs t \<longleftrightarrow> (case t of None \<Rightarrow> False | Some x \<Rightarrow> x < now - secs)"

definition unused :: "real \<Rightarrow> real \<Rightarrow> life \<Rightarrow> bool" where
  "unused now secs r \<longleftrightarrow> l_accessed r = None \<or> older now secs (l_accessed r)"

section \<open>The reference functions\<close>

definition HALF_LIFE_DAYS :: "(string \<times> real) list" where
  "HALF_LIFE_DAYS = [(''procedure'', 30), (''fact'', 60), (''decision'', 90), (''error'', 45),
     (''preference'', 120), (''relation'', 90), (''default'', 60)]"

definition half_life_days :: "string option \<Rightarrow> real" where
  "half_life_days ty = (case ty of None \<Rightarrow> 60 | Some t \<Rightarrow> nullish_to (map_of HALF_LIFE_DAYS t) 60)"

definition MIN_IMPORTANCE :: real where "MIN_IMPORTANCE = 5 / 100"

definition computeDecayedImportance :: "real \<Rightarrow> real \<Rightarrow> string option \<Rightarrow> bool \<Rightarrow> real" where
  "computeDecayedImportance initial delta_ms ty anchor =
     (if anchor then initial
      else max MIN_IMPORTANCE (initial * 2 powr (- (delta_ms / (half_life_days ty * 86400000)))))"

definition EMA_ALPHA :: real where "EMA_ALPHA = 3 / 10"

text \<open>Times in milliseconds; without a previous time the last update counts as one day ago.\<close>

definition updateEmaActivation :: "real option \<Rightarrow> real option \<Rightarrow> real \<Rightarrow> real" where
  "updateEmaActivation prevEma prevUpdatedAt now =
     (let prev = nullish_to prevEma 0;
          ref = nullish_to prevUpdatedAt (now - 86400000);
          deltaSec = max ((now - ref) / 1000) 1;
          newSample = deltaSec powr (- (1 / 2))
      in EMA_ALPHA * newSample + (1 - EMA_ALPHA) * prev)"

definition computeEmaRankBoost :: "real option \<Rightarrow> real" where
  "computeEmaRankBoost ema = 2 / 10 * (1 - exp (- max 0 (nullish_to ema 0)))"

definition computeUtilityScore :: "real \<Rightarrow> nat \<Rightarrow> real \<Rightarrow> real" where
  "computeUtilityScore imp accessCount ageDays =
     (imp * (1 + ln (max 1 (of_nat accessCount)))) / (max 1 (ageDays / 30)) powr (3 / 10)"

text \<open>The time since the last access is in days; \<open>0\<close> stands for a missing value as in the code.\<close>

definition computeAdaptiveImportance :: "real \<Rightarrow> nat \<Rightarrow> real option \<Rightarrow> string option \<Rightarrow> real" where
  "computeAdaptiveImportance imp accessCount sinceDays ty =
     (let base = (if imp = 0 then 1 / 2 else imp);
          d = nullish_to sinceDays 9999
      in max MIN_IMPORTANCE (min 1 (base * (1 + 1 / 10 * ln (of_nat accessCount + 1)) * 2 powr (- d / half_life_days ty))))"

definition computeDynamicHalfLife :: "string option \<Rightarrow> real option \<Rightarrow> real" where
  "computeDynamicHalfLife ty ema = half_life_days ty * min 2 (max 1 (1 + nullish_to ema 0 * (1 / 2)))"

section \<open>Decay\<close>

definition half_life_secs :: "string option \<Rightarrow> real" where
  "half_life_secs ty =
     (if ty = Some ''procedure'' then 2592000 else if ty = Some ''fact'' then 5184000
      else if ty = Some ''decision'' then 7776000 else if ty = Some ''error'' then 3888000
      else if ty = Some ''preference'' then 10368000 else if ty = Some ''relation'' then 7776000 else 5184000)"

definition decay_ref :: "life \<Rightarrow> real" where
  "decay_ref r = nullish_to (nullish (l_decayed r) (l_accessed r)) (l_created r)"

definition decay_row :: "real \<Rightarrow> life \<Rightarrow> life" where
  "decay_row now r =
     r\<lparr>l_importance := max (5 / 100) (l_importance r *
          2 powr (- (now - decay_ref r) / (half_life_secs (l_type r) * min 2 (max 1 (1 + nullish_to (l_ema r) 0 * (1 / 2)))))),
       l_decayed := Some now\<rparr>"

definition decayImportance :: "real \<Rightarrow> life list \<Rightarrow> life list" where
  "decayImportance now = map (\<lambda>r. if l_tier r \<noteq> ''permanent'' \<and> \<not> l_anchor r then decay_row now r else r)"

definition decayEmaActivation :: "real \<Rightarrow> life list \<Rightarrow> life list" where
  "decayEmaActivation now rs =
     map (\<lambda>r. if l_accessed r \<noteq> None \<and> \<not> older now (days 60) (l_accessed r) \<and> older now (days 30) (l_accessed r) \<and>
              1 / 100 < nullish_to (l_ema r) 0 \<and> \<not> l_anchor r
            then r\<lparr>l_ema := Some (nullish_to (l_ema r) 0 * (1 / 2))\<rparr> else r)
     (map (\<lambda>r. if unused now (days 60) r \<and> 0 < nullish_to (l_ema r) 0 \<and> \<not> l_anchor r then r\<lparr>l_ema := Some 0\<rparr> else r) rs)"

section \<open>Tiers\<close>

definition set_tier :: "string \<Rightarrow> (life \<Rightarrow> bool) \<Rightarrow> life list \<Rightarrow> life list" where
  "set_tier t P = map (\<lambda>r. if P r then r\<lparr>l_tier := t\<rparr> else r)"

definition verified_enough :: "life \<Rightarrow> bool" where
  "verified_enough r \<longleftrightarrow> 8 / 10 \<le> l_importance r \<and>
     (l_quality r = Some True \<or> l_quality r = None \<and> l_anchor r \<or> l_quality r = None \<and> 9 / 10 \<le> l_importance r)"

definition transitionTTL :: "real \<Rightarrow> life list \<Rightarrow> life list" where
  "transitionTTL now rs =
     (let rs1 = set_tier ''permanent'' (\<lambda>r. l_type r = Some ''preference'' \<and> l_tier r \<noteq> ''permanent'') rs;
          rs2 = set_tier ''permanent'' (\<lambda>r. 5 \<le> length (l_linked r) \<and> l_tier r \<noteq> ''permanent'') rs1;
          rs3 = set_tier ''permanent'' (\<lambda>r. l_tier r \<noteq> ''permanent'' \<and> verified_enough r) rs2;
          rs4 = set_tier ''cold'' (\<lambda>r. l_tier r = ''warm'' \<and>
                  (l_importance r < 3 / 10 \<or> (l_accessed r = None \<and> l_created r < now - days 30) \<or>
                   older now (days 30) (l_accessed r))) rs3
      in set_tier ''cold'' (\<lambda>r. l_tier r = ''permanent'' \<and> \<not> l_anchor r \<and> l_importance r < 1 / 2 \<and>
                  unused now (days 180) r) rs4)"

text \<open>\<open>_transitionWithCount\<close>: half of the changes of the tiers that still have a fragment, rounded down.\<close>

definition tier_count :: "string \<Rightarrow> life list \<Rightarrow> int" where
  "tier_count t rs = int (length (filter (\<lambda>r. l_tier r = t) rs))"

definition transitionWithCount :: "real \<Rightarrow> life list \<Rightarrow> int \<times> life list" where
  "transitionWithCount now rs =
     (let rs' = transitionTTL now rs
      in (sum_list (map (\<lambda>t. \<bar>tier_count t rs' - tier_count t rs\<bar>) (remdups (map l_tier rs'))) div 2, rs'))"

section \<open>Deletion\<close>

record gc_cfg =
  utilityThreshold :: real
  gracePeriodDays :: real
  inactiveDays :: real
  maxDeletePerCycle :: nat
  fd_importanceThreshold :: real
  fd_orphanAgeDays :: real
  er_maxAgeDays :: real
  er_maxImportance :: real
  sc_maxImportance :: real
  sc_orphanAgeDays :: real
  sc_tombstonedGraceDays :: real

definition GC_DEFAULTS :: gc_cfg where
  "GC_DEFAULTS = \<lparr>utilityThreshold = 15 / 100, gracePeriodDays = 7, inactiveDays = 60, maxDeletePerCycle = 50,
     fd_importanceThreshold = 2 / 10, fd_orphanAgeDays = 30, er_maxAgeDays = 30, er_maxImportance = 3 / 10,
     sc_maxImportance = 3 / 10, sc_orphanAgeDays = 30, sc_tombstonedGraceDays = 7\<rparr>"

text \<open>\<open>Number(x) || d\<close>\<close>

definition num_or :: "'a::zero \<Rightarrow> 'a \<Rightarrow> 'a" where
  "num_or x d = (if x = 0 then d else x)"

definition aged :: "real \<Rightarrow> real \<Rightarrow> life \<Rightarrow> bool" where
  "aged now d r \<longleftrightarrow> l_created r < now - days d"

definition expired :: "gc_cfg \<Rightarrow> real \<Rightarrow> (string \<times> string) list \<Rightarrow> life \<Rightarrow> bool" where
  "expired cfg now links r \<longleftrightarrow>
     l_tier r \<noteq> ''permanent'' \<and> \<not> l_anchor r \<and> aged now (num_or (gracePeriodDays cfg) 7) r \<and>
     ((l_utility r < num_or (utilityThreshold cfg) (15 / 100) \<and> unused now (days (num_or (inactiveDays cfg) 60)) r) \<or>
      ((l_type r = Some ''fact'' \<or> l_type r = Some ''decision'') \<and> l_importance r < num_or (fd_importanceThreshold cfg) (2 / 10) \<and>
       l_access r = 0 \<and> l_linked r = [] \<and> \<not> list_ex (\<lambda>(a, b). a = l_id r \<or> b = l_id r) links \<and>
       aged now (num_or (fd_orphanAgeDays cfg) 30) r) \<or>
      (l_importance r < 1 / 10 \<and> unused now (days 90) r \<and> aged now 90 r \<and> length (l_linked r) < 2) \<or>
      (l_type r = Some ''error'' \<and> l_resolved r \<and> aged now (num_or (er_maxAgeDays cfg) 30) r \<and>
       l_importance r < num_or (er_maxImportance cfg) (3 / 10)) \<or>
      (l_type r = None \<and> aged now (num_or (gracePeriodDays cfg) 7) r \<and> l_importance r < 2 / 10))"

text \<open>\<open>ORDER BY utility_score LIMIT\<close>, and the deletion, which removes the links of the deleted rows with them.\<close>

definition gc_victims :: "gc_cfg \<Rightarrow> (life \<Rightarrow> bool) \<Rightarrow> life list \<Rightarrow> life list" where
  "gc_victims cfg P rs = take (num_or (maxDeletePerCycle cfg) 50) (sort_key l_utility (filter P rs))"

definition delete_rows :: "life list \<Rightarrow> life list \<times> (string \<times> string) list \<Rightarrow> life list \<times> (string \<times> string) list" where
  "delete_rows ds db =
     (filter (\<lambda>r. l_id r \<notin> l_id ` set ds) (fst db),
      filter (\<lambda>(a, b). a \<notin> l_id ` set ds \<and> b \<notin> l_id ` set ds) (snd db))"

definition deleteExpired ::
  "gc_cfg \<Rightarrow> real \<Rightarrow> life list \<times> (string \<times> string) list \<Rightarrow> nat \<times> life list \<times> (string \<times> string) list" where
  "deleteExpired cfg now db =
     (let ds = gc_victims cfg (expired cfg now (snd db)) (fst db) in (length ds, delete_rows ds db))"

text \<open>The preview: how many rows of each type are below the threshold.\<close>

definition gc_preview :: "gc_cfg \<Rightarrow> life list \<Rightarrow> (string option \<times> nat) list" where
  "gc_preview cfg rs =
     (let low = filter (\<lambda>r. l_utility r < num_or (utilityThreshold cfg) (15 / 100) \<and> l_tier r \<noteq> ''permanent'' \<and> \<not> l_anchor r) rs
      in map (\<lambda>ty. (ty, length (filter (\<lambda>r. l_type r = ty) low))) (remdups (map l_type low)))"

text \<open>The version of \<open>FragmentGC.js\<close>, with the two rules for the children of a split.  \<open>FragmentStore\<close> calls the other one.\<close>

definition split_parent :: "string option \<Rightarrow> string option" where
  "split_parent src =
     (case src of None \<Rightarrow> None
      | Some s \<Rightarrow> if starts_with ''split:'' s then Some (takeWhile (\<lambda>c. c \<noteq> CHR '':'') (drop 6 s)) else None)"

definition expired_full :: "gc_cfg \<Rightarrow> real \<Rightarrow> (string \<times> string) list \<Rightarrow> life list \<Rightarrow> life \<Rightarrow> bool" where
  "expired_full cfg now links rs r \<longleftrightarrow>
     l_tier r \<noteq> ''permanent'' \<and> \<not> l_anchor r \<and> aged now (num_or (gracePeriodDays cfg) 7) r \<and>
     (expired cfg now links r \<or>
      (split_parent (l_source r) \<noteq> None \<and> l_importance r < num_or (sc_maxImportance cfg) (3 / 10) \<and> l_access r = 0 \<and>
       unused now (days (num_or (sc_orphanAgeDays cfg) 30)) r \<and> aged now (num_or (sc_orphanAgeDays cfg) 30) r) \<or>
      (case split_parent (l_source r) of None \<Rightarrow> False
       | Some p \<Rightarrow> aged now (num_or (sc_tombstonedGraceDays cfg) 7) r \<and> \<not> list_ex (\<lambda>q. l_id q = p \<and> l_valid q) rs))"

definition deleteExpired_full ::
  "gc_cfg \<Rightarrow> real \<Rightarrow> life list \<times> (string \<times> string) list \<Rightarrow> nat \<times> life list \<times> (string \<times> string) list" where
  "deleteExpired_full cfg now db =
     (let ds = gc_victims cfg (expired_full cfg now (snd db) (fst db)) (fst db) in (length ds, delete_rows ds db))"

text \<open>
  \<open>purgeStaleReflections\<close>: the rank of a row among the \<open>session_reflect\<close> rows of its type, by importance and
  age, ties in the order of the table; \<open>LIMIT\<close> takes any of the rows that qualify, here the first.
\<close>

record purge_cfg =
  keepPerType :: nat
  maxImportance :: real
  maxAgeDays :: real
  maxPurge :: nat

definition PURGE_DEFAULTS :: purge_cfg where
  "PURGE_DEFAULTS = \<lparr>keepPerType = 5, maxImportance = 55 / 100, maxAgeDays = 30, maxPurge = 30\<rparr>"

definition reflections :: "string option \<Rightarrow> life list \<Rightarrow> life list" where
  "reflections ty rs = sort_key (\<lambda>r. - l_importance r) (sort_key (\<lambda>r. - l_created r)
     (filter (\<lambda>r. l_topic r = ''session_reflect'' \<and> l_type r = ty) rs))"

definition kept_reflections :: "purge_cfg \<Rightarrow> life list \<Rightarrow> string option \<Rightarrow> string list" where
  "kept_reflections cfg rs ty = map l_id (take (num_or (keepPerType cfg) 5) (reflections ty rs))"

definition purgeable :: "purge_cfg \<Rightarrow> real \<Rightarrow> life list \<Rightarrow> life \<Rightarrow> bool" where
  "purgeable cfg now rs r \<longleftrightarrow>
     l_topic r = ''session_reflect'' \<and> l_id r \<notin> set (kept_reflections cfg rs (l_type r)) \<and>
     l_importance r < num_or (maxImportance cfg) (3 / 10) \<and> aged now (num_or (maxAgeDays cfg) 30) r \<and>
     \<not> l_anchor r \<and> l_tier r \<noteq> ''permanent''"

definition purgeStaleReflections ::
  "purge_cfg \<Rightarrow> real \<Rightarrow> life list \<times> (string \<times> string) list \<Rightarrow> nat \<times> life list \<times> (string \<times> string) list" where
  "purgeStaleReflections cfg now db =
     (let ds = take (num_or (maxPurge cfg) 30) (filter (purgeable cfg now (fst db)) (fst db))
      in (length ds, delete_rows ds db))"

section \<open>Utility, anchors, feedback\<close>

definition utility_now :: "real \<Rightarrow> life \<Rightarrow> real" where
  "utility_now now r =
     (l_importance r * (1 + ln (max (of_nat (l_access r)) 1))) / (max 1 ((now - l_created r) / 2592000)) powr (3 / 10)"

definition updateUtilityScores :: "real \<Rightarrow> life list \<Rightarrow> nat \<times> life list" where
  "updateUtilityScores now rs =
     (length (filter (\<lambda>r. l_utility r \<noteq> utility_now now r) rs),
      map (\<lambda>r. if l_utility r \<noteq> utility_now now r then r\<lparr>l_utility := utility_now now r\<rparr> else r) rs)"

definition promoteAnchors :: "life list \<Rightarrow> nat \<times> life list" where
  "promoteAnchors rs =
     (let P = (\<lambda>r. \<not> l_anchor r \<and> 10 \<le> l_access r \<and> 8 / 10 \<le> l_importance r)
      in (length (filter P rs), map (\<lambda>r. if P r then r\<lparr>l_anchor := True\<rparr> else r) rs))"

definition requeueHighEmaLowQuality :: "life list \<Rightarrow> string list" where
  "requeueHighEmaLowQuality rs =
     map l_id (take 20 (sort_key (\<lambda>r. - nullish_to (l_ema r) 0)
       (filter (\<lambda>r. 3 / 10 < nullish_to (l_ema r) 0 \<and> l_importance r < 4 / 10 \<and> l_quality r = None \<and>
                    l_tier r \<noteq> ''permanent'') rs)))"

definition feedbackFactor :: "bool \<Rightarrow> bool \<Rightarrow> real" where
  "feedbackFactor allRelevant allSufficient =
     (if \<not> allRelevant then 85 / 100 else if allSufficient then 11 / 10 else 95 / 100)"

record feedback =
  fb_session :: "string option"
  relevant :: bool
  sufficient :: bool
  fb_at :: real

text \<open>The sessions with at least two recent feedbacks, in the order of their first one.\<close>

definition recent_feedback :: "real \<Rightarrow> feedback list \<Rightarrow> feedback list" where
  "recent_feedback now fs = filter (\<lambda>f. fb_session f \<noteq> None \<and> now - days 7 < fb_at f) fs"

definition feedback_sessions :: "real \<Rightarrow> feedback list \<Rightarrow> (string \<times> real) list" where
  "feedback_sessions now fs =
     (let rec = recent_feedback now fs;
          of_session = (\<lambda>s. filter (\<lambda>f. fb_session f = Some s) rec)
      in map (\<lambda>s. (s, feedbackFactor (list_all relevant (of_session s)) (list_all sufficient (of_session s))))
           (filter (\<lambda>s. 2 \<le> length (of_session s)) (remdups (map (\<lambda>f. the (fb_session f)) rec))))"

definition scale :: "real \<Rightarrow> string \<Rightarrow> life list \<Rightarrow> life list" where
  "scale factor i = map (\<lambda>r. if l_id r = i \<and> \<not> l_anchor r
     then r\<lparr>l_importance := min 1 (max (5 / 100) (l_importance r * factor))\<rparr> else r)"

definition halve_stale :: "real \<Rightarrow> life list \<Rightarrow> life list" where
  "halve_stale now = map (\<lambda>r. if \<not> l_anchor r \<and> l_valid r \<and> l_access r = 0 \<and> l_created r < now - days 90
     then r\<lparr>l_importance := max (5 / 100) (l_importance r * (1 / 2))\<rparr> else r)"

text \<open>\<open>calibrateByFeedback\<close>; \<open>activity\<close> are the fragments that Redis remembers for a session, \<open>ready\<close> is Redis.\<close>

definition feedback_ids :: "(string \<Rightarrow> string list option) \<Rightarrow> real \<Rightarrow> feedback list \<Rightarrow> (string \<times> real) list" where
  "feedback_ids activity now fs =
     concat (map (\<lambda>(s, factor). map (\<lambda>i. (i, factor)) (take 20 (nullish_to (activity s) []))) (feedback_sessions now fs))"

definition calibrateByFeedback ::
  "bool \<Rightarrow> (string \<Rightarrow> string list option) \<Rightarrow> feedback list \<Rightarrow> real \<Rightarrow> life list \<Rightarrow> nat \<times> life list" where
  "calibrateByFeedback ready activity fs now rs =
     (if \<not> ready then (0, rs)
      else let ids = feedback_ids activity now fs;
               rs1 = fold (\<lambda>(i, factor). scale factor i) ids rs
           in (length ids + length (filter (\<lambda>r. \<not> l_anchor r \<and> l_valid r \<and> l_access r = 0 \<and> l_created r < now - days 90) rs1),
               halve_stale now rs1))"

section \<open>The cycle\<close>

text \<open>
  A stage returns how many rows it affected, or says that it is skipped, or throws; whatever it did to the
  database stays.  \<open>timedStage\<close> turns the result into a report and \<open>_executeStages\<close> runs the next stage
  in any case.
\<close>

datatype outcome = Affected nat | Skipped nat | Threw string

record report =
  r_name :: string
  r_affected :: nat
  r_status :: string

definition timedStage :: "string \<Rightarrow> outcome \<Rightarrow> report" where
  "timedStage name out =
     (case out of
        Affected n \<Rightarrow> \<lparr>r_name = name, r_affected = n, r_status = ''ok''\<rparr>
      | Skipped n \<Rightarrow> \<lparr>r_name = name, r_affected = n, r_status = ''skipped''\<rparr>
      | Threw e \<Rightarrow> \<lparr>r_name = name, r_affected = 0, r_status = ''error''\<rparr>)"

type_synonym 's stage = "string \<times> ('s \<Rightarrow> outcome \<times> 's)"

primrec executeStages :: "'s stage list \<Rightarrow> 's \<Rightarrow> report list \<times> 's" where
  "executeStages [] s = ([], s)"
| "executeStages (st # sts) s =
     (let (out, s1) = snd st s; (reps, s2) = executeStages sts s1 in (timedStage (fst st) out # reps, s2))"

record cycle_env =
  e_now :: real
  e_gc :: gc_cfg
  e_purge :: purge_cfg
  e_feedback :: "feedback list"
  e_activity :: "string \<Rightarrow> string list option"
  e_ready :: bool
  e_down :: "string list"

type_synonym cycle_db = "life list \<times> (string \<times> string) list"

text \<open>A stage that only rewrites rows; a stage whose statement the database refuses (\<open>e_down\<close>) changes nothing.\<close>

definition rows_stage :: "(life list \<Rightarrow> nat \<times> life list) \<Rightarrow> cycle_db \<Rightarrow> outcome \<times> cycle_db" where
  "rows_stage g db = (let (n, rs) = g (fst db) in (Affected n, (rs, snd db)))"

definition delete_stage :: "(cycle_db \<Rightarrow> nat \<times> cycle_db) \<Rightarrow> cycle_db \<Rightarrow> outcome \<times> cycle_db" where
  "delete_stage g db = (let (n, db') = g db in (Affected n, db'))"

definition may_fail :: "string list \<Rightarrow> 's stage \<Rightarrow> 's stage" where
  "may_fail down st = (fst st, \<lambda>s. if fst st \<in> set down then (Threw ''database'', s) else snd st s)"

definition lifecycle_stages :: "cycle_env \<Rightarrow> cycle_db stage list" where
  "lifecycle_stages env = map (may_fail (e_down env))
     [(''ttl_transition'', rows_stage (\<lambda>rs. map_prod nat id (transitionWithCount (e_now env) rs))),
      (''importance_decay'', rows_stage (\<lambda>rs. (1, decayImportance (e_now env) rs))),
      (''expired_delete'', delete_stage (deleteExpired (e_gc env) (e_now env))),
      (''gc_preview'', rows_stage (\<lambda>rs. (length (gc_preview (e_gc env) rs), rs))),
      (''utility_score_update'', rows_stage (updateUtilityScores (e_now env))),
      (''requeue_high_ema'', rows_stage (\<lambda>rs. (length (requeueHighEmaLowQuality rs), rs))),
      (''promote_anchors'', rows_stage promoteAnchors),
      (''feedback_calibration'', rows_stage (calibrateByFeedback (e_ready env) (e_activity env) (e_feedback env) (e_now env))),
      (''purge_stale_reflections'', delete_stage (purgeStaleReflections (e_purge env) (e_now env)))]"

section \<open>Decay in steps\<close>

lemma half_life_pos: "0 < half_life_secs ty" "0 < half_life_days ty"
  by (auto simp: half_life_secs_def half_life_days_def HALF_LIFE_DAYS_def split: option.split)

lemma half_life_units: "half_life_secs ty = half_life_days ty * 86400"
  by (auto simp: half_life_secs_def half_life_days_def HALF_LIFE_DAYS_def split: option.split)

lemma ema_factor_pos: "(1::real) \<le> min 2 (max 1 x)"
  by simp

lemma decay_rate_pos: "0 < half_life_secs ty * min 2 (max 1 (x :: real))"
  using half_life_pos(1) [of ty] by (intro mult_pos_pos) auto

lemma powr_le_one: "0 \<le> d \<Longrightarrow> 0 < h \<Longrightarrow> 2 powr (- d / h) \<le> (1 :: real)"
  using powr_mono [of "- d / h" 0 2] by simp

text \<open>The floor may be applied at every step or once at the end.\<close>

lemma floor_absorb: "0 \<le> m \<Longrightarrow> 0 < b \<Longrightarrow> b \<le> 1 \<Longrightarrow> max m (max m x * b) = max m (x * (b :: real))"
proof (cases "m \<le> x")
  case False
  assume "0 \<le> m" "0 < b" "b \<le> 1"
  have "m * b \<le> m" using \<open>0 \<le> m\<close> \<open>b \<le> 1\<close> by (simp add: mult_left_le)
  moreover have "x * b \<le> m * b" using False \<open>0 < b\<close> by simp
  ultimately have "max m x = m" "max m (m * b) = m" "max m (x * b) = m"
    using False by (simp_all add: max_def)
  then show ?thesis by (simp only:)
qed (simp add: max_def)

lemma decay_row_simps [simp]: "l_tier (decay_row t r) = l_tier r" "l_anchor (decay_row t r) = l_anchor r"
  by (simp_all add: decay_row_def)

lemma decay_row_twice:
  assumes "decay_ref r \<le> t1" "t1 \<le> t2"
  shows "decay_row t2 (decay_row t1 r) = decay_row t2 r"
proof -
  define h where "h = half_life_secs (l_type r) * min 2 (max 1 (1 + nullish_to (l_ema r) 0 * (1 / 2)))"
  have h: "0 < h" unfolding h_def by (rule decay_rate_pos)
  have "2 powr (- (t1 - decay_ref r) / h) * 2 powr (- (t2 - t1) / h) = 2 powr (- (t2 - decay_ref r) / h)"
    by (simp add: powr_add [symmetric] add_divide_distrib [symmetric])
  then have "max (5 / 100) (max (5 / 100) (l_importance r * 2 powr (- (t1 - decay_ref r) / h)) * 2 powr (- (t2 - t1) / h))
      = max (5 / 100) (l_importance r * 2 powr (- (t2 - decay_ref r) / h))"
    using powr_le_one [of "t2 - t1" h] assms(2) h by (subst floor_absorb) (auto simp: mult.assoc)
  then show ?thesis by (simp add: decay_row_def decay_ref_def h_def)
qed

text \<open>
  C33. Decaying twice is decaying once: the runs between two moments leave no trace, however
  many they are, as long as the clock does not go back behind a row.
\<close>

theorem decay_incremental:
  assumes "list_all (\<lambda>r. decay_ref r \<le> t1) rs" and "t1 \<le> t2"
  shows "decayImportance t2 (decayImportance t1 rs) = decayImportance t2 rs"
  using assms decay_row_twice by (simp add: decayImportance_def list_all_iff)

definition fresh_row :: "string \<Rightarrow> string \<Rightarrow> real \<Rightarrow> real \<Rightarrow> life" where
  "fresh_row i ty imp created = \<lparr>l_id = i, l_key = None, l_topic = ''t'', l_type = Some ty, l_resolved = False, l_source = None,
     l_importance = imp, l_tier = ''warm'', l_anchor = False, l_linked = [], l_quality = None, l_valid = True,
     l_created = created, l_accessed = None, l_decayed = None, l_ema = None, l_access = 0, l_utility = 1\<rparr>"

lemma decay_incremental_witness:
  "decayImportance (days 90) (decayImportance (days 30) [fresh_row ''a'' ''procedure'' (4 / 5) 0]) =
     decayImportance (days 90) [fresh_row ''a'' ''procedure'' (4 / 5) 0] \<and>
   map l_importance (decayImportance (days 30) [fresh_row ''a'' ''procedure'' (4 / 5) 0]) = [2 / 5]"
proof -
  have "2 powr - (1 :: real) = 1 / 2" by (simp add: powr_minus)
  then have "map l_importance (decayImportance (days 30) [fresh_row ''a'' ''procedure'' (4 / 5) 0]) = [2 / 5]"
    by (simp add: decayImportance_def decay_row_def decay_ref_def fresh_row_def half_life_secs_def)
  then show ?thesis
    using decay_incremental [of "days 30" "[fresh_row ''a'' ''procedure'' (4 / 5) 0]" "days 90"]
    by (simp add: decay_ref_def fresh_row_def)
qed

text \<open>
  The statement computes what the functions of \<open>decay.js\<close> say: the half life is the
  dynamic one, so that a row never ends below the reference value with the fixed half life, and equals it without
  activation.
\<close>

lemma decay_exponent:
  "(now - ref) / (half_life_secs ty * min 2 (max 1 (1 + nullish_to ema 0 * (1 / 2)))) =
   1000 * (now - ref) / (computeDynamicHalfLife ty ema * 86400000)"
proof -
  have units: "0 < f \<Longrightarrow> 0 < d \<Longrightarrow> x / (d * 86400 * f) = 1000 * x / (d * f * 86400000)" for x d f :: real
    by (simp add: field_simps)
  show ?thesis
    unfolding half_life_units computeDynamicHalfLife_def by (rule units [OF _ half_life_pos(2)]) simp
qed

lemma dynamic_half_life: "half_life_days ty \<le> computeDynamicHalfLife ty ema"
  using half_life_pos(2) [of ty] by (simp add: computeDynamicHalfLife_def)

theorem decay_matches_reference:
  assumes "0 \<le> l_importance r" and "decay_ref r \<le> now"
  shows "l_importance (decay_row now r) = max MIN_IMPORTANCE (l_importance r *
        2 powr (- (1000 * (now - decay_ref r) / (computeDynamicHalfLife (l_type r) (l_ema r) * 86400000)))) \<and>
    computeDecayedImportance (l_importance r) (1000 * (now - decay_ref r)) (l_type r) False \<le> l_importance (decay_row now r) \<and>
    (nullish_to (l_ema r) 0 \<le> 0 \<longrightarrow>
      l_importance (decay_row now r) = computeDecayedImportance (l_importance r) (1000 * (now - decay_ref r)) (l_type r) False)"
proof -
  let ?ms = "1000 * (now - decay_ref r)" and ?dyn = "computeDynamicHalfLife (l_type r) (l_ema r)"
  have eq: "l_importance (decay_row now r) = max MIN_IMPORTANCE (l_importance r * 2 powr (- (?ms / (?dyn * 86400000))))"
    unfolding decay_row_def MIN_IMPORTANCE_def
    by (simp only: minus_divide_left [symmetric] decay_exponent) simp
  have "?ms / (?dyn * 86400000) \<le> ?ms / (half_life_days (l_type r) * 86400000)"
    using dynamic_half_life half_life_pos(2) assms(2) by (intro divide_left_mono mult_right_mono mult_pos_pos) (auto intro: less_le_trans)
  then have "2 powr (- (?ms / (half_life_days (l_type r) * 86400000))) \<le> 2 powr (- (?ms / (?dyn * 86400000)))"
    by simp
  from mult_left_mono [OF this assms(1)]
  have "computeDecayedImportance (l_importance r) ?ms (l_type r) False \<le> l_importance (decay_row now r)"
    unfolding eq by (simp add: computeDecayedImportance_def max.coboundedI2)
  moreover have "?dyn = half_life_days (l_type r)" if "nullish_to (l_ema r) 0 \<le> 0"
    using that by (simp add: computeDynamicHalfLife_def)
  ultimately show ?thesis unfolding eq by (simp add: computeDecayedImportance_def)
qed

lemma decay_matches_reference_witness:
  "l_importance (decay_row (days 30) (fresh_row ''a'' ''procedure'' (4 / 5) 0)) =
     computeDecayedImportance (4 / 5) 2592000000 (Some ''procedure'') False"
  using decay_matches_reference [of "fresh_row ''a'' ''procedure'' (4 / 5) 0" "days 30"]
  by (simp add: decay_ref_def fresh_row_def)

section \<open>Scores stay in range\<close>

lemma powr_half_le_one: "(1 :: real) \<le> d \<Longrightarrow> 0 < d powr (- (1 / 2)) \<and> d powr (- (1 / 2)) \<le> 1"
  using powr_mono [of "- (1 / 2)" 0 d] by simp

text \<open>
  The importance after decay, feedback or the adaptive formula lies between the floor and
  1, the boost of the ranking is below one fifth, and one access moves the activation to a value between 0 and
  the larger of 1 and the old one.
\<close>

theorem scores_in_range:
  assumes "l_importance r \<le> 1" and "decay_ref r \<le> now" and "0 \<le> l_importance r" and "0 \<le> nullish_to prev 0"
  shows "5 / 100 \<le> l_importance (decay_row now r) \<and> l_importance (decay_row now r) \<le> 1 \<and>
    5 / 100 \<le> computeAdaptiveImportance imp n since ty \<and> computeAdaptiveImportance imp n since ty \<le> 1 \<and>
    0 \<le> computeEmaRankBoost ema \<and> computeEmaRankBoost ema < 2 / 10 \<and>
    0 \<le> updateEmaActivation prev before t \<and> updateEmaActivation prev before t \<le> max 1 (nullish_to prev 0)"
proof -
  have "l_importance r * 2 powr (- (now - decay_ref r) / (half_life_secs (l_type r) * min 2 (max 1 (1 + nullish_to (l_ema r) 0 * (1 / 2))))) \<le> 1 * 1"
    using powr_le_one [of "now - decay_ref r"] decay_rate_pos assms by (intro mult_mono) auto
  then have d: "5 / 100 \<le> l_importance (decay_row now r) \<and> l_importance (decay_row now r) \<le> 1"
    by (simp add: decay_row_def)
  define s where "s = max ((t - nullish_to before (t - 86400000)) / 1000) 1 powr (- (1 / 2))"
  have s: "0 < s" "s \<le> 1" unfolding s_def by (auto intro: powr_half_le_one [THEN conjunct1] powr_half_le_one [THEN conjunct2])
  have u: "updateEmaActivation prev before t = 3 / 10 * s + 7 / 10 * nullish_to prev 0"
    by (simp add: updateEmaActivation_def EMA_ALPHA_def s_def Let_def)
  have "3 / 10 * s + 7 / 10 * nullish_to prev 0 \<le> max 1 (nullish_to prev 0)" using s(2) by (simp add: max_def)
  moreover have "0 \<le> 3 / 10 * s + 7 / 10 * nullish_to prev 0" using s(1) assms(4) by simp
  ultimately show ?thesis
    using d by (simp add: u computeAdaptiveImportance_def MIN_IMPORTANCE_def Let_def computeEmaRankBoost_def)
qed

lemma scores_in_range_witness:
  "5 / 100 \<le> l_importance (decay_row (days 30) (fresh_row ''a'' ''fact'' (4 / 5) 0)) \<and> computeEmaRankBoost (Some 3) < 2 / 10"
  using scores_in_range [of "fresh_row ''a'' ''fact'' (4 / 5) 0" "days 30" None 1 0 None None "Some 3" None 0]
  by (simp add: decay_ref_def fresh_row_def)

section \<open>Tiers in one step\<close>

definition made_permanent :: "life \<Rightarrow> bool" where
  "made_permanent r \<longleftrightarrow> l_tier r = ''permanent'' \<or> l_type r = Some ''preference'' \<or> 5 \<le> length (l_linked r) \<or> verified_enough r"

definition final_tier :: "real \<Rightarrow> life \<Rightarrow> string" where
  "final_tier now r =
     (if made_permanent r
      then if \<not> l_anchor r \<and> l_importance r < 1 / 2 \<and> unused now (days 180) r then ''cold'' else ''permanent''
      else if l_tier r = ''warm'' \<and> (l_importance r < 3 / 10 \<or> (l_accessed r = None \<and> l_created r < now - days 30) \<or>
                                    older now (days 30) (l_accessed r))
      then ''cold'' else l_tier r)"

lemma tier_read [simp]:
  "verified_enough (r\<lparr>l_tier := t\<rparr>) = verified_enough r" "unused now x (r\<lparr>l_tier := t\<rparr>) = unused now x r"
  by (simp_all add: verified_enough_def unused_def)

lemma transitionTTL_map: "transitionTTL now rs = map (\<lambda>r. r\<lparr>l_tier := final_tier now r\<rparr>) rs"
proof (induction rs)
  case (Cons r rs)
  have same: "r\<lparr>l_tier := l_tier r\<rparr> = r" by simp
  have "transitionTTL now [r] = [r\<lparr>l_tier := final_tier now r\<rparr>]"
    by (cases "l_tier r = ''permanent''"; cases "l_type r = Some ''preference''"; cases "5 \<le> length (l_linked r)";
        cases "verified_enough r")
      (simp_all add: transitionTTL_def set_tier_def final_tier_def made_permanent_def)
  moreover have "transitionTTL now (r # rs) = transitionTTL now [r] @ transitionTTL now rs"
    by (simp add: transitionTTL_def set_tier_def)
  ultimately show ?case using Cons by simp
qed (simp add: transitionTTL_def set_tier_def)

text \<open>
  The five statements of \<open>transitionTTL\<close> act on every row like one rule, \<open>final_tier\<close>, and
  running them again changes nothing.  The rule has no grace period for fragments that were never accessed: one that
  has just become permanent is cold at the end when its importance is below one half.
\<close>

theorem ttl_transition_exact:
  "transitionTTL now rs = map (\<lambda>r. r\<lparr>l_tier := final_tier now r\<rparr>) rs \<and>
   transitionTTL now (transitionTTL now rs) = transitionTTL now rs"
proof -
  have "final_tier now (r\<lparr>l_tier := final_tier now r\<rparr>) = final_tier now r" for r
    by (cases "made_permanent r") (auto simp: final_tier_def made_permanent_def)
  then show ?thesis by (simp add: transitionTTL_map)
qed

lemma young_preference_cold:
  "l_type r = Some ''preference'' \<Longrightarrow> l_accessed r = None \<Longrightarrow> l_importance r < 1 / 2 \<Longrightarrow> \<not> l_anchor r \<Longrightarrow>
     final_tier now r = ''cold''"
  by (simp add: final_tier_def made_permanent_def unused_def)

text \<open>All three fragments move, and the count reports one: the tier they left is empty and is not counted.\<close>

lemma transition_undercount:
  "fst (transitionWithCount (days 60) [fresh_row ''a'' ''fact'' (2 / 5) 0, fresh_row ''b'' ''fact'' (2 / 5) 0,
     fresh_row ''c'' ''fact'' (2 / 5) 0]) = 1"
  by (simp add: transitionWithCount_def transitionTTL_map final_tier_def made_permanent_def verified_enough_def
      tier_count_def fresh_row_def Let_def)

section \<open>Deletion is bounded\<close>

lemma gc_victims_mem: "d \<in> set (gc_victims cfg P rs) \<Longrightarrow> d \<in> set rs \<and> P d"
  by (auto simp: gc_victims_def dest: in_set_takeD)

lemma distinct_map_eq: "distinct (map g xs) \<Longrightarrow> x \<in> set xs \<Longrightarrow> y \<in> set xs \<Longrightarrow> g x = g y \<Longrightarrow> x = y"
  by (simp add: distinct_map inj_on_def)

lemma gc_victims_least:
  assumes "d \<in> set (gc_victims cfg P rs)" "r \<in> set rs" "P r" "r \<notin> set (gc_victims cfg P rs)"
  shows "l_utility d \<le> l_utility r"
proof -
  let ?s = "sort_key l_utility (filter P rs)" and ?n = "num_or (maxDeletePerCycle cfg) 50"
  have "sorted (map l_utility (take ?n ?s @ drop ?n ?s))" by simp
  then have le: "x \<in> set (take ?n ?s) \<Longrightarrow> y \<in> set (drop ?n ?s) \<Longrightarrow> l_utility x \<le> l_utility y" for x y
    unfolding map_append sorted_append by simp
  have "r \<in> set ?s" using assms(2,3) by simp
  then have "r \<in> set (drop ?n ?s)"
    using assms(4) unfolding gc_victims_def by (metis Un_iff append_take_drop_id set_append)
  then show ?thesis using assms(1) le unfolding gc_victims_def by blast
qed



text \<open>
  The rules for the children of a split are only in the version that nothing calls: a child whose parent is
  superseded is a candidate there and never one of \<open>deleteExpired\<close>.
\<close>

lemma split_rules_unused:
  defines "child \<equiv> (fresh_row ''c'' ''fact'' (5 / 10) 0)\<lparr>l_source := Some ''split:p''\<rparr>"
  shows "expired_full GC_DEFAULTS (days 20) [] [child] child \<and> deleteExpired GC_DEFAULTS (days 20) ([child], []) = (0, [child], [])"
  by (simp add: child_def expired_full_def split_parent_def deleteExpired_def gc_victims_def delete_rows_def expired_def
      unused_def aged_def num_or_def GC_DEFAULTS_def fresh_row_def Let_def)

section \<open>Feedback counts again in every cycle\<close>

definition run_calibrations ::
  "(string \<Rightarrow> string list option) \<Rightarrow> feedback list \<Rightarrow> real list \<Rightarrow> life list \<Rightarrow> life list" where
  "run_calibrations activity fs ts rs = fold (\<lambda>t rs. snd (calibrateByFeedback True activity fs t rs)) ts rs"

lemma calibrate_row:
  assumes "feedback_ids activity t fs = [(i, factor)]" and "r \<in> set rs" "l_id r = i" "\<not> l_anchor r" "0 < l_access r"
  shows "r\<lparr>l_importance := min 1 (max (5 / 100) (l_importance r * factor))\<rparr> \<in>
    set (snd (calibrateByFeedback True activity fs t rs))"
  using assms(2-) by (force simp: calibrateByFeedback_def assms(1) scale_def halve_stale_def Let_def)

lemma clamp_step: "5 / 100 \<le> x \<Longrightarrow> min 1 (max (5 / 100) (min 1 (x * (11 / 10) ^ n) * (11 / 10))) = min 1 (x * (11 / 10 :: real) ^ Suc n)"
proof (cases "x * (11 / 10) ^ n \<le> 1")
  case True
  assume x: "5 / 100 \<le> x"
  have "(1 :: real) \<le> (11 / 10) ^ n" by simp
  with x have "5 / 100 * 1 \<le> x * (11 / 10) ^ n" by (intro mult_mono) auto
  with True show ?thesis by (simp add: max_def)
next
  case False
  then have "1 \<le> x * (11 / 10) ^ Suc n" by simp
  with False show ?thesis by simp
qed

text \<open>
  A feedback is not used up: while it is younger than seven days every cycle applies it again.
  With one fragment in a session of positive feedback, \<open>n\<close> runs multiply the importance of the fragment by
  1.1 to the power \<open>n\<close>, up to 1.
\<close>

theorem feedback_compounds:
  assumes "list_all (\<lambda>t. feedback_ids activity t fs = [(i, 11 / 10)]) ts"
    and "r \<in> set rs" "l_id r = i" "\<not> l_anchor r" "0 < l_access r" "5 / 100 \<le> l_importance r" "l_importance r \<le> 1"
  shows "r\<lparr>l_importance := min 1 (l_importance r * (11 / 10) ^ length ts)\<rparr> \<in> set (run_calibrations activity fs ts rs)"
  using assms(1)
proof (induction ts rule: rev_induct)
  case Nil
  then show ?case using assms(2,7) by (simp add: run_calibrations_def)
next
  case (snoc t ts)
  let ?q = "r\<lparr>l_importance := min 1 (l_importance r * (11 / 10) ^ length ts)\<rparr>"
  have q: "?q \<in> set (run_calibrations activity fs ts rs)" using snoc by simp
  have "feedback_ids activity t fs = [(i, 11 / 10)]" using snoc.prems by simp
  from calibrate_row [OF this q] assms(3-5)
  have mem: "?q\<lparr>l_importance := min 1 (max (5 / 100) (l_importance ?q * (11 / 10)))\<rparr> \<in>
      set (run_calibrations activity fs (ts @ [t]) rs)"
    by (simp add: run_calibrations_def)
  have imp: "l_importance ?q = min 1 (l_importance r * (11 / 10) ^ length ts)" by simp
  have twice: "?q\<lparr>l_importance := v\<rparr> = r\<lparr>l_importance := v\<rparr>" for v by simp
  show ?case using mem unfolding imp clamp_step [OF assms(6)] twice by (simp only: length_append_singleton)
qed

definition two_votes :: "feedback list" where
  "two_votes = [\<lparr>fb_session = Some ''s'', relevant = True, sufficient = True, fb_at = 0\<rparr>,
     \<lparr>fb_session = Some ''s'', relevant = True, sufficient = True, fb_at = 1\<rparr>]"

lemma two_votes_ids:
  "t < days 7 \<Longrightarrow> feedback_ids (\<lambda>s. Some [''a'']) t two_votes = [(''a'', 11 / 10)]"
  by (simp add: feedback_ids_def feedback_sessions_def recent_feedback_def two_votes_def feedbackFactor_def Let_def)

text \<open>Four cycles within a day raise 0.5 to 0.73 on two votes.\<close>

lemma feedback_compounds_witness:
  "(fresh_row ''a'' ''fact'' (1 / 2) 0)\<lparr>l_access := 1, l_importance := 14641 / 20000\<rparr> \<in>
   set (run_calibrations (\<lambda>s. Some [''a'']) two_votes [0, 21600, 43200, 64800] [(fresh_row ''a'' ''fact'' (1 / 2) 0)\<lparr>l_access := 1\<rparr>])"
proof -
  let ?r = "(fresh_row ''a'' ''fact'' (1 / 2) 0)\<lparr>l_access := 1\<rparr>"
  have "list_all (\<lambda>t. feedback_ids (\<lambda>s. Some [''a'']) t two_votes = [(''a'', 11 / 10)]) [0, 21600, 43200, 64800]"
    by (simp add: two_votes_ids)
  from feedback_compounds [OF this, of ?r "[?r]"] show ?thesis by (simp add: fresh_row_def power4_eq_xxxx)
qed

section \<open>What every stage keeps, the cycle keeps\<close>

lemma timedStage_name [simp]: "r_name (timedStage n out) = n"
  by (simp add: timedStage_def split: outcome.split)

lemma executeStages_names: "map r_name (fst (executeStages sts s)) = map fst sts"
  by (induction sts arbitrary: s) (simp_all add: Let_def split_beta)

locale stage_invariant =
  fixes P :: "'s \<Rightarrow> bool" and stages :: "'s stage list"
  assumes stage_keeps: "st \<in> set stages \<Longrightarrow> P s \<Longrightarrow> P (snd (snd st s))"
begin

lemma keeps_part: "set sts \<subseteq> set stages \<Longrightarrow> P s \<Longrightarrow> P (snd (executeStages sts s))"
  by (induction sts arbitrary: s) (auto simp: Let_def split_beta stage_keeps)

lemma cycle_keeps: "P s \<Longrightarrow> P (snd (executeStages stages s))"
  by (rule keeps_part) auto

end

text \<open>The anchor \<open>a\<close> is in the table, with its importance.\<close>

definition anchored :: "life \<Rightarrow> cycle_db \<Rightarrow> bool" where
  "anchored a db \<longleftrightarrow> distinct (map l_id (fst db)) \<and>
     (\<exists>r \<in> set (fst db). l_id r = l_id a \<and> l_anchor r \<and> l_importance r = l_importance a)"

text \<open>A function on rows that keeps the ids and, on anchors, the mark and the importance.\<close>

definition gentle :: "(life list \<Rightarrow> life list) \<Rightarrow> bool" where
  "gentle g \<longleftrightarrow> (\<forall>rs. map l_id (g rs) = map l_id rs \<and>
     (\<forall>r \<in> set rs. l_anchor r \<longrightarrow> (\<exists>q \<in> set (g rs). l_id q = l_id r \<and> l_anchor q \<and> l_importance q = l_importance r)))"

lemma gentle_map:
  "(\<And>r. l_id (h r) = l_id r) \<Longrightarrow> (\<And>r. l_anchor r \<Longrightarrow> l_anchor (h r) \<and> l_importance (h r) = l_importance r) \<Longrightarrow> gentle (map h)"
  by (force simp: gentle_def)

lemma gentle_comp: "gentle g \<Longrightarrow> gentle h \<Longrightarrow> gentle (\<lambda>rs. h (g rs))"
  unfolding gentle_def by metis

lemma gentle_id: "gentle (\<lambda>rs. rs)"
  by (auto simp: gentle_def)

lemma gentle_fold: "(\<And>x. gentle (g x)) \<Longrightarrow> gentle (fold g xs)"
proof (induction xs)
  case Nil
  then show ?case by (simp add: gentle_id id_def)
next
  case (Cons x xs)
  then show ?case using gentle_comp [of "g x" "fold g xs"] by (simp add: comp_def)
qed

lemma anchored_gentle: "gentle g \<Longrightarrow> anchored a (rs, ls) \<Longrightarrow> anchored a (g rs, ls')"
  unfolding gentle_def anchored_def by (metis fst_conv)

lemma gentle_transition: "gentle (transitionTTL now)"
  unfolding transitionTTL_map [abs_def] by (rule gentle_map) auto

lemma gentle_decay: "gentle (decayImportance now)"
  unfolding decayImportance_def by (rule gentle_map) (auto simp: decay_row_def)

lemma gentle_utility: "gentle (\<lambda>rs. snd (updateUtilityScores now rs))"
  unfolding updateUtilityScores_def snd_conv by (rule gentle_map) auto

lemma gentle_promote: "gentle (\<lambda>rs. snd (promoteAnchors rs))"
  unfolding promoteAnchors_def snd_conv Let_def by (rule gentle_map) auto

lemma gentle_scale: "gentle (scale f i)"
  unfolding scale_def by (rule gentle_map) auto

lemma gentle_halve: "gentle (halve_stale now)"
  unfolding halve_stale_def by (rule gentle_map) auto

lemma gentle_calibrate: "gentle (\<lambda>rs. snd (calibrateByFeedback ready activity fs now rs))"
proof (cases ready)
  case True
  have "gentle (fold (\<lambda>(i, f). scale f i) (feedback_ids activity now fs))"
    by (rule gentle_fold) (simp add: gentle_scale split_beta)
  from gentle_comp [OF this gentle_halve [of now]] show ?thesis
    using True by (simp add: calibrateByFeedback_def Let_def)
qed (simp add: calibrateByFeedback_def gentle_id)

lemma anchored_delete:
  assumes "anchored a db" and "\<And>d. d \<in> set ds \<Longrightarrow> d \<in> set (fst db) \<and> \<not> l_anchor d"
  shows "anchored a (delete_rows ds db)"
proof -
  obtain r where r: "r \<in> set (fst db)" "l_id r = l_id a" "l_anchor r" "l_importance r = l_importance a"
    and dist: "distinct (map l_id (fst db))"
    using assms(1) by (auto simp: anchored_def)
  have "l_id r \<notin> l_id ` set ds"
    using assms(2) r(1,3) distinct_map_eq [OF dist] by (metis imageE)
  then have "r \<in> set (fst (delete_rows ds db))" using r(1) by (simp add: delete_rows_def)
  moreover have "distinct (map l_id (fst (delete_rows ds db)))"
    using dist by (simp add: delete_rows_def distinct_map_filter)
  ultimately show ?thesis using r(2-4) unfolding anchored_def by blast
qed

lemma anchored_rows_stage:
  "gentle (\<lambda>rs. snd (g rs)) \<Longrightarrow> anchored a db \<Longrightarrow> anchored a (snd (rows_stage g db))"
  using anchored_gentle [of "\<lambda>rs. snd (g rs)" a "fst db" "snd db"] by (simp add: rows_stage_def split_beta)

lemma anchored_expired: "anchored a db \<Longrightarrow> anchored a (snd (deleteExpired cfg now db))"
  unfolding deleteExpired_def Let_def snd_conv
  by (rule anchored_delete) (auto dest: gc_victims_mem simp: expired_def)

lemma anchored_purge: "anchored a db \<Longrightarrow> anchored a (snd (purgeStaleReflections cfg now db))"
  unfolding purgeStaleReflections_def Let_def snd_conv
  by (rule anchored_delete) (auto dest: in_set_takeD simp: purgeable_def)

lemma anchored_stage:
  assumes "st \<in> set (lifecycle_stages env)" "anchored a db"
  shows "anchored a (snd (snd st db))"
proof -
  obtain st0 where st: "st = may_fail (e_down env) st0" "st0 \<in> set (lifecycle_stages (env\<lparr>e_down := []\<rparr>))"
    using assms(1) by (auto simp: lifecycle_stages_def may_fail_def)
  have "anchored a (snd (snd st0 db))"
    using st(2) assms(2)
    by (auto simp: lifecycle_stages_def may_fail_def delete_stage_def split_beta anchored_expired anchored_purge
        transitionWithCount_def Let_def gentle_transition gentle_decay gentle_utility gentle_promote gentle_calibrate gentle_id
        intro!: anchored_rows_stage)
  then show ?thesis using assms(2) by (simp add: st(1) may_fail_def)
qed

interpretation anchor_cycle: stage_invariant "anchored a" "lifecycle_stages env" for a env
  by unfold_locales (rule anchored_stage)

definition run_cycles :: "cycle_env list \<Rightarrow> cycle_db \<Rightarrow> cycle_db" where
  "run_cycles envs db = fold (\<lambda>env db. snd (executeStages (lifecycle_stages env) db)) envs db"

lemma anchored_cycles: "anchored a db \<Longrightarrow> anchored a (run_cycles envs db)"
  unfolding run_cycles_def by (induction envs arbitrary: db) (simp_all add: anchor_cycle.cycle_keeps)


definition calm_env :: "real \<Rightarrow> cycle_env" where
  "calm_env now = \<lparr>e_now = now, e_gc = GC_DEFAULTS, e_purge = PURGE_DEFAULTS, e_feedback = two_votes,
     e_activity = (\<lambda>s. Some [''a'']), e_ready = True, e_down = [''expired_delete'']\<rparr>"

definition old_anchor :: life where
  "old_anchor = (fresh_row ''a'' ''fact'' (5 / 100) 0)\<lparr>l_anchor := True\<rparr>"


section \<open>Utility\<close>

text \<open>The statement computes \<open>computeUtilityScore\<close>, and a second run at the same moment finds nothing to update.\<close>

lemma utility_reference: "utility_now now r = computeUtilityScore (l_importance r) (l_access r) ((now - l_created r) / 86400)"
  by (simp add: utility_now_def computeUtilityScore_def max.commute)

lemma utility_settled: "\<forall>q \<in> set rs. l_utility q = utility_now now q \<Longrightarrow> updateUtilityScores now rs = (0, rs)"
  by (simp add: updateUtilityScores_def map_idI filter_empty_conv)

lemma utility_idempotent: "updateUtilityScores now (snd (updateUtilityScores now rs)) = (0, snd (updateUtilityScores now rs))"
proof (rule utility_settled)
  have "utility_now now (r\<lparr>l_utility := u\<rparr>) = utility_now now r" for r u by (simp add: utility_now_def)
  then show "\<forall>q \<in> set (snd (updateUtilityScores now rs)). l_utility q = utility_now now q"
    unfolding updateUtilityScores_def by auto
qed

section \<open>Reflections\<close>

text \<open>What ranks first in its type is kept.  The ranking does not look at the key: the rows of all tenants share the five places.\<close>

lemma purge_keeps_best:
  "r \<in> set (fst db) \<Longrightarrow> l_topic r = ''session_reflect'' \<Longrightarrow> distinct (map l_id (fst db)) \<Longrightarrow>
   l_id r \<in> set (kept_reflections cfg (fst db) (l_type r)) \<Longrightarrow> r \<in> set (fst (snd (purgeStaleReflections cfg now db)))"
  by (auto simp: purgeStaleReflections_def Let_def delete_rows_def purgeable_def dest!: in_set_takeD dest: distinct_map_eq)

text \<open>
  Utility scores are those of \<open>computeUtilityScore\<close> after the update and settle at once; with at least
  the importance 0.15 and an age of at most a month no row falls under the threshold of the collection.
\<close>

lemma young_rows_useful:
  assumes "15 / 100 \<le> l_importance r" "now - l_created r \<le> days 30"
  shows "15 / 100 \<le> utility_now now r"
proof -
  have m: "max 1 ((now - l_created r) / 2592000) = 1" using assms(2) by simp
  have "l_importance r * 1 \<le> l_importance r * (1 + ln (max (of_nat (l_access r)) 1))"
    using assms(1) by (intro mult_left_mono) auto
  moreover have "utility_now now r = l_importance r * (1 + ln (max (of_nat (l_access r)) 1))"
    by (simp add: utility_now_def m)
  ultimately show ?thesis using assms(1) by linarith
qed

end
