(* ===== verification/Dedup.thy ===== *)
theory Dedup
  imports Complex_Main Prelude
begin

text \<open>
  Merging of similar fragments by the consolidation: \<open>_mergeDuplicates\<close> and \<open>_semanticDedup\<close> of
  \<open>lib/memory/consolidate/MemoryConsolidator.js\<close> and \<open>compressOldFragments\<close> of
  \<open>ConsolidatorGC.js\<close>.

  The similarity of two embeddings, which the vector extension of the database computes, is the parameter
  \<open>sim\<close>.  Statements that the database always refuses change nothing: an \<open>UPDATE\<close> with \<open>ON CONFLICT\<close> is not
  SQL, the relation \<open>supersedes\<close> violates the CHECK constraint of \<open>fragment_links\<close>, and \<open>id = ANY($1::uuid[])\<close>
  compares the type \<open>TEXT\<close> with \<open>UUID\<close>.  The code swallows the first two.
\<close>

section \<open>Rows\<close>

type_synonym embedding = "rat list"

record drow =
  d_id :: string
  d_key :: "string option"
  d_workspace :: "string option"
  d_topic :: string
  d_hash :: string
  d_importance :: rat
  d_created :: int
  d_accessed :: "int option"
  d_anchor :: bool
  d_valid :: bool
  d_access :: nat
  d_emb :: "embedding option"

type_synonym dlink = "string \<times> string"

abbreviation "emb r \<equiv> the (d_emb r)"

section \<open>Equal contents\<close>

text \<open>The groups of rows of a key with the same workspace and hash.\<close>

definition same_group :: "drow \<Rightarrow> drow \<Rightarrow> bool" where
  "same_group a b \<longleftrightarrow> d_key a = d_key b \<and> d_workspace a = d_workspace b \<and> d_hash a = d_hash b"

definition duplicate_groups :: "drow list \<Rightarrow> drow list list" where
  "duplicate_groups rs =
     take 50 (filter (\<lambda>g. 1 < length g) (remdups (map (\<lambda>r. filter (same_group r) rs) (filter (\<lambda>r. d_key r \<noteq> None) rs))))"

text \<open>The first group makes the check of its members fail, and with it the stage.\<close>

definition mergeDuplicates :: "drow list \<Rightarrow> unit + nat" where
  "mergeDuplicates rs = (if duplicate_groups rs = [] then Inr 0 else Inl ())"

section \<open>Similar contents\<close>

record dedup_state =
  d_rows :: "drow list"
  d_links :: "dlink list"
  processed :: "string list"
  merged :: nat

definition live :: "string \<Rightarrow> drow list \<Rightarrow> drow list" where
  "live topic rs = filter (\<lambda>r. d_topic r = topic \<and> d_emb r \<noteq> None \<and> d_valid r) rs"

definition dedup_topics :: "nat \<Rightarrow> nat \<Rightarrow> drow list \<Rightarrow> string list" where
  "dedup_topics minFragments batchSize rs =
     take batchSize (sort_key (\<lambda>t. - int (length (live t rs)))
       (filter (\<lambda>t. minFragments \<le> length (live t rs)) (remdups (map d_topic (filter (\<lambda>r. d_emb r \<noteq> None \<and> d_valid r) rs)))))"

definition knn :: "(embedding \<Rightarrow> embedding \<Rightarrow> rat) \<Rightarrow> nat \<Rightarrow> drow \<Rightarrow> drow list \<Rightarrow> drow list" where
  "knn sim n frag rs = take n (sort_key (\<lambda>r. - sim (emb frag) (emb r)) (filter (\<lambda>r. d_id r \<noteq> d_id frag) rs))"

definition merge_pair :: "drow \<Rightarrow> drow \<Rightarrow> dedup_state \<Rightarrow> dedup_state" where
  "merge_pair frag cand st =
     (let keep = (if d_created cand \<le> d_created frag then d_id frag else d_id cand);
          old = (if d_created cand \<le> d_created frag then d_id cand else d_id frag);
          links1 = filter (\<lambda>l. l \<noteq> (old, keep)) (d_links st);
          links2 = filter (\<lambda>l. l \<noteq> (keep, old)) links1;
          rows1 = map (\<lambda>r. if d_id r = old \<and> d_valid r then r\<lparr>d_valid := False\<rparr> else r) (d_rows st);
          rows2 = map (\<lambda>r. if d_id r = keep then r\<lparr>d_access := d_access frag + d_access cand\<rparr> else r) rows1
      in st\<lparr>d_rows := rows2, d_links := links2, processed := old # processed st, merged := merged st + 1\<rparr>)"

definition try_candidate :: "(embedding \<Rightarrow> embedding \<Rightarrow> rat) \<Rightarrow> drow \<Rightarrow> drow \<Rightarrow> dedup_state \<Rightarrow> dedup_state" where
  "try_candidate sim frag cand st =
     (if sim (emb frag) (emb cand) < 92 / 100 \<or> d_anchor cand \<or> d_id cand \<in> set (processed st) then st
      else merge_pair frag cand st)"

definition dedup_frag :: "(embedding \<Rightarrow> embedding \<Rightarrow> rat) \<Rightarrow> string \<Rightarrow> drow \<Rightarrow> dedup_state \<Rightarrow> dedup_state" where
  "dedup_frag sim topic frag st =
     (if d_anchor frag \<or> d_id frag \<in> set (processed st) then st
      else fold (try_candidate sim frag) (knn sim 3 frag (live topic (d_rows st))) st)"

definition dedup_topic :: "(embedding \<Rightarrow> embedding \<Rightarrow> rat) \<Rightarrow> string \<Rightarrow> dedup_state \<Rightarrow> dedup_state" where
  "dedup_topic sim topic st = fold (dedup_frag sim topic) (sort_key (\<lambda>r. - d_created r) (live topic (d_rows st))) st"

definition semanticDedup ::
  "nat \<Rightarrow> nat \<Rightarrow> (embedding \<Rightarrow> embedding \<Rightarrow> rat) \<Rightarrow> drow list \<Rightarrow> dlink list \<Rightarrow> dedup_state" where
  "semanticDedup batchSize minFragments sim rs ls =
     fold (dedup_topic sim) (dedup_topics minFragments batchSize rs) \<lparr>d_rows = rs, d_links = ls, processed = [], merged = 0\<rparr>"

section \<open>Old fragments\<close>

definition compressible :: "int \<Rightarrow> drow \<Rightarrow> bool" where
  "compressible before r \<longleftrightarrow> (case d_accessed r of None \<Rightarrow> False | Some t \<Rightarrow> t < before) \<and> d_importance r < 1 / 2 \<and>
     \<not> d_anchor r \<and> d_valid r \<and> d_emb r \<noteq> None"

text \<open>The neighbours that join the group of a fragment, up to ten members, until one is not similar.\<close>

fun gather :: "(embedding \<Rightarrow> embedding \<Rightarrow> rat) \<Rightarrow> drow \<Rightarrow> drow list \<Rightarrow> string list \<Rightarrow> drow list \<Rightarrow> drow list \<times> string list" where
  "gather sim frag [] assigned grp = (grp, assigned)"
| "gather sim frag (n # ns) assigned grp =
     (if d_id n \<in> set assigned then gather sim frag ns assigned grp
      else if sim (emb frag) (emb n) < 80 / 100 then (grp, assigned)
      else if 10 \<le> length grp then (grp, assigned)
      else gather sim frag ns (d_id n # assigned) (grp @ [n]))"

definition group_of ::
  "(embedding \<Rightarrow> embedding \<Rightarrow> rat) \<Rightarrow> (drow \<Rightarrow> drow list) \<Rightarrow> nat \<Rightarrow> drow \<Rightarrow> drow list list \<times> string list \<Rightarrow>
   drow list list \<times> string list" where
  "group_of sim neighbours minGroup frag acc =
     (if d_id frag \<in> set (snd acc) then acc
      else let (grp, assigned) = gather sim frag (neighbours frag) (d_id frag # snd acc) [frag]
           in (if minGroup \<le> length grp then fst acc @ [grp] else fst acc, assigned))"

text \<open>
  The groups of a topic.  The database does not change meanwhile, and a fragment that was assigned at the start of
  its batch of twenty is skipped like one that is assigned within it, so the batches do not show.
\<close>

definition topic_groups ::
  "(embedding \<Rightarrow> embedding \<Rightarrow> rat) \<Rightarrow> nat \<Rightarrow> drow list \<Rightarrow> drow list list" where
  "topic_groups sim minGroup frags =
     (if length frags < minGroup then []
      else fst (fold (group_of sim (\<lambda>f. knn sim 10 f frags) minGroup) frags ([], [])))"

definition compression_groups :: "(embedding \<Rightarrow> embedding \<Rightarrow> rat) \<Rightarrow> nat \<Rightarrow> int \<Rightarrow> drow list \<Rightarrow> drow list list" where
  "compression_groups sim minGroup before rs =
     (let cands = sort_key (\<lambda>r. - d_importance r) (filter (compressible before) rs);
          topics = remdups (map d_topic (filter (\<lambda>r. d_topic r \<noteq> []) cands))
      in concat (map (\<lambda>t. topic_groups sim minGroup (filter (\<lambda>r. d_topic r = t) cands)) topics))"

definition commit_group :: "drow list \<Rightarrow> drow list \<Rightarrow> drow list" where
  "commit_group grp rs =
     (case sort_key (\<lambda>r. - d_importance r) grp of
        [] \<Rightarrow> rs
      | keeper # others \<Rightarrow>
          let dead = map d_id others;
              total = d_access keeper + sum_list (map d_access others)
          in map (\<lambda>r. if d_id r = d_id keeper then r\<lparr>d_access := total\<rparr> else r)
               (map (\<lambda>r. if d_id r \<in> set dead \<and> d_valid r then r\<lparr>d_valid := False\<rparr> else r) rs))"

definition compressOldFragments ::
  "(embedding \<Rightarrow> embedding \<Rightarrow> rat) \<Rightarrow> nat \<Rightarrow> int \<Rightarrow> drow list \<Rightarrow> nat \<times> drow list" where
  "compressOldFragments sim minGroup before rs =
     (let gs = compression_groups sim minGroup before rs
      in (sum_list (map (\<lambda>g. length g - 1) gs), fold commit_group gs rs))"

section \<open>Why a fragment is superseded\<close>

text \<open>What the merging never changes of a row.\<close>

definition core :: "drow \<Rightarrow> drow" where
  "core r = r\<lparr>d_valid := True, d_access := 0\<rparr>"

lemma core_eqD:
  assumes "core a = core b"
  shows "d_id a = d_id b" "d_topic a = d_topic b" "d_emb a = d_emb b" "d_anchor a = d_anchor b" "d_created a = d_created b"
proof -
  have "d_id (core a) = d_id (core b)" "d_topic (core a) = d_topic (core b)" "d_emb (core a) = d_emb (core b)"
    "d_anchor (core a) = d_anchor (core b)" "d_created (core a) = d_created (core b)"
    using assms by simp_all
  then show "d_id a = d_id b" "d_topic a = d_topic b" "d_emb a = d_emb b" "d_anchor a = d_anchor b" "d_created a = d_created b"
    by (simp_all add: core_def)
qed

definition similar :: "(embedding \<Rightarrow> embedding \<Rightarrow> rat) \<Rightarrow> drow \<Rightarrow> drow \<Rightarrow> bool" where
  "similar sim a b \<longleftrightarrow> 92 / 100 \<le> sim (emb a) (emb b) \<or> 92 / 100 \<le> sim (emb b) (emb a)"

text \<open>\<open>o\<close> may go because of \<open>k\<close>.\<close>

definition replaces :: "(embedding \<Rightarrow> embedding \<Rightarrow> rat) \<Rightarrow> drow \<Rightarrow> drow \<Rightarrow> bool" where
  "replaces sim k old \<longleftrightarrow> d_id k \<noteq> d_id old \<and> d_topic k = d_topic old \<and> \<not> d_anchor k \<and> \<not> d_anchor old \<and>
     d_created old \<le> d_created k \<and> similar sim k old"

definition justified :: "(embedding \<Rightarrow> embedding \<Rightarrow> rat) \<Rightarrow> drow list \<Rightarrow> string \<Rightarrow> bool" where
  "justified sim R i \<longleftrightarrow> (\<exists>old \<in> set R. \<exists>k \<in> set R. d_id old = i \<and> replaces sim k old)"

definition dedup_inv :: "(embedding \<Rightarrow> embedding \<Rightarrow> rat) \<Rightarrow> drow list \<Rightarrow> dlink list \<Rightarrow> dedup_state \<Rightarrow> bool" where
  "dedup_inv sim R L st \<longleftrightarrow> map core (d_rows st) = map core R \<and> set (d_links st) \<subseteq> set L \<and>
     (\<forall>r \<in> set (d_rows st). \<not> d_valid r \<longrightarrow> (\<exists>q \<in> set R. d_id q = d_id r \<and> \<not> d_valid q) \<or> justified sim R (d_id r))"

lemma dedup_inv_copy:
  assumes "dedup_inv sim R L st" "r \<in> set (d_rows st)"
  obtains q where "q \<in> set R" "core q = core r"
proof -
  have "core r \<in> core ` set R"
    using assms by (metis dedup_inv_def image_eqI list.set_map)
  then show ?thesis using that by auto
qed

lemma merge_pair_rows:
  assumes "r \<in> set (d_rows (merge_pair frag cand st))"
  obtains q where "q \<in> set (d_rows st)" "d_id r = d_id q"
    "d_valid r \<or> \<not> d_valid q \<or> d_id q = (if d_created cand \<le> d_created frag then d_id cand else d_id frag)"
  using assms by (auto simp: merge_pair_def Let_def split: if_splits)

lemma merge_pair_inv:
  assumes inv: "dedup_inv sim R L st" and f: "f0 \<in> set R" "core f0 = core frag" and c: "c0 \<in> set R" "core c0 = core cand"
    and ok: "d_id cand \<noteq> d_id frag" "d_topic cand = d_topic frag" "\<not> d_anchor frag" "\<not> d_anchor cand"
      "92 / 100 \<le> sim (emb frag) (emb cand)"
  shows "dedup_inv sim R L (merge_pair frag cand st)"
proof -
  let ?old = "if d_created cand \<le> d_created frag then d_id cand else d_id frag"
  have "d_created cand \<le> d_created frag \<Longrightarrow> replaces sim f0 c0" "\<not> d_created cand \<le> d_created frag \<Longrightarrow> replaces sim c0 f0"
    using ok core_eqD [OF f(2)] core_eqD [OF c(2)] by (auto simp: replaces_def similar_def)
  then have "justified sim R ?old"
    using f(1) c(1) core_eqD(1) [OF f(2)] core_eqD(1) [OF c(2)] unfolding justified_def
    by (cases "d_created cand \<le> d_created frag") auto
  moreover have "map core (d_rows (merge_pair frag cand st)) = map core (d_rows st)"
    by (simp add: merge_pair_def Let_def core_def)
  moreover have "set (d_links (merge_pair frag cand st)) \<subseteq> set (d_links st)"
    by (auto simp: merge_pair_def Let_def)
  moreover have "(\<exists>q \<in> set R. d_id q = d_id r \<and> \<not> d_valid q) \<or> justified sim R (d_id r)"
    if r: "r \<in> set (d_rows (merge_pair frag cand st))" "\<not> d_valid r" and j: "justified sim R ?old" for r
  proof -
    obtain q where q: "q \<in> set (d_rows st)" "d_id r = d_id q" "d_valid r \<or> \<not> d_valid q \<or> d_id q = ?old"
      by (rule merge_pair_rows [OF r(1)])
    show ?thesis
    proof (cases "d_id q = ?old")
      case True
      then show ?thesis using j q(2) by simp
    next
      case False
      then have "\<not> d_valid q" using q(3) r(2) by blast
      then show ?thesis using inv q(1,2) unfolding dedup_inv_def by simp
    qed
  qed
  ultimately show ?thesis
    using inv unfolding dedup_inv_def by (auto simp del: split_paired_All)
qed

lemma try_candidate_inv:
  assumes "dedup_inv sim R L st" "f0 \<in> set R" "core f0 = core frag" "c0 \<in> set R" "core c0 = core cand"
    "d_id cand \<noteq> d_id frag" "d_topic cand = d_topic frag" "\<not> d_anchor frag"
  shows "dedup_inv sim R L (try_candidate sim frag cand st)"
  using merge_pair_inv [OF assms(1-7)] assms by (simp add: try_candidate_def not_less)

lemma live_mem: "r \<in> set (live t rs) \<longleftrightarrow> r \<in> set rs \<and> d_topic r = t \<and> d_emb r \<noteq> None \<and> d_valid r"
  by (auto simp: live_def)

lemma knn_mem: "r \<in> set (knn sim n frag rs) \<Longrightarrow> r \<in> set rs \<and> d_id r \<noteq> d_id frag"
  by (auto simp: knn_def dest: in_set_takeD)

lemma dedup_frag_inv:
  assumes inv: "dedup_inv sim R L st" and f: "f0 \<in> set R" "core f0 = core frag" "d_topic frag = t"
  shows "dedup_inv sim R L (dedup_frag sim t frag st)"
proof (cases "d_anchor frag \<or> d_id frag \<in> set (processed st)")
  case False
  have "dedup_inv sim R L (fold (try_candidate sim frag) (knn sim 3 frag (live t (d_rows st))) st)"
  proof (rule fold_invariant [where Q = "\<lambda>c. (\<exists>c0 \<in> set R. core c0 = core c) \<and> d_id c \<noteq> d_id frag \<and> d_topic c = t"])
    fix c assume c: "c \<in> set (knn sim 3 frag (live t (d_rows st)))"
    then have "c \<in> set (d_rows st)" "d_id c \<noteq> d_id frag" "d_topic c = t"
      by (auto dest!: knn_mem simp: live_mem)
    then show "(\<exists>c0 \<in> set R. core c0 = core c) \<and> d_id c \<noteq> d_id frag \<and> d_topic c = t"
      using dedup_inv_copy [OF inv] by metis
  next
    fix c s assume "(\<exists>c0 \<in> set R. core c0 = core c) \<and> d_id c \<noteq> d_id frag \<and> d_topic c = t" "dedup_inv sim R L s"
    then show "dedup_inv sim R L (try_candidate sim frag c s)"
      using try_candidate_inv f False by metis
  qed (rule inv)
  then show ?thesis using False by (simp add: dedup_frag_def)
qed (simp add: dedup_frag_def inv)

lemma dedup_topic_inv:
  assumes "dedup_inv sim R L st"
  shows "dedup_inv sim R L (dedup_topic sim t st)"
  unfolding dedup_topic_def
proof (rule fold_invariant [where Q = "\<lambda>f. (\<exists>f0 \<in> set R. core f0 = core f) \<and> d_topic f = t"])
  fix f assume "f \<in> set (sort_key (\<lambda>r. - d_created r) (live t (d_rows st)))"
  then show "(\<exists>f0 \<in> set R. core f0 = core f) \<and> d_topic f = t"
    using dedup_inv_copy [OF assms] by (metis live_mem set_sort)
next
  fix f s assume "(\<exists>f0 \<in> set R. core f0 = core f) \<and> d_topic f = t" "dedup_inv sim R L s"
  then show "dedup_inv sim R L (dedup_frag sim t f s)" using dedup_frag_inv by metis
qed (rule assms)

lemma dedup_inv_result: "dedup_inv sim R L (semanticDedup batch least sim R L)"
  unfolding semanticDedup_def
proof (rule fold_invariant [where Q = "\<lambda>_. True"])
  show "dedup_inv sim R L \<lparr>d_rows = R, d_links = L, processed = [], merged = 0\<rparr>"
    by (auto simp: dedup_inv_def)
qed (simp_all add: dedup_topic_inv)

lemma replaces_newer: "replaces sim k old \<Longrightarrow> d_created old \<le> d_created k \<and> d_id k \<noteq> d_id old \<and> d_topic k = d_topic old"
  by (simp add: replaces_def)

text \<open>
  A fragment that \<open>_semanticDedup\<close> supersedes is no anchor and has another one of its topic,
  not older and at least 0.92 similar; so the newest fragment of a topic stays.  Rows keep everything but
  \<open>valid_to\<close> and the access count, and no link is added: what pointed to a superseded fragment still does.
\<close>

theorem semantic_dedup_justified:
  assumes "distinct (map d_id R)" and "st = semanticDedup batch least sim R L"
  shows "map core (d_rows st) = map core R \<and> set (d_links st) \<subseteq> set L \<and>
    (\<forall>r \<in> set (d_rows st). \<forall>q \<in> set R. d_id q = d_id r \<longrightarrow> d_valid q \<longrightarrow> \<not> d_valid r \<longrightarrow> (\<exists>k \<in> set R. replaces sim k q)) \<and>
    (\<forall>r \<in> set (d_rows st). \<forall>q \<in> set R. d_id q = d_id r \<longrightarrow> d_valid q \<longrightarrow>
       (\<forall>k \<in> set R. d_topic k = d_topic q \<longrightarrow> d_id k \<noteq> d_id q \<longrightarrow> d_created k < d_created q) \<longrightarrow> d_valid r)"
proof -
  have inv: "dedup_inv sim R L st" unfolding assms(2) by (rule dedup_inv_result)
  have just: "\<exists>k \<in> set R. replaces sim k q" if rq: "r \<in> set (d_rows st)" "q \<in> set R" "d_id q = d_id r" "d_valid q" "\<not> d_valid r" for r q
  proof -
    have uniq: "x = q" if "x \<in> set R" "d_id x = d_id r" for x
      using assms(1) rq(2,3) that by (metis distinct_map inj_onD)
    have "\<not> (\<exists>x \<in> set R. d_id x = d_id r \<and> \<not> d_valid x)" using uniq rq(4) by blast
    then have "justified sim R (d_id r)" using inv rq(1,5) unfolding dedup_inv_def by blast
    then show ?thesis using uniq unfolding justified_def by metis
  qed
  have "d_valid r" if "r \<in> set (d_rows st)" "q \<in> set R" "d_id q = d_id r" "d_valid q"
      "\<forall>k \<in> set R. d_topic k = d_topic q \<longrightarrow> d_id k \<noteq> d_id q \<longrightarrow> d_created k < d_created q" for r q
    using just [OF that(1-4)] that(5) replaces_newer by (meson not_less)
  then show ?thesis using inv just unfolding dedup_inv_def by blast
qed

section \<open>Keys do not matter\<close>

definition rekey :: "(string \<Rightarrow> string option) \<Rightarrow> drow \<Rightarrow> drow" where
  "rekey g r = r\<lparr>d_key := g (d_id r)\<rparr>"

lemma rekey_simps [simp]:
  "d_id (rekey g r) = d_id r" "d_topic (rekey g r) = d_topic r" "d_importance (rekey g r) = d_importance r"
  "d_created (rekey g r) = d_created r" "d_accessed (rekey g r) = d_accessed r" "d_anchor (rekey g r) = d_anchor r"
  "d_valid (rekey g r) = d_valid r" "d_access (rekey g r) = d_access r" "d_emb (rekey g r) = d_emb r"
  by (simp_all add: rekey_def)

lemma rekey_update [simp]:
  "(rekey g r)\<lparr>d_valid := v\<rparr> = rekey g (r\<lparr>d_valid := v\<rparr>)" "(rekey g r)\<lparr>d_access := n\<rparr> = rekey g (r\<lparr>d_access := n\<rparr>)"
  by (simp_all add: rekey_def)

lemma insort_key_map: "insort_key f (h x) (map h xs) = map h (insort_key (\<lambda>x. f (h x)) x xs)"
  by (induction xs) auto

lemma sort_key_map: "sort_key f (map h xs) = map h (sort_key (\<lambda>x. f (h x)) xs)"
  by (induction xs) (simp_all add: insort_key_map)

lemma fold_commute: "(\<And>x s. F (h x) (w s) = w (G x s)) \<Longrightarrow> fold F (map h xs) (w s) = w (fold G xs s)"
  by (induction xs arbitrary: s) simp_all

lemma live_rekey: "live t (map (rekey g) rs) = map (rekey g) (live t rs)"
  by (simp add: live_def filter_map comp_def)

lemma knn_rekey: "knn sim n (rekey g f) (map (rekey g) rs) = map (rekey g) (knn sim n f rs)"
  by (simp add: knn_def filter_map comp_def sort_key_map take_map)

lemma dedup_topics_rekey: "dedup_topics a b (map (rekey g) rs) = dedup_topics a b rs"
  by (simp add: dedup_topics_def live_rekey filter_map comp_def)

definition rekey_state :: "(string \<Rightarrow> string option) \<Rightarrow> dedup_state \<Rightarrow> dedup_state" where
  "rekey_state g st = st\<lparr>d_rows := map (rekey g) (d_rows st)\<rparr>"

lemma merge_pair_rekey: "merge_pair (rekey g f) (rekey g c) (rekey_state g st) = rekey_state g (merge_pair f c st)"
  by (simp add: merge_pair_def rekey_state_def Let_def)

lemma try_candidate_rekey:
  "try_candidate sim (rekey g f) (rekey g c) (rekey_state g st) = rekey_state g (try_candidate sim f c st)"
  by (simp add: try_candidate_def merge_pair_rekey) (simp add: rekey_state_def)

lemma rekey_state_read [simp]: "d_rows (rekey_state g st) = map (rekey g) (d_rows st)" "processed (rekey_state g st) = processed st"
  by (simp_all add: rekey_state_def)

lemma dedup_frag_rekey: "dedup_frag sim t (rekey g f) (rekey_state g st) = rekey_state g (dedup_frag sim t f st)"
proof -
  have "fold (try_candidate sim (rekey g f)) (map (rekey g) cs) (rekey_state g st) = rekey_state g (fold (try_candidate sim f) cs st)" for cs
    by (rule fold_commute) (rule try_candidate_rekey)
  then show ?thesis by (simp add: dedup_frag_def live_rekey knn_rekey)
qed

lemma dedup_topic_rekey: "dedup_topic sim t (rekey_state g st) = rekey_state g (dedup_topic sim t st)"
proof -
  have "fold (dedup_frag sim t) (map (rekey g) cs) (rekey_state g st) = rekey_state g (fold (dedup_frag sim t) cs st)" for cs
    by (rule fold_commute) (rule dedup_frag_rekey)
  then show ?thesis by (simp add: dedup_topic_def live_rekey sort_key_map)
qed

lemma semanticDedup_rekey:
  "semanticDedup batch least sim (map (rekey g) R) L = rekey_state g (semanticDedup batch least sim R L)"
proof -
  have "fold (dedup_topic sim) ts (rekey_state g st) = rekey_state g (fold (dedup_topic sim) ts st)" for ts st
    using fold_commute [of "dedup_topic sim" "\<lambda>t. t" "rekey_state g" "dedup_topic sim" ts st] dedup_topic_rekey by simp
  from this [of _ "\<lparr>d_rows = R, d_links = L, processed = [], merged = 0\<rparr>"] show ?thesis
    by (simp add: semanticDedup_def dedup_topics_rekey rekey_state_def)
qed

lemma gather_rekey:
  "gather sim (rekey g f) (map (rekey g) ns) as (map (rekey g) grp) =
     map_prod (map (rekey g)) id (gather sim f ns as grp)"
proof (induction ns arbitrary: as grp)
  case (Cons n ns)
  from Cons [of "d_id n # as" "grp @ [n]"] Cons [of as grp] show ?case by simp
qed simp

lemma group_of_rekey:
  "group_of sim (\<lambda>f. knn sim n f (map (rekey g) rs)) least (rekey g f) (map_prod (map (map (rekey g))) id acc) =
     map_prod (map (map (rekey g))) id (group_of sim (\<lambda>f. knn sim n f rs) least f acc)"
  using gather_rekey [of sim g f "knn sim n f rs" "d_id f # snd acc" "[f]"]
  by (cases acc) (simp add: group_of_def knn_rekey Let_def split_beta)

lemma topic_groups_rekey: "topic_groups sim least (map (rekey g) rs) = map (map (rekey g)) (topic_groups sim least rs)"
proof -
  have "fold (group_of sim (\<lambda>f. knn sim 10 f (map (rekey g) rs)) least) (map (rekey g) fs) (map_prod (map (map (rekey g))) id ([], [])) =
      map_prod (map (map (rekey g))) id (fold (group_of sim (\<lambda>f. knn sim 10 f rs) least) fs ([], []))" for fs
    by (rule fold_commute) (rule group_of_rekey)
  then show ?thesis by (simp add: topic_groups_def)
qed

lemma compression_groups_rekey:
  "compression_groups sim least before (map (rekey g) rs) = map (map (rekey g)) (compression_groups sim least before rs)"
proof -
  have c: "compressible before (rekey g r) = compressible before r" for r by (simp add: compressible_def)
  show ?thesis
    by (simp add: compression_groups_def Let_def filter_map comp_def sort_key_map topic_groups_rekey map_concat c)
qed

lemma commit_group_rekey: "commit_group (map (rekey g) grp) (map (rekey g) rs) = map (rekey g) (commit_group grp rs)"
  by (auto simp: commit_group_def sort_key_map Let_def comp_def split: list.split)

text \<open>
  Which fragments are merged does not depend on whose they are: giving the rows any other
  keys changes neither what \<open>_semanticDedup\<close> nor what \<open>compressOldFragments\<close> does.  A similar fragment of one tenant
  supersedes the fragment of another.
\<close>

theorem merging_ignores_tenants:
  "semanticDedup batch least sim (map (rekey g) R) L = rekey_state g (semanticDedup batch least sim R L) \<and>
   compressOldFragments sim minGroup before (map (rekey g) R) =
     (fst (compressOldFragments sim minGroup before R), map (rekey g) (snd (compressOldFragments sim minGroup before R)))"
proof -
  have "fold commit_group (map (map (rekey g)) gs) (map (rekey g) R) = map (rekey g) (fold commit_group gs R)" for gs
    by (rule fold_commute) (rule commit_group_rekey)
  then show ?thesis
    by (simp add: semanticDedup_rekey compressOldFragments_def compression_groups_rekey Let_def comp_def)
qed

definition drow_of :: "string \<Rightarrow> string \<Rightarrow> int \<Rightarrow> nat \<Rightarrow> drow" where
  "drow_of i k created n = \<lparr>d_id = i, d_key = Some k, d_workspace = None, d_topic = ''t'', d_hash = i, d_importance = 1 / 4,
     d_created = created, d_accessed = Some 0, d_anchor = False, d_valid = True, d_access = n, d_emb = Some [1]\<rparr>"

lemma two_tenants_merged:
  "map (\<lambda>r. (d_id r, d_key r, d_valid r)) (d_rows (semanticDedup 100 2 (\<lambda>_ _. 1) [drow_of ''a'' ''k1'' 1 3, drow_of ''b'' ''k2'' 2 4] [])) =
     [(''a'', Some ''k1'', False), (''b'', Some ''k2'', True)]"
  by code_simp

lemma semantic_dedup_justified_witness:
  "distinct (map d_id [drow_of ''a'' ''k1'' 1 3, drow_of ''b'' ''k2'' 2 4]) \<and>
   map core (d_rows (semanticDedup 100 2 (\<lambda>_ _. 1) [drow_of ''a'' ''k1'' 1 3, drow_of ''b'' ''k2'' 2 4] [])) =
     map core [drow_of ''a'' ''k1'' 1 3, drow_of ''b'' ''k2'' 2 4]"
proof
  show d: "distinct (map d_id [drow_of ''a'' ''k1'' 1 3, drow_of ''b'' ''k2'' 2 4])" by (simp add: drow_of_def)
  show "map core (d_rows (semanticDedup 100 2 (\<lambda>_ _. 1) [drow_of ''a'' ''k1'' 1 3, drow_of ''b'' ''k2'' 2 4] [])) =
     map core [drow_of ''a'' ''k1'' 1 3, drow_of ''b'' ''k2'' 2 4]"
    by (rule semantic_dedup_justified [OF d refl, THEN conjunct1])
qed

text \<open>The access counts of a fragment that absorbs two others: the second sum starts from the count before the first.\<close>

lemma access_count_lost:
  "map d_access (filter d_valid (d_rows (semanticDedup 100 2 (\<lambda>_ _. 1)
     [drow_of ''a'' ''k'' 1 10, drow_of ''b'' ''k'' 2 20, drow_of ''c'' ''k'' 3 30] []))) = [50]"
  by code_simp

section \<open>Compression keeps the access counts\<close>

text \<open>Ids of the members of a list of rows.\<close>

abbreviation "ids \<equiv> map d_id"

lemma gather_result:
  assumes "gather sim f ns asg grp = (grp', asg')"
    and "distinct (ids grp)" "set (ids grp) \<subseteq> set asg" "set (ids grp) \<inter> A = {}" "A \<subseteq> set asg"
  shows "distinct (ids grp') \<and> set (ids grp') \<subseteq> set asg' \<and> set asg \<subseteq> set asg' \<and> set (ids grp') \<inter> A = {} \<and>
    set grp' \<subseteq> set grp \<union> set ns"
  using assms
proof (induction ns arbitrary: asg grp)
  case Nil
  then show ?case by auto
next
  case (Cons n ns)
  show ?case
  proof (cases "d_id n \<in> set asg")
    case True
    with Cons.prems(1) have "gather sim f ns asg grp = (grp', asg')" by simp
    from Cons.IH [OF this Cons.prems(2-5)] show ?thesis by auto
  next
    case new: False
    show ?thesis
    proof (cases "sim (emb f) (emb n) < 80 / 100 \<or> 10 \<le> length grp")
      case True
      with new Cons.prems(1) have "grp' = grp" "asg' = asg" by (auto split: if_splits)
      with Cons.prems show ?thesis by auto
    next
      case False
      with new Cons.prems(1) have g: "gather sim f ns (d_id n # asg) (grp @ [n]) = (grp', asg')" by auto
      have "distinct (ids grp') \<and> set (ids grp') \<subseteq> set asg' \<and> set (d_id n # asg) \<subseteq> set asg' \<and> set (ids grp') \<inter> A = {} \<and>
          set grp' \<subseteq> set (grp @ [n]) \<union> set ns"
        by (rule Cons.IH [OF g]) (use Cons.prems new in auto)
      then show ?thesis by auto
    qed
  qed
qed

definition groups_inv :: "drow list \<Rightarrow> drow list list \<times> string list \<Rightarrow> bool" where
  "groups_inv frags acc \<longleftrightarrow> distinct (ids (concat (fst acc))) \<and> set (ids (concat (fst acc))) \<subseteq> set (snd acc) \<and>
     set (concat (fst acc)) \<subseteq> set frags"

lemma disjoint_mono: "A \<subseteq> B \<Longrightarrow> C \<inter> B = {} \<Longrightarrow> A \<inter> C = {}"
  by auto

lemma group_of_inv:
  assumes "groups_inv frags acc" "f \<in> set frags" "\<And>f. set (neighbours f) \<subseteq> set frags"
  shows "groups_inv frags (group_of sim neighbours least f acc)"
proof (cases "d_id f \<in> set (snd acc)")
  case False
  obtain grp asg where g: "gather sim f (neighbours f) (d_id f # snd acc) [f] = (grp, asg)" by force
  have i: "distinct (ids grp) \<and> set (ids grp) \<subseteq> set asg \<and> set (d_id f # snd acc) \<subseteq> set asg \<and> set (ids grp) \<inter> set (snd acc) = {} \<and>
      set grp \<subseteq> set [f] \<union> set (neighbours f)"
    by (rule gather_result [OF g]) (use False in auto)
  have r: "group_of sim neighbours least f acc = (if least \<le> length grp then fst acc @ [grp] else fst acc, asg)"
    using False by (simp add: group_of_def g Let_def)
  have old: "distinct (ids (concat (fst acc)))" "set (ids (concat (fst acc))) \<subseteq> set (snd acc)" "set (concat (fst acc)) \<subseteq> set frags"
    using assms(1) unfolding groups_inv_def by blast+
  have asg: "set (snd acc) \<subseteq> set asg" using i [THEN conjunct2, THEN conjunct2, THEN conjunct1] by auto
  have "set grp \<subseteq> set [f] \<union> set (neighbours f)" using i by blast
  with assms(2) assms(3) [of f] have grp: "set grp \<subseteq> set frags" by auto
  note i = i [THEN conjunct1] i [THEN conjunct2, THEN conjunct1] i [THEN conjunct2, THEN conjunct2, THEN conjunct2, THEN conjunct1]
  have d: "distinct (ids (concat (fst acc)) @ ids grp)" 
    unfolding distinct_append using old(1) i(1) disjoint_mono [OF old(2) i(3)] by blast
  have k: "set (ids (concat (fst acc)) @ ids grp) \<subseteq> set asg" 
    unfolding set_append by (rule Un_least [OF subset_trans [OF old(2) asg] i(2)])
  have m: "set (concat (fst acc) @ grp) \<subseteq> set frags" 
    unfolding set_append by (rule Un_least [OF old(3) grp])
  show ?thesis
  proof (cases "least \<le> length grp")
    case True
    have c: "concat (fst acc @ [grp]) = concat (fst acc) @ grp" by simp
    show ?thesis unfolding r groups_inv_def if_P [OF True] fst_conv snd_conv c map_append by (intro conjI d k m)
  next
    case False
    show ?thesis unfolding r groups_inv_def if_not_P [OF False] fst_conv snd_conv
      by (intro conjI old(1,3) subset_trans [OF old(2) asg])
  qed
qed (use assms in \<open>simp add: group_of_def\<close>)

lemma knn_subset: "set (knn sim n f rs) \<subseteq> set rs"
  by (auto dest: knn_mem)

lemma topic_groups_inv:
  "distinct (ids (concat (topic_groups sim least frags))) \<and> set (concat (topic_groups sim least frags)) \<subseteq> set frags"
proof (cases "length frags < least")
  case False
  have "groups_inv frags (fold (group_of sim (\<lambda>f. knn sim 10 f frags) least) frags ([], []))"
    by (rule fold_invariant [where Q = "\<lambda>f. f \<in> set frags"])
      (use group_of_inv [where neighbours = "\<lambda>f. knn sim 10 f frags"] knn_subset in \<open>auto simp: groups_inv_def [of frags "([], [])"]\<close>)
  then show ?thesis using False by (simp add: topic_groups_def groups_inv_def)
qed (simp add: topic_groups_def)

lemma set_concat_map: "set (concat (map F ts)) = (\<Union>t \<in> set ts. set (F t))"
  by simp

lemma concat_concat_map: "concat (concat (map f xs)) = concat (map (\<lambda>x. concat (f x)) xs)"
  by (induction xs) simp_all

lemma compression_groups_disjoint:
  "distinct (ids (concat (compression_groups sim least before rs))) \<and>
   set (concat (compression_groups sim least before rs)) \<subseteq> {r \<in> set rs. compressible before r}" if ids: "distinct (ids rs)"
proof -
  let ?c = "sort_key (\<lambda>r. - d_importance r) (filter (compressible before) rs)"
  let ?T = "\<lambda>t. concat (topic_groups sim least (filter (\<lambda>r. d_topic r = t) ?c))"
  have T: "distinct (ids (?T t))" "set (?T t) \<subseteq> {r \<in> set rs. compressible before r \<and> d_topic r = t}" for t
    using topic_groups_inv [of sim least "filter (\<lambda>r. d_topic r = t) ?c"] unfolding set_filter set_sort by blast+
  have inj: "inj_on d_id (set rs)" using ids by (simp add: distinct_map)
  have all: "distinct (ids (concat (map ?T ts)))" if "distinct ts" for ts
    using that
  proof (induction ts)
    case (Cons t ts)
    have "set (ids (?T t)) \<inter> set (ids (concat (map ?T ts))) = {}"
    proof (rule ccontr)
      assume "\<not> ?thesis"
      then obtain a b u where "a \<in> set (?T t)" "u \<in> set ts" "b \<in> set (?T u)" "d_id a = d_id b"
        using set_concat_map [of ?T ts] by (auto simp del: set_concat)
      moreover have "a \<in> set rs" "d_topic a = t" "b \<in> set rs" "d_topic b = u"
        using subsetD [OF T(2) \<open>a \<in> set (?T t)\<close>] subsetD [OF T(2) \<open>b \<in> set (?T u)\<close>] by simp_all
      ultimately have "t = u" using inj by (auto simp: inj_on_def)
      with Cons.prems \<open>u \<in> set ts\<close> show False by simp
    qed
    with Cons T(1) [of t] show ?case by simp
  qed simp
  have c: "concat (compression_groups sim least before rs) = concat (map ?T (remdups (map d_topic (filter (\<lambda>r. d_topic r \<noteq> []) ?c))))"
    unfolding compression_groups_def Let_def by (simp add: concat_concat_map)
  have "set (concat (map ?T ts)) \<subseteq> {r \<in> set rs. compressible before r}" for ts
    using T(2) by fastforce
  with all [OF distinct_remdups] show ?thesis unfolding c by blast
qed

text \<open>The accesses counted by the rows in use.\<close>

definition accesses :: "drow list \<Rightarrow> nat" where
  "accesses rs = sum_list (map (\<lambda>r. if d_valid r then d_access r else 0) rs)"

lemma commit_group_keeps:
  assumes "r \<in> set rs" "d_id r \<notin> set (ids grp)"
  shows "r \<in> set (commit_group grp rs)"
proof (cases "sort_key (\<lambda>r. - d_importance r) grp")
  case (Cons k os)
  then have "set grp = set (k # os)" by (metis set_sort)
  with assms have "d_id r \<noteq> d_id k" "d_id r \<notin> set (ids os)" by auto
  with Cons assms(1) show ?thesis by (auto simp: commit_group_def Let_def image_iff intro!: bexI [of _ r])
qed (use assms in \<open>simp add: commit_group_def\<close>)

lemma commit_group_ids [simp]: "ids (commit_group grp rs) = ids rs"
  by (auto simp: commit_group_def Let_def split: list.splits)

lemma commit_group_accesses:
  assumes "distinct (ids rs)" "distinct (ids grp)" "set grp \<subseteq> set rs" "list_all d_valid grp"
  shows "accesses (commit_group grp rs) = accesses rs"
proof (cases "sort_key (\<lambda>r. - d_importance r) grp")
  case (Cons k os)
  let ?v = "\<lambda>r. if d_valid r then d_access r else 0"
  let ?total = "d_access k + sum_list (map d_access os)"
  let ?w = "\<lambda>r. if d_id r = d_id k then ?total else if d_id r \<in> set (ids os) then 0 else ?v r"
  have g: "set grp = set (k # os)" using Cons by (metis set_sort)
  have dk: "distinct (ids (k # os))" using assms(2) Cons
    by (metis distinct_map distinct_sort set_sort)
  have inj: "inj_on d_id (set rs)" and drs: "distinct rs" using assms(1) by (auto simp: distinct_map)
  have kv: "d_valid k" "\<And>r. r \<in> set os \<Longrightarrow> d_valid r" using assms(4) g by (auto simp: list_all_iff)
  have "accesses (commit_group grp rs) = sum_list (map ?w rs)"
  proof -
    let ?kill = "\<lambda>r. if d_id r \<in> set (ids os) \<and> d_valid r then r\<lparr>d_valid := False\<rparr> else r"
    let ?gain = "\<lambda>r. if d_id r = d_id k then r\<lparr>d_access := ?total\<rparr> else r"
    have upd: "?v (?gain (?kill r)) = ?w r" if "r \<in> set rs" for r
    proof (cases "d_id r = d_id k")
      case True
      with that assms(3) g inj have "r = k" by (auto simp: inj_on_def)
      with dk kv(1) show ?thesis by auto
    qed auto
    have "map ?v (map ?gain (map ?kill rs)) = map ?w rs" using upd by (simp only: map_map comp_def cong: map_cong)
    then show ?thesis unfolding accesses_def commit_group_def Cons list.case Let_def by (simp only:)
  qed
  also have "\<dots> = (\<Sum>r \<in> set rs. ?w r)" using drs by (simp add: sum_list_distinct_conv_sum_set)
  also have "\<dots> = (\<Sum>r \<in> set rs. ?v r)"
  proof -
    have out: "?w r = ?v r" if "r \<in> set rs - set (k # os)" for r
    proof -
      have "d_id r \<noteq> d_id k" "d_id r \<notin> set (ids os)"
        using that assms(3) g inj by (auto simp: inj_on_def)
      then show ?thesis by simp
    qed
    have ins: "sum ?w (set (k # os)) = sum ?v (set (k # os))"
    proof -
      have d: "k \<notin> set os" "distinct os" using dk by (auto simp: distinct_map)
      have "\<And>r. r \<in> set os \<Longrightarrow> ?w r = 0" using dk by (auto simp: image_iff)
      then have "sum ?w (set os) = 0" by (intro sum.neutral ballI)
      moreover have "sum ?v (set os) = sum_list (map d_access os)"
        using kv(2) d(2) by (simp add: sum_list_distinct_conv_sum_set)
      ultimately show ?thesis using d kv(1) by simp
    qed
    have sub: "set (k # os) \<subseteq> set rs" using assms(3) g by simp
    show ?thesis
      unfolding sum.subset_diff [OF sub finite_set, of ?w] sum.subset_diff [OF sub finite_set, of ?v] ins
      by (simp only: sum.cong [OF refl out])
  qed
  also have "\<dots> = accesses rs" using drs by (simp add: accesses_def sum_list_distinct_conv_sum_set)
  finally show ?thesis .
qed (simp add: commit_group_def)

lemma commit_groups_accesses:
  assumes "distinct (ids rs)" "distinct (ids (concat gs))" "set (concat gs) \<subseteq> set rs" "list_all d_valid (concat gs)"
  shows "accesses (fold commit_group gs rs) = accesses rs"
  using assms
proof (induction gs arbitrary: rs)
  case (Cons g gs)
  have "set (concat gs) \<subseteq> set (commit_group g rs)"
    using Cons.prems(2,3) by (force intro!: commit_group_keeps)
  then have "accesses (fold commit_group gs (commit_group g rs)) = accesses (commit_group g rs)"
    by (intro Cons.IH) (use Cons.prems in \<open>auto simp: list_all_iff\<close>)
  moreover have "accesses (commit_group g rs) = accesses rs"
    by (rule commit_group_accesses) (use Cons.prems in \<open>auto simp: list_all_iff\<close>)
  ultimately show ?case by simp
qed simp

text \<open>
  C37. Compressing the old fragments neither loses nor invents accesses.\<close>

theorem compression_conserves_accesses:
  assumes "distinct (map d_id rs)"
  shows "accesses (snd (compressOldFragments sim least before rs)) = accesses rs \<and>
    map d_id (snd (compressOldFragments sim least before rs)) = map d_id rs"
proof
  let ?gs = "compression_groups sim least before rs"
  have "list_all d_valid (concat ?gs)"
    using compression_groups_disjoint [OF assms, of sim least before] by (auto simp: list_all_iff compressible_def simp del: set_concat)
  with compression_groups_disjoint [OF assms, of sim least before]
  have "accesses (fold commit_group ?gs rs) = accesses rs"
    by (intro commit_groups_accesses assms) blast+
  then show "accesses (snd (compressOldFragments sim least before rs)) = accesses rs"
    by (simp add: compressOldFragments_def Let_def)
  have "ids (fold commit_group gs rs) = ids rs" for gs
    by (induction gs arbitrary: rs) simp_all
  then show "ids (snd (compressOldFragments sim least before rs)) = ids rs"
    by (simp add: compressOldFragments_def Let_def)
qed

lemma compression_conserves_accesses_witness:
  "accesses (snd (compressOldFragments (\<lambda>_ _. 1) 3 5 [drow_of ''a'' ''k'' 1 10, drow_of ''b'' ''k'' 2 20, drow_of ''c'' ''k'' 3 30])) = 60"
proof -
  have "distinct (map d_id [drow_of ''a'' ''k'' 1 10, drow_of ''b'' ''k'' 2 20, drow_of ''c'' ''k'' 3 30])" by (simp add: drow_of_def)
  note compression_conserves_accesses [OF this, of "\<lambda>_ _. 1" 3 5, THEN conjunct1]
  then show ?thesis by (simp add: accesses_def drow_of_def)
qed

lemma three_compressed:
  "map (\<lambda>r. (d_id r, d_access r, d_valid r)) (snd (compressOldFragments (\<lambda>_ _. 1) 3 5
     [drow_of ''a'' ''k'' 1 10, drow_of ''b'' ''k'' 2 20, drow_of ''c'' ''k'' 3 30])) = [(''a'', 60, True), (''b'', 20, False), (''c'', 30, False)]"
  by code_simp

section \<open>Equal contents fail\<close>

lemma two_of_filter: "1 < length (filter P xs) \<Longrightarrow> \<exists>i j. i < j \<and> j < length xs \<and> P (xs ! i) \<and> P (xs ! j)"
proof (induction xs)
  case (Cons x xs)
  show ?case
  proof (cases "1 < length (filter P xs)")
    case True
    with Cons.IH obtain i j where "i < j" "j < length xs" "P (xs ! i)" "P (xs ! j)" by blast
    then show ?thesis by (intro exI [of _ "Suc i"] exI [of _ "Suc j"]) simp
  next
    case False
    with Cons.prems have "P x" "filter P xs \<noteq> []" by (auto split: if_splits)
    then obtain y where "y \<in> set xs" "P y" by (auto simp: filter_empty_conv)
    then obtain j where "j < length xs" "P (xs ! j)" by (auto simp: in_set_conv_nth)
    with \<open>P x\<close> show ?thesis by (intro exI [of _ 0] exI [of _ "Suc j"]) simp
  qed
qed simp

lemma filter_has_two: "i < j \<Longrightarrow> j < length xs \<Longrightarrow> P (xs ! i) \<Longrightarrow> P (xs ! j) \<Longrightarrow> 1 < length (filter P xs)"
proof (induction xs arbitrary: i j)
  case (Cons x xs)
  show ?case
  proof (cases i)
    case 0
    with Cons.prems obtain j' where "j' < length xs" "P (xs ! j')" "P x" by (cases j) auto
    then have "filter P xs \<noteq> []" by (auto simp: filter_empty_conv)
    with \<open>P x\<close> show ?thesis by simp
  next
    case (Suc i')
    with Cons.prems Cons.IH [of i' "j - 1"] show ?thesis by (cases j) auto
  qed
qed simp


end
