(* ===== verification/ConsolidateQueue.thy ===== *)
theory ConsolidateQueue
  imports Complex_Main Prelude
begin

text \<open>
  The queue in front of the consolidation: \<open>consolidate\<close> of \<open>lib/memory/consolidate/MemoryConsolidator.js\<close>,
  from the module state \<open>CONSOLIDATION_QUEUE\<close> to the start and the end of a cycle.

  A request is known by its position.  The promise \<open>tail\<close> that it finds is resolved when every slot before its own
  has been released, which is what \<open>tail_resolved\<close> says of the chain of \<open>then\<close>.  A step is what runs between two
  suspensions: the part of the call up to \<open>await previous\<close>, the part from there to the start of the cycle, and
  the \<open>finally\<close> block, which runs whether the cycle returned or threw.
\<close>

section \<open>The queue\<close>

datatype phase = Waiting | Running | Done

record cqueue =
  phases :: "phase list"
  cq_running :: bool
  cq_waiting :: int
  queued_flags :: "bool list"

definition cq0 :: cqueue where
  "cq0 = \<lparr>phases = [], cq_running = False, cq_waiting = 0, queued_flags = []\<rparr>"

primrec tail_resolved :: "phase list \<Rightarrow> nat \<Rightarrow> bool" where
  "tail_resolved ps 0 = True"
| "tail_resolved ps (Suc i) = (tail_resolved ps i \<and> ps ! i = Done)"

definition cq_arrive :: "cqueue \<Rightarrow> cqueue" where
  "cq_arrive q = q\<lparr>phases := phases q @ [Waiting], cq_waiting := cq_waiting q + 1,
     queued_flags := queued_flags q @ [cq_running q \<or> 0 < cq_waiting q]\<rparr>"

definition cq_start :: "nat \<Rightarrow> cqueue \<Rightarrow> cqueue option" where
  "cq_start i q =
     (if i < length (phases q) \<and> phases q ! i = Waiting \<and> tail_resolved (phases q) i
      then Some (q\<lparr>phases := (phases q)[i := Running], cq_waiting := cq_waiting q - 1, cq_running := True\<rparr>) else None)"

definition cq_finish :: "nat \<Rightarrow> cqueue \<Rightarrow> cqueue option" where
  "cq_finish i q =
     (if i < length (phases q) \<and> phases q ! i = Running
      then Some (q\<lparr>phases := (phases q)[i := Done], cq_running := False\<rparr>) else None)"

inductive cq_step :: "cqueue \<Rightarrow> cqueue \<Rightarrow> bool" where
  arrive: "cq_step q (cq_arrive q)"
| start: "cq_start i q = Some q' \<Longrightarrow> cq_step q q'"
| finish: "cq_finish i q = Some q' \<Longrightarrow> cq_step q q'"

inductive cq_reachable :: "cqueue \<Rightarrow> bool" where
  init: "cq_reachable cq0"
| step: "cq_reachable q \<Longrightarrow> cq_step q q' \<Longrightarrow> cq_reachable q'"

lemma cq_reach_arrive: "cq_reachable q \<Longrightarrow> cq_reachable (cq_arrive q)"
  by (rule cq_reachable.step [OF _ cq_step.arrive])

section \<open>One cycle at a time, in the order of the requests\<close>

text \<open>The shape of the queue: finished requests, then at most one that runs, then those that wait.\<close>

definition shape :: "nat \<Rightarrow> bool \<Rightarrow> nat \<Rightarrow> phase list" where
  "shape d r w = replicate d Done @ (if r then [Running] else []) @ replicate w Waiting"

definition cq_inv :: "cqueue \<Rightarrow> bool" where
  "cq_inv q \<longleftrightarrow> (\<exists>d w. phases q = shape d (cq_running q) w \<and> cq_waiting q = int w)"

lemma tail_resolved_iff: "tail_resolved ps i \<longleftrightarrow> (\<forall>j < i. ps ! j = Done)"
  by (induction i) (auto simp: less_Suc_eq)

lemma shape_nth:
  "i < length (shape d r w) \<Longrightarrow> shape d r w ! i = (if i < d then Done else if r \<and> i = d then Running else Waiting)"
  by (auto simp: shape_def nth_append nth_Cons split: nat.splits)

lemma shape_length [simp]: "length (shape d r w) = d + of_bool r + w"
  by (simp add: shape_def)

lemma shape_start: "(shape d False (Suc w))[d := Running] = shape d True w"
  by (simp add: shape_def list_update_append)

lemma shape_finish: "(shape d True w)[d := Done] = shape (Suc d) False w"
  by (simp add: shape_def list_update_append replicate_app_Cons_same)

lemma shape_arrive: "shape d r w @ [Waiting] = shape d r (Suc w)"
  by (simp add: shape_def replicate_append_same)

lemma cq_arrive_inv: "cq_inv q \<Longrightarrow> cq_inv (cq_arrive q)"
  unfolding cq_inv_def cq_arrive_def by (force simp: shape_arrive)

lemma cq_start_only_next:
  assumes "cq_inv q" "cq_start i q = Some q'"
  obtains w where "phases q = shape i False (Suc w)" "\<not> cq_running q" "cq_waiting q = int (Suc w)"
    "q' = q\<lparr>phases := shape i True w, cq_waiting := int w, cq_running := True\<rparr>"
proof -
  from assms(1) obtain d w where q: "phases q = shape d (cq_running q) w" "cq_waiting q = int w" by (auto simp: cq_inv_def)
  from assms(2) have g: "i < length (phases q)" "phases q ! i = Waiting" "\<forall>j < i. phases q ! j = Done"
    "q' = q\<lparr>phases := (phases q)[i := Running], cq_waiting := cq_waiting q - 1, cq_running := True\<rparr>"
    by (auto simp: cq_start_def tail_resolved_iff split: if_splits)
  have "d \<le> i" "\<not> (cq_running q \<and> i = d)" using g(1,2) unfolding q(1) by (auto simp: shape_nth split: if_splits)
  have "\<not> d < i"
  proof
    assume "d < i"
    with g(1,3) have "phases q ! d = Done" by blast
    with g(1) \<open>d < i\<close> show False using shape_nth [of d d "cq_running q" w] unfolding q(1)
      by (cases "cq_running q") simp_all
  qed
  with \<open>d \<le> i\<close> have i: "i = d" by simp
  with \<open>\<not> (cq_running q \<and> i = d)\<close> have r: "\<not> cq_running q" by simp
  with i g(1) q(1) obtain v where w: "w = Suc v" by (cases w) auto
  show thesis
    by (rule that [of v]) (use q r w i g(4) shape_start [of d v] in simp_all)
qed

lemma cq_finish_inv:
  assumes "cq_inv q" "cq_finish i q = Some q'"
  shows "cq_inv q'"
proof -
  from assms(1) obtain d w where q: "phases q = shape d (cq_running q) w" "cq_waiting q = int w" by (auto simp: cq_inv_def)
  from assms(2) have g: "i < length (phases q)" "phases q ! i = Running"
    "q' = q\<lparr>phases := (phases q)[i := Done], cq_running := False\<rparr>"
    by (auto simp: cq_finish_def split: if_splits)
  then have "cq_running q" "i = d" unfolding q(1) by (auto simp: shape_nth split: if_splits)
  then show ?thesis using q g(3) shape_finish [of d w] by (auto simp: cq_inv_def)
qed

lemma cq_step_inv: "cq_step q q' \<Longrightarrow> cq_inv q \<Longrightarrow> cq_inv q'"
proof (induction rule: cq_step.induct)
  case (start i q q')
  from start.prems start.hyps show ?case
    by (rule cq_start_only_next) (auto simp: cq_inv_def)
qed (auto intro: cq_arrive_inv cq_finish_inv)

lemma cq_reachable_inv: "cq_reachable q \<Longrightarrow> cq_inv q"
proof (induction rule: cq_reachable.induct)
  case init
  show ?case by (auto simp: cq_inv_def cq0_def shape_def intro: exI [of _ 0])
qed (rule cq_step_inv)

text \<open>
  C35. In every reachable state the requests are in the order in which they came: the finished ones, at most one that
  runs, exactly when the flag \<open>running\<close> is set, and the waiting ones, whose number is \<open>waiting\<close>.
\<close>

theorem consolidation_fifo:
  assumes "cq_reachable q"
  shows "\<exists>d w. phases q = replicate d Done @ (if cq_running q then [Running] else []) @ replicate w Waiting \<and> cq_waiting q = int w"
  using cq_reachable_inv [OF assms] unfolding cq_inv_def shape_def .

lemma consolidation_fifo_witness:
  "\<exists>d w. phases (cq_arrive (cq_arrive cq0)) =
     replicate d Done @ (if cq_running (cq_arrive (cq_arrive cq0)) then [Running] else []) @ replicate w Waiting \<and>
     cq_waiting (cq_arrive (cq_arrive cq0)) = int w"
  by (rule consolidation_fifo) (intro cq_reach_arrive cq_reachable.init)

section \<open>No request waits for ever\<close>

text \<open>What the requests still have to do.\<close>

definition todo :: "cqueue \<Rightarrow> nat" where
  "todo q = sum_list (map (\<lambda>p. case p of Waiting \<Rightarrow> 2 | Running \<Rightarrow> 1 | Done \<Rightarrow> 0) (phases q))"

lemma todo_shape: "phases q = shape d r w \<Longrightarrow> todo q = of_bool r + 2 * w"
  by (simp add: todo_def shape_def sum_list_replicate)

text \<open>
  C40. While a request is not finished, the head of the queue can start or finish, and doing so leaves less to do: if
  every cycle ends, every request runs.  A request is reported as queued exactly when another one was not finished.
\<close>

theorem consolidation_progress:
  assumes "cq_reachable q"
  shows "((\<exists>i < length (phases q). phases q ! i \<noteq> Done) \<longrightarrow>
      (\<exists>i q'. (cq_start i q = Some q' \<or> cq_finish i q = Some q') \<and> todo q' < todo q)) \<and>
    (last (queued_flags (cq_arrive q)) \<longleftrightarrow> (\<exists>i < length (phases q). phases q ! i \<noteq> Done))"
proof -
  from cq_reachable_inv [OF assms] obtain d w where q: "phases q = shape d (cq_running q) w" "cq_waiting q = int w"
    by (auto simp: cq_inv_def)
  have ex: "(\<exists>i < length (phases q). phases q ! i \<noteq> Done) \<longleftrightarrow> cq_running q \<or> 0 < w"
  proof
    assume "cq_running q \<or> 0 < w"
    then show "\<exists>i < length (phases q). phases q ! i \<noteq> Done"
      by (intro exI [of _ d]) (auto simp: q shape_nth)
  qed (cases "cq_running q"; auto simp: q shape_nth split: if_splits)
  have "\<exists>i q'. (cq_start i q = Some q' \<or> cq_finish i q = Some q') \<and> todo q' < todo q" if "cq_running q \<or> 0 < w"
  proof (cases "cq_running q")
    case True
    have "cq_finish d q = Some (q\<lparr>phases := shape (Suc d) False w, cq_running := False\<rparr>)"
      using True q shape_nth [of d d True w] shape_finish [of d w] by (simp add: cq_finish_def)
    moreover have "todo (q\<lparr>phases := shape (Suc d) False w, cq_running := False\<rparr>) < todo q"
      using True q by (simp add: todo_shape [where r = True] todo_shape [where r = False])
    ultimately show ?thesis by blast
  next
    case False
    with that obtain v where w: "w = Suc v" by (cases w) auto
    have "cq_start d q = Some (q\<lparr>phases := shape d True v, cq_waiting := cq_waiting q - 1, cq_running := True\<rparr>)"
      using False q w shape_start [of d v] by (simp add: cq_start_def tail_resolved_iff shape_nth)
    moreover have "todo (q\<lparr>phases := shape d True v, cq_waiting := cq_waiting q - 1, cq_running := True\<rparr>) < todo q"
      using False q w by (simp add: todo_shape [where r = True] todo_shape [where r = False])
    ultimately show ?thesis by blast
  qed
  with ex q show ?thesis by (simp add: cq_arrive_def)
qed

lemma consolidation_progress_witness:
  "\<exists>i q'. (cq_start i (cq_arrive cq0) = Some q' \<or> cq_finish i (cq_arrive cq0) = Some q') \<and> todo q' < todo (cq_arrive cq0)"
proof -
  have "cq_reachable (cq_arrive cq0)" by (intro cq_reach_arrive cq_reachable.init)
  moreover have "\<exists>i < length (phases (cq_arrive cq0)). phases (cq_arrive cq0) ! i \<noteq> Done" by (simp add: cq_arrive_def cq0_def)
  ultimately show ?thesis using consolidation_progress [of "cq_arrive cq0"] by blast
qed

end
