(* ===== verification/Ranking.thy ===== *)
theory Ranking
  imports Lifecycle "HOL-Library.Multiset" "HOL-Library.Sublist"
begin

text \<open>
  The ranking of search results: the functions on fragments of \<open>lib/memory/read/FragmentSearch.js\<close> (fusion of ranked
  layers, composite score, removal of duplicates, diversity, token budget, keywords of a text, lexical match) and
  \<open>computeRecallScore\<close> of \<open>lib/memory/processors/MemoryRecaller.js\<close>.

  A \<open>hit\<close> is a fragment as the search passes it on: a column that the query did not select is \<open>None\<close>, like one that
  is null.  The encoder behind \<open>countTokens\<close> is the parameter \<open>tok\<close>.  Scores are real numbers; \<open>Array.sort\<close> is
  stable, like \<open>sort_key\<close>.
\<close>

section \<open>Hits\<close>

record hit =
  h_id :: string
  h_content :: "string option"
  h_topic :: "string option"
  h_keywords :: "string list"
  h_type :: "string option"
  h_importance :: "real option"
  h_created :: "int option"
  h_accessed :: "int option"
  h_anchor :: bool
  h_expired :: bool
  h_agent :: "string option"
  h_key :: "string option"
  h_workspace :: "string option"
  h_case :: "string option"
  h_status :: "string option"
  h_phase :: "string option"
  h_affect :: "string option"
  h_tokens :: "nat option"
  h_ema :: "real option"
  h_similarity :: "real option"
  h_rrf :: "real option"
  h_rerank :: "real option"
  h_exact :: bool
  h_supplement :: bool
  h_linked :: bool

definition bare_hit :: "string \<Rightarrow> hit" where
  "bare_hit i =
     \<lparr>h_id = i, h_content = None, h_topic = None, h_keywords = [], h_type = None, h_importance = None, h_created = None,
      h_accessed = None, h_anchor = False, h_expired = False, h_agent = None, h_key = None, h_workspace = None, h_case = None, h_status = None,
      h_phase = None, h_affect = None, h_tokens = None, h_ema = None, h_similarity = None, h_rrf = None, h_rerank = None,
      h_exact = False, h_supplement = False, h_linked = False\<rparr>"

lemma bare_hit_id [simp]: "h_id (bare_hit i) = i"
  by (simp add: bare_hit_def)

text \<open>The elements of a list in the order of their first occurrence, as a \<open>Set\<close> or \<open>Map\<close> keeps them.\<close>

definition nub :: "'a list \<Rightarrow> 'a list" where
  "nub xs = rev (remdups (rev xs))"

lemma nub_simps [simp]:
  "nub [] = []" "set (nub xs) = set xs" "distinct (nub xs)"
  "nub (xs @ [x]) = (if x \<in> set xs then nub xs else nub xs @ [x])"
  by (simp_all add: nub_def)

text \<open>The truthiness of a number, \<open>x || d\<close>.\<close>

definition num_or :: "real option \<Rightarrow> real \<Rightarrow> real" where
  "num_or x d = (case x of None \<Rightarrow> d | Some v \<Rightarrow> if v = 0 then d else v)"

section \<open>Fusion of ranked layers\<close>

datatype item = IdOnly string | Row hit

record layer =
  l_items :: "item list"
  l_weight :: real

fun item_id :: "item \<Rightarrow> string" where
  "item_id (IdOnly i) = i"
| "item_id (Row h) = h_id h"

fun item_hit :: "item \<Rightarrow> hit" where
  "item_hit (IdOnly i) = bare_hit i"
| "item_hit (Row h) = h"

definition rrf_add :: "real \<Rightarrow> real \<Rightarrow> nat \<times> item \<Rightarrow> (string, hit) jsmap \<Rightarrow> (string, hit) jsmap" where
  "rrf_add k w e m =
     (let s = w / (k + real (fst e) + 1); i = item_id (snd e)
      in AList.update i
           (case map_of m i of
              Some h \<Rightarrow> h\<lparr>h_rrf := Some (num_or (h_rrf h) 0 + s)\<rparr>
            | None \<Rightarrow> (item_hit (snd e))\<lparr>h_rrf := Some s\<rparr>) m)"

definition by_score :: "(hit \<Rightarrow> real) \<Rightarrow> hit list \<Rightarrow> hit list" where
  "by_score score hs = sort_key (\<lambda>h. - score h) hs"

definition mergeRRF :: "layer list \<Rightarrow> real \<Rightarrow> hit list" where
  "mergeRRF layers k =
     by_score (\<lambda>h. num_or (h_rrf h) 0)
       (map snd (fold (\<lambda>l. fold (rrf_add k (l_weight l)) (enumerate 0 (l_items l))) layers []))"

definition applyImportanceCutoff :: "hit list \<Rightarrow> real option \<Rightarrow> real option \<Rightarrow> hit list" where
  "applyImportanceCutoff hs defaultFloor explicitMin =
     (case nullish explicitMin defaultFloor of
        None \<Rightarrow> hs
      | Some least \<Rightarrow> filter (\<lambda>h. h_anchor h \<or> h_importance h = None \<or> least \<le> the (h_importance h)) hs)"

section \<open>Composite score\<close>

record rank_cfg =
  importanceWeight :: real
  recencyWeight :: real
  semanticWeight :: real
  recencyHalfLifeDays :: real
  lexicalWeightReranked :: real
  lexicalWeightFallback :: real
  lexicalLinkedMultiplier :: real
  lexicalSaturation :: real
  unrerankedBaseDiscount :: real
  exactKeywordBoost :: real
  exactSlotShare :: real
  semanticSlotShare :: real

definition RANKING :: rank_cfg where
  "RANKING =
     \<lparr>importanceWeight = 4 / 10, recencyWeight = 3 / 10, semanticWeight = 3 / 10, recencyHalfLifeDays = 30,
      lexicalWeightReranked = 12 / 100, lexicalWeightFallback = 18 / 100, lexicalLinkedMultiplier = 1 / 2,
      lexicalSaturation = 8, unrerankedBaseDiscount = 85 / 100, exactKeywordBoost = 35 / 100,
      exactSlotShare = 1 / 2, semanticSlotShare = 1 / 4\<rparr>"

definition proximity :: "int \<Rightarrow> int \<Rightarrow> hit \<Rightarrow> real" where
  "proximity now anchorTime h =
     2 powr (- (\<bar>real_of_int (anchorTime - nullish_to (h_created h) now)\<bar> / 86400000) / recencyHalfLifeDays RANKING)"

definition computeRankScore :: "int \<Rightarrow> int \<Rightarrow> hit \<Rightarrow> real" where
  "computeRankScore now anchorTime h =
     (let effectiveImp = min 1 (num_or (h_importance h) 0 + computeEmaRankBoost (h_ema h) * (1 / 2));
          similarity = num_or (h_similarity h) (num_or (h_rrf h) 0)
      in effectiveImp * importanceWeight RANKING + proximity now anchorTime h * recencyWeight RANKING
         + similarity * semanticWeight RANKING + (if h_exact h then exactKeywordBoost RANKING else 0))"

definition score_of :: "int \<Rightarrow> int \<Rightarrow> hit \<Rightarrow> real" where
  "score_of now anchorTime h = (case h_rerank h of Some s \<Rightarrow> s | None \<Rightarrow> computeRankScore now anchorTime h)"

definition better_copy :: "hit \<Rightarrow> hit \<Rightarrow> bool" where
  "better_copy f existing \<longleftrightarrow>
     num_or (h_similarity f) 0 \<noteq> 0 \<and>
     (num_or (h_similarity existing) 0 = 0 \<or> num_or (h_similarity existing) 0 < num_or (h_similarity f) 0)"

definition dedup_add :: "hit \<Rightarrow> (string, hit) jsmap \<Rightarrow> (string, hit) jsmap" where
  "dedup_add f m =
     (case map_of m (h_id f) of
        None \<Rightarrow> AList.update (h_id f) f m
      | Some existing \<Rightarrow>
          if better_copy f existing then AList.update (h_id f) (if h_exact existing then f\<lparr>h_exact := True\<rparr> else f) m else m)"

definition deduplicate :: "int \<Rightarrow> int \<Rightarrow> hit list \<Rightarrow> hit list" where
  "deduplicate now anchorTime hs = by_score (score_of now anchorTime) (map snd (fold dedup_add hs []))"

section \<open>Diversity\<close>

definition keyword_overlap :: "hit \<Rightarrow> hit \<Rightarrow> real" where
  "keyword_overlap a b =
     (if h_keywords a = [] \<or> h_keywords b = [] then 0
      else real (length (filter (\<lambda>k. k \<in> set (h_keywords a)) (h_keywords b)))
         / real (max (length (h_keywords a)) (length (h_keywords b))))"

definition mmr_score :: "real \<Rightarrow> hit list \<Rightarrow> hit \<Rightarrow> real" where
  "mmr_score lam selected c =
     lam * num_or (h_rerank c) (num_or (h_rrf c) 0) - (1 - lam) * fold (\<lambda>s m. max m (keyword_overlap c s)) selected 0"

text \<open>The first of the best elements, with what stands before and behind it.\<close>

fun pick_best :: "('a \<Rightarrow> real) \<Rightarrow> 'a list \<Rightarrow> 'a list \<times> 'a \<times> 'a list" where
  "pick_best s [x] = ([], x, [])"
| "pick_best s (x # y # ys) =
     (case pick_best s (y # ys) of (pre, b, post) \<Rightarrow> if s b \<le> s x then ([], x, y # ys) else (x # pre, b, post))"
| "pick_best s [] = undefined"

lemma pick_best_split: "xs \<noteq> [] \<Longrightarrow> pick_best s xs = (pre, b, post) \<Longrightarrow> xs = pre @ b # post"
proof (induction s xs arbitrary: pre rule: pick_best.induct)
  case (2 s x y ys)
  then show ?case by (auto split: prod.splits if_splits)
qed auto

lemma pick_best_best:
  "xs \<noteq> [] \<Longrightarrow> pick_best s xs = (pre, b, post) \<Longrightarrow> (\<forall>x \<in> set xs. s x \<le> s b) \<and> (\<forall>x \<in> set pre. s x < s b)"
proof (induction s xs arbitrary: pre b post rule: pick_best.induct)
  case (2 s x y ys)
  obtain p c q where r: "pick_best s (y # ys) = (p, c, q)" by (cases "pick_best s (y # ys)") auto
  from 2(1) [OF _ r] have "(\<forall>z \<in> set (y # ys). s z \<le> s c) \<and> (\<forall>z \<in> set p. s z < s c)" by simp
  with 2(3) r show ?case by (auto split: if_splits)
qed auto

function mmr_loop :: "(hit list \<Rightarrow> hit \<Rightarrow> real) \<Rightarrow> hit list \<Rightarrow> hit list \<Rightarrow> hit list" where
  "mmr_loop score selected [] = selected"
| "mmr_loop score selected (r # rs) =
     (let (pre, b, post) = pick_best (score selected) (r # rs) in mmr_loop score (selected @ [b]) (pre @ post))"
  by pat_completeness auto
termination
proof (relation "measure (\<lambda>(_, _, rs). length rs)", goal_cases)
  case (2 score selected r rs x pre y b post)
  then have "pick_best (score selected) (r # rs) = (pre, b, post)" by simp
  note pick_best_split [OF list.distinct(2) this]
  then have "length (r # rs) = length (pre @ b # post)" by (rule arg_cong)
  then show ?case by simp
qed simp

definition applyMMR :: "real \<Rightarrow> hit list \<Rightarrow> hit list" where
  "applyMMR lam hs =
     (case filter (\<lambda>h. h_similarity h \<noteq> None) hs of
        h # h' # rest \<Rightarrow> mmr_loop (mmr_score lam) [h] (h' # rest) @ filter (\<lambda>h. h_similarity h = None) hs
      | _ \<Rightarrow> hs)"

section \<open>Token budget\<close>

definition cost :: "(string \<Rightarrow> nat) \<Rightarrow> hit \<Rightarrow> nat" where
  "cost tok h =
     (case h_tokens h of Some n \<Rightarrow> if n = 0 then tok (nullish_to (h_content h) []) else n | None \<Rightarrow> tok (nullish_to (h_content h) []))"

definition estimateTokens :: "(string \<Rightarrow> nat) \<Rightarrow> hit list \<Rightarrow> nat" where
  "estimateTokens tok hs = sum_list (map (cost tok) hs)"

fun cut :: "(hit \<Rightarrow> nat) \<Rightarrow> nat \<Rightarrow> nat \<Rightarrow> hit list \<Rightarrow> hit list" where
  "cut c budget used [] = []"
| "cut c budget used (h # hs) = (if budget < used + c h then [] else h # cut c budget (used + c h) hs)"

text \<open>The three passes.  Their state is the list of ids picked, the tokens used, and in the second pass its own tokens.\<close>

fun pass_exact :: "(hit \<Rightarrow> nat) \<Rightarrow> real \<Rightarrow> hit list \<Rightarrow> string list \<times> nat \<Rightarrow> string list \<times> nat" where
  "pass_exact c share [] st = st"
| "pass_exact c share (h # hs) (picked, used) =
     (if \<not> h_exact h then pass_exact c share hs (picked, used)
      else if share < real (used + c h) then (picked, used)
      else pass_exact c share hs (h_id h # picked, used + c h))"

fun pass_supplement ::
  "(hit \<Rightarrow> nat) \<Rightarrow> real \<Rightarrow> nat \<Rightarrow> hit list \<Rightarrow> nat \<Rightarrow> string list \<times> nat \<Rightarrow> string list \<times> nat" where
  "pass_supplement c share budget [] sem st = st"
| "pass_supplement c share budget (h # hs) sem (picked, used) =
     (if h_id h \<in> set picked \<or> \<not> h_supplement h then pass_supplement c share budget hs sem (picked, used)
      else if share < real (sem + c h) then (picked, used)
      else if budget < used + c h then (picked, used)
      else pass_supplement c share budget hs (sem + c h) (h_id h # picked, used + c h))"

fun pass_rest :: "(hit \<Rightarrow> nat) \<Rightarrow> nat \<Rightarrow> hit list \<Rightarrow> string list \<times> nat \<Rightarrow> string list \<times> nat" where
  "pass_rest c budget [] st = st"
| "pass_rest c budget (h # hs) (picked, used) =
     (if h_id h \<in> set picked then pass_rest c budget hs (picked, used)
      else if budget < used + c h then pass_rest c budget hs (picked, used)
      else pass_rest c budget hs (h_id h # picked, used + c h))"

definition trim_picks :: "(hit \<Rightarrow> nat) \<Rightarrow> nat \<Rightarrow> hit list \<Rightarrow> string list \<times> nat" where
  "trim_picks c budget hs =
     pass_rest c budget hs
       (pass_supplement c (real budget * semanticSlotShare RANKING) budget hs 0
         (pass_exact c (real budget * exactSlotShare RANKING) hs ([], 0)))"

definition trimToTokenBudget :: "(string \<Rightarrow> nat) \<Rightarrow> nat \<Rightarrow> hit list \<Rightarrow> hit list" where
  "trimToTokenBudget tok budget hs =
     (if \<not> list_ex (\<lambda>h. h_exact h \<or> h_supplement h) hs then cut (cost tok) budget 0 hs
      else filter (\<lambda>h. h_id h \<in> set (fst (trim_picks (cost tok) budget hs))) hs)"

section \<open>The fusion is the sum of reciprocal ranks\<close>

text \<open>The reference: what the layers give to an id, and the first form in which they have it.\<close>

definition rrf_score :: "real \<Rightarrow> layer list \<Rightarrow> string \<Rightarrow> real" where
  "rrf_score k layers i =
     (\<Sum>l \<leftarrow> layers. \<Sum>(r, it) \<leftarrow> enumerate 0 (l_items l). if item_id it = i then l_weight l / (k + real r + 1) else 0)"

definition all_items :: "layer list \<Rightarrow> item list" where
  "all_items layers = concat (map l_items layers)"

definition first_form :: "item list \<Rightarrow> string \<Rightarrow> hit" where
  "first_form its i = item_hit (the (find (\<lambda>it. item_id it = i) its))"

definition fused :: "real \<Rightarrow> layer list \<Rightarrow> hit list" where
  "fused k layers =
     map (\<lambda>i. (first_form (all_items layers) i)\<lparr>h_rrf := Some (rrf_score k layers i)\<rparr>) (nub (map item_id (all_items layers)))"

text \<open>The entries of all layers with their contributions.\<close>

definition shares :: "real \<Rightarrow> layer list \<Rightarrow> (real \<times> item) list" where
  "shares k layers = concat (map (\<lambda>l. map (\<lambda>(r, it). (l_weight l / (k + real r + 1), it)) (enumerate 0 (l_items l))) layers)"

definition add_share :: "real \<times> item \<Rightarrow> (string, hit) jsmap \<Rightarrow> (string, hit) jsmap" where
  "add_share e m =
     AList.update (item_id (snd e))
       (case map_of m (item_id (snd e)) of
          Some h \<Rightarrow> h\<lparr>h_rrf := Some (num_or (h_rrf h) 0 + fst e)\<rparr>
        | None \<Rightarrow> (item_hit (snd e))\<lparr>h_rrf := Some (fst e)\<rparr>) m"

definition share_sum :: "(real \<times> item) list \<Rightarrow> string \<Rightarrow> real" where
  "share_sum es i = (\<Sum>(s, it) \<leftarrow> es. if item_id it = i then s else 0)"

lemma num_or_Some [simp]: "num_or (Some x) 0 = x" "num_or None d = d"
  by (simp_all add: num_or_def)

lemma fold_shares: "fold (rrf_add k w) es m = fold add_share (map (\<lambda>(r, it). (w / (k + real r + 1), it)) es) m"
  by (induction es arbitrary: m) (auto simp: rrf_add_def add_share_def Let_def cong: option.case_cong)

lemma fold_layers:
  "fold (\<lambda>l. fold (rrf_add k (l_weight l)) (enumerate 0 (l_items l))) layers m = fold add_share (shares k layers) m"
  by (induction layers arbitrary: m) (simp_all add: shares_def fold_shares)

lemma shares_items: "map snd (shares k layers) = all_items layers"
  by (induction layers) (simp_all add: shares_def all_items_def comp_def split_def)

lemma share_sum_append: "share_sum (xs @ ys) i = share_sum xs i + share_sum ys i"
  by (simp add: share_sum_def)

lemma share_sum_layer:
  "share_sum (map (\<lambda>(r, it). (w / (k + real r + 1), it)) es) i =
     (\<Sum>(r, it) \<leftarrow> es. if item_id it = i then w / (k + real r + 1) else 0)"
  by (induction es) (auto simp: share_sum_def)

lemma shares_sum: "share_sum (shares k layers) i = rrf_score k layers i"
proof (induction layers)
  case (Cons l ls)
  have "shares k (l # ls) = map (\<lambda>(r, it). (l_weight l / (k + real r + 1), it)) (enumerate 0 (l_items l)) @ shares k ls"
    by (simp add: shares_def)
  then show ?case unfolding rrf_score_def by (simp only: share_sum_append share_sum_layer Cons rrf_score_def list.map sum_list.Cons)
qed (simp add: share_sum_def shares_def rrf_score_def)

text \<open>Updating a map that is written as a function on its keys.\<close>

lemma update_graph:
  "AList.update k v (map (\<lambda>i. (i, f i)) ks) = map (\<lambda>i. (i, (f(k := v)) i)) (if k \<in> set ks then ks else ks @ [k])" if "distinct ks"
  using that by (induction ks) auto

lemma map_of_graph: "map_of (map (\<lambda>i. (i, f i)) ks) k = (if k \<in> set ks then Some (f k) else None)"
  by (induction ks) auto

lemma find_snoc_Some: "find P xs = Some x \<Longrightarrow> find P (xs @ ys) = Some x"
  by (induction xs) auto

lemma find_snoc_None: "find P xs = None \<Longrightarrow> find P (xs @ ys) = find P ys"
  by (induction xs) (auto split: if_splits)

definition share_form :: "(real \<times> item) list \<Rightarrow> string \<Rightarrow> hit" where
  "share_form es i = (first_form (map snd es) i)\<lparr>h_rrf := Some (share_sum es i)\<rparr>"

lemma add_shares: "fold add_share es [] = map (\<lambda>i. (i, share_form es i)) (nub (map (item_id \<circ> snd) es))"
proof (induction es rule: rev_induct)
  case (snoc e es)
  obtain s it where e: "e = (s, it)" by (cases e)
  let ?ids = "nub (map (item_id \<circ> snd) es)"
  have form: "share_form (es @ [e]) i = (share_form es i)\<lparr>h_rrf := Some (share_sum es i + (if item_id it = i then s else 0))\<rparr>"
    if "i \<in> set ?ids" for i
  proof -
    from that have "find (\<lambda>it. item_id it = i) (map snd es) \<noteq> None" by (auto simp: find_None_iff)
    then obtain x where "find (\<lambda>it. item_id it = i) (map snd es) = Some x" by blast
    then show ?thesis by (simp add: share_form_def first_form_def find_snoc_Some share_sum_def e)
  qed
  have new: "share_form (es @ [e]) (item_id it) = (item_hit it)\<lparr>h_rrf := Some s\<rparr>" if "item_id it \<notin> set ?ids"
  proof -
    from that have n: "find (\<lambda>x. item_id x = item_id it) (map snd es) = None" unfolding find_None_iff by (force simp: image_iff)
    have "share_sum es (item_id it) = 0" using that unfolding share_sum_def by (induction es) (auto split: prod.splits)
    then show ?thesis by (simp add: share_form_def first_form_def find_snoc_None [OF n] share_sum_def e)
  qed
  have other: "share_form (es @ [e]) i = share_form es i" if "i \<in> set ?ids" "i \<noteq> item_id it" for i
    using form [OF that(1)] that(2) by (simp add: share_form_def)
  have m: "map_of (fold add_share es []) (item_id it) = (if item_id it \<in> set ?ids then Some (share_form es (item_id it)) else None)"
    unfolding snoc.IH by (rule map_of_graph)
  have rrf: "num_or (h_rrf (share_form es i)) 0 = share_sum es i" for i by (simp add: share_form_def)
  have "fold add_share (es @ [e]) [] = add_share (s, it) (map (\<lambda>i. (i, share_form es i)) ?ids)"
    by (simp add: snoc.IH e comp_def)
  also have "\<dots> = AList.update (item_id it) (share_form (es @ [e]) (item_id it)) (map (\<lambda>i. (i, share_form es i)) ?ids)"
    unfolding add_share_def snd_conv fst_conv map_of_graph
    by (cases "item_id it \<in> set ?ids") (simp_all only: form new rrf if_True if_False option.case refl not_False_eq_True)
  also have "\<dots> = map (\<lambda>i. (i, share_form (es @ [e]) i)) (if item_id it \<in> set ?ids then ?ids else ?ids @ [item_id it])"
    by (subst update_graph) (use other in auto)
  finally show ?case by (simp add: e comp_def)
qed simp

lemma mergeRRF_fused:
  "mergeRRF layers k = by_score (\<lambda>h. num_or (h_rrf h) 0) (fused k layers)"
proof -
  have "map snd (fold add_share (shares k layers) []) = fused k layers"
    unfolding add_shares fused_def share_form_def shares_sum
    by (simp add: comp_def shares_items [symmetric, of layers k])
  then show ?thesis unfolding mergeRRF_def fold_layers by simp
qed

text \<open>
  C19. Fusing ranked layers is the sum of reciprocal ranks: every id of any layer comes once, with the fields of the
  first entry that has it and the sum of weight / (k + rank) over all entries that have it, by descending score.
\<close>

theorem rrf_is_reciprocal_rank_sum:
  "mergeRRF layers k = by_score (\<lambda>h. num_or (h_rrf h) 0) (fused k layers)"
  by (rule mergeRRF_fused)

section \<open>Duplicates\<close>

text \<open>The copy that is kept of an id: a later one replaces it only with a greater similarity.\<close>

definition best_copy :: "hit list \<Rightarrow> string \<Rightarrow> hit option" where
  "best_copy hs i =
     fold (\<lambda>f b. case b of None \<Rightarrow> Some f
        | Some e \<Rightarrow> Some (if better_copy f e then if h_exact e then f\<lparr>h_exact := True\<rparr> else f else e)) (filter (\<lambda>h. h_id h = i) hs) None"

lemma dedup_fold: "fold dedup_add hs [] = map (\<lambda>i. (i, the (best_copy hs i))) (nub (map h_id hs)) \<and>
    (\<forall>i \<in> set (map h_id hs). best_copy hs i \<noteq> None)"
proof (induction hs rule: rev_induct)
  case (snoc f hs)
  let ?ids = "nub (map h_id hs)"
  have other: "best_copy (hs @ [f]) i = best_copy hs i" if "i \<noteq> h_id f" for i
    using that by (simp add: best_copy_def)
  have some: "best_copy hs i \<noteq> None" if "i \<in> set ?ids" for i
    using that snoc.IH [THEN conjunct2] unfolding nub_simps by blast
  have here: "best_copy (hs @ [f]) (h_id f) =
      (case best_copy hs (h_id f) of None \<Rightarrow> Some f
       | Some e \<Rightarrow> Some (if better_copy f e then if h_exact e then f\<lparr>h_exact := True\<rparr> else f else e))"
    by (simp add: best_copy_def)
  have none: "best_copy hs (h_id f) = None" if "h_id f \<notin> set ?ids"
  proof -
    from that have "filter (\<lambda>h. h_id h = h_id f) hs = []" unfolding filter_empty_conv nub_simps by (metis image_eqI list.set_map)
    then show ?thesis by (simp add: best_copy_def)
  qed
  have m: "map_of (fold dedup_add hs []) (h_id f) = (if h_id f \<in> set ?ids then Some (the (best_copy hs (h_id f))) else None)"
    unfolding snoc.IH [THEN conjunct1] by (rule map_of_graph)
  have upd: "AList.update (h_id f) v (map (\<lambda>i. (i, the (best_copy hs i))) ?ids) =
      map (\<lambda>i. (i, the (best_copy (hs @ [f]) i))) (if h_id f \<in> set ?ids then ?ids else ?ids @ [h_id f])"
    if "best_copy (hs @ [f]) (h_id f) = Some v" for v
    by (subst update_graph) (use that other in \<open>auto simp: fun_upd_def\<close>)
  have "fold dedup_add (hs @ [f]) [] = dedup_add f (fold dedup_add hs [])" by simp
  also have "\<dots> = map (\<lambda>i. (i, the (best_copy (hs @ [f]) i))) (if h_id f \<in> set ?ids then ?ids else ?ids @ [h_id f])"
  proof (cases "h_id f \<in> set ?ids")
    case True
    from some [OF True] obtain e where e: "best_copy hs (h_id f) = Some e" by blast
    have keep: "map (\<lambda>i. (i, the (best_copy hs i))) ?ids = map (\<lambda>i. (i, the (best_copy (hs @ [f]) i))) ?ids"
      if "best_copy (hs @ [f]) (h_id f) = Some e" using that other e by (intro map_cong refl) (metis option.sel)
    show ?thesis
    proof (cases "better_copy f e")
      case True
      with here e have "best_copy (hs @ [f]) (h_id f) = Some (if h_exact e then f\<lparr>h_exact := True\<rparr> else f)" by simp
      from upd [OF this] show ?thesis using True m e \<open>h_id f \<in> set ?ids\<close>
        unfolding dedup_add_def snoc.IH [THEN conjunct1] by simp
    next
      case False
      with here e have "best_copy (hs @ [f]) (h_id f) = Some e" by simp
      from keep [OF this] show ?thesis using False m e \<open>h_id f \<in> set ?ids\<close>
        unfolding dedup_add_def snoc.IH [THEN conjunct1] by simp
    qed
  next
    case False
    with here none have "best_copy (hs @ [f]) (h_id f) = Some f" by simp
    from upd [OF this] show ?thesis using False m unfolding dedup_add_def snoc.IH [THEN conjunct1] by simp
  qed
  finally have 1: "fold dedup_add (hs @ [f]) [] = map (\<lambda>i. (i, the (best_copy (hs @ [f]) i))) (nub (map h_id (hs @ [f])))" by simp
  have 2: "best_copy (hs @ [f]) i \<noteq> None" if "i \<in> set (map h_id (hs @ [f]))" for i
  proof (cases "i = h_id f")
    case True
    then show ?thesis using here by (simp split: option.splits)
  next
    case False
    with that some other show ?thesis by simp
  qed
  from 1 2 show ?case by blast
qed simp

lemma best_copy_step:
  "best_copy (hs @ [f]) i =
     (if h_id f \<noteq> i then best_copy hs i
      else case best_copy hs i of None \<Rightarrow> Some f
        | Some e \<Rightarrow> Some (if better_copy f e then if h_exact e then f\<lparr>h_exact := True\<rparr> else f else e))"
  by (simp add: best_copy_def)

lemma best_copy_best:
  assumes "\<forall>h \<in> set hs. 0 \<le> num_or (h_similarity h) 0" "best_copy hs i = Some b"
  shows "h_id b = i \<and> 0 \<le> num_or (h_similarity b) 0 \<and> (\<forall>h \<in> set hs. h_id h = i \<longrightarrow> num_or (h_similarity h) 0 \<le> num_or (h_similarity b) 0)"
  using assms
proof (induction hs arbitrary: b rule: rev_induct)
  case Nil
  then show ?case by (simp add: best_copy_def)
next
  case (snoc f hs)
  have nn: "\<forall>h \<in> set hs. 0 \<le> num_or (h_similarity h) 0" "0 \<le> num_or (h_similarity f) 0" using snoc.prems(1) by auto
  show ?case
  proof (cases "h_id f = i")
    case False
    with snoc.prems(2) have "best_copy hs i = Some b" by (simp add: best_copy_step)
    from snoc.IH [OF nn(1) this] False show ?thesis by auto
  next
    case True
    show ?thesis
    proof (cases "best_copy hs i")
      case None
      have "\<forall>h \<in> set hs. h_id h \<noteq> i"
      proof (rule ccontr)
        assume "\<not> ?thesis"
        then have "i \<in> set (map h_id hs)" by force
        with dedup_fold [of hs] None show False by blast
      qed
      with None True snoc.prems(2) nn show ?thesis by (auto simp: best_copy_step)
    next
      case (Some e)
      from snoc.IH [OF nn(1) Some]
      have e: "h_id e = i" "0 \<le> num_or (h_similarity e) 0"
        "\<And>h. h \<in> set hs \<Longrightarrow> h_id h = i \<Longrightarrow> num_or (h_similarity h) 0 \<le> num_or (h_similarity e) 0" by auto
      show ?thesis
      proof (cases "better_copy f e")
        case True
        then have le: "num_or (h_similarity e) 0 \<le> num_or (h_similarity f) 0" using nn(2) by (auto simp: better_copy_def)
        have "b = (if h_exact e then f\<lparr>h_exact := True\<rparr> else f)"
          using snoc.prems(2) Some \<open>h_id f = i\<close> True by (simp add: best_copy_step)
        then have b: "h_id b = i" "h_similarity b = h_similarity f" using \<open>h_id f = i\<close> by simp_all
        show ?thesis unfolding b(1) b(2) using e(3) le nn(2) by force
      next
        case False
        have "b = e" using snoc.prems(2) Some \<open>h_id f = i\<close> False by (simp add: best_copy_step)
        moreover have "num_or (h_similarity f) 0 \<le> num_or (h_similarity e) 0" using False nn(2) e(2) by (auto simp: better_copy_def)
        ultimately show ?thesis using e by auto
      qed
    qed
  qed
qed

text \<open>
  Removing duplicates keeps every id once, with the greatest similarity any layer found for it, by descending score.
\<close>

theorem duplicates_keep_best:
  assumes "list_all (\<lambda>h. 0 \<le> num_or (h_similarity h) 0) hs"
  shows "distinct (map h_id (deduplicate now anchor hs)) \<and> set (map h_id (deduplicate now anchor hs)) = set (map h_id hs) \<and>
    sorted (map (\<lambda>h. - score_of now anchor h) (deduplicate now anchor hs)) \<and>
    list_all (\<lambda>b. list_all (\<lambda>h. h_id h = h_id b \<longrightarrow> num_or (h_similarity h) 0 \<le> num_or (h_similarity b) 0) hs) (deduplicate now anchor hs)"
proof -
  let ?d = "map (\<lambda>i. the (best_copy hs i)) (nub (map h_id hs))"
  have d: "deduplicate now anchor hs = by_score (score_of now anchor) ?d"
    unfolding deduplicate_def dedup_fold [THEN conjunct1] by (simp add: comp_def)
  have nn: "\<forall>h \<in> set hs. 0 \<le> num_or (h_similarity h) 0" using assms by (simp add: list_all_iff)
  have b: "h_id (the (best_copy hs i)) = i \<and>
      (\<forall>h \<in> set hs. h_id h = i \<longrightarrow> num_or (h_similarity h) 0 \<le> num_or (h_similarity (the (best_copy hs i))) 0)"
    if "i \<in> set (nub (map h_id hs))" for i
  proof -
    from that dedup_fold [of hs] obtain x where x: "best_copy hs i = Some x" unfolding nub_simps by blast
    with best_copy_best [OF nn x] show ?thesis by simp
  qed
  have ids: "map h_id ?d = nub (map h_id hs)" unfolding map_map comp_def using b by (intro map_idI) blast
  have mset: "mset (deduplicate now anchor hs) = mset ?d" unfolding d by_score_def by simp
  have "mset (map h_id (deduplicate now anchor hs)) = mset (nub (map h_id hs))"
    using arg_cong [OF mset, of "image_mset h_id"] ids by (metis mset_map)
  then have "distinct (map h_id (deduplicate now anchor hs))" "set (map h_id (deduplicate now anchor hs)) = set (map h_id hs)"
    using mset_eq_imp_distinct_iff mset_eq_setD nub_simps(2,3) by metis+
  moreover have "sorted (map (\<lambda>h. - score_of now anchor h) (deduplicate now anchor hs))" unfolding d by_score_def by simp
  moreover have "set (deduplicate now anchor hs) = set ?d" using mset by (metis set_mset_mset)
  then have "list_all (\<lambda>b. list_all (\<lambda>h. h_id h = h_id b \<longrightarrow> num_or (h_similarity h) 0 \<le> num_or (h_similarity b) 0) hs)
      (deduplicate now anchor hs)"
    unfolding list_all_iff using b by auto
  ultimately show ?thesis by blast
qed

section \<open>Diversity only reorders\<close>

lemma mmr_loop_mset: "mset (mmr_loop score selected rs) = mset selected + mset rs"
proof (induction score selected rs rule: mmr_loop.induct)
  case (2 score selected r rs)
  obtain pre b post where p: "pick_best (score selected) (r # rs) = (pre, b, post)" by (cases "pick_best (score selected) (r # rs)") auto
  from pick_best_split [OF list.distinct(2) p] have m: "mset (r # rs) = mset (pre @ b # post)" by (rule arg_cong)
  have "mset (mmr_loop score selected (r # rs)) = mset (mmr_loop score (selected @ [b]) (pre @ post))" by (simp add: p)
  also have "\<dots> = mset (selected @ [b]) + mset (pre @ post)" by (rule 2 [OF p [symmetric] refl refl])
  also have "\<dots> = mset selected + mset (r # rs)" unfolding m by simp
  finally show ?case .
qed simp

lemma mmr_loop_prefix: "\<exists>r. mmr_loop score selected rs = selected @ r"
proof (induction score selected rs rule: mmr_loop.induct)
  case (2 score selected r rs)
  obtain pre b post where p: "pick_best (score selected) (r # rs) = (pre, b, post)" by (cases "pick_best (score selected) (r # rs)") auto
  from 2 [OF p [symmetric] refl refl] show ?case by (auto simp: p)
qed simp

text \<open>
  The choice of diverse results loses and invents nothing: it permutes the results, keeps the first one of those
  with a similarity in front, and leaves those without at the end in their order.
\<close>

theorem mmr_permutes:
  "mset (applyMMR lam hs) = mset hs \<and>
   (2 \<le> length (filter (\<lambda>h. h_similarity h \<noteq> None) hs) \<longrightarrow>
      hd (applyMMR lam hs) = hd (filter (\<lambda>h. h_similarity h \<noteq> None) hs) \<and>
      filter (\<lambda>h. h_similarity h = None) (applyMMR lam hs) = filter (\<lambda>h. h_similarity h = None) hs)"
proof (cases "filter (\<lambda>h. h_similarity h \<noteq> None) hs" rule: remdups_adj.cases)
  case (3 h h' rest)
  let ?loop = "mmr_loop (mmr_score lam) [h] (h' # rest)"
  have a: "applyMMR lam hs = ?loop @ filter (\<lambda>h. h_similarity h = None) hs" unfolding applyMMR_def 3 list.case ..
  have l: "mset ?loop = mset (filter (\<lambda>h. h_similarity h \<noteq> None) hs)" unfolding 3 mmr_loop_mset by simp
  have "mset (applyMMR lam hs) = mset (filter (\<lambda>h. h_similarity h \<noteq> None) hs) + mset (filter (\<lambda>h. h_similarity h = None) hs)"
    unfolding a using l by simp
  also have "\<dots> = mset hs" by (induction hs) auto
  finally have m: "mset (applyMMR lam hs) = mset hs" .
  have "set ?loop = set (filter (\<lambda>h. h_similarity h \<noteq> None) hs)" using l by (metis set_mset_mset)
  then have "filter (\<lambda>h. h_similarity h = None) ?loop = []" by (auto simp: filter_empty_conv)
  with a have "filter (\<lambda>h. h_similarity h = None) (applyMMR lam hs) = filter (\<lambda>h. h_similarity h = None) hs" by simp
  moreover obtain r where "?loop = [h] @ r" using mmr_loop_prefix by blast
  then have "hd (applyMMR lam hs) = h" by (simp add: a)
  ultimately show ?thesis using m 3 by simp
next
  case 1
  show ?thesis unfolding applyMMR_def 1 list.case by simp
next
  case (2 h)
  show ?thesis unfolding applyMMR_def 2 list.case by simp
qed

section \<open>The budget is kept and used\<close>

definition spent :: "(hit \<Rightarrow> nat) \<Rightarrow> string list \<Rightarrow> hit list \<Rightarrow> nat" where
  "spent c picked hs = sum_list (map c (filter (\<lambda>h. h_id h \<in> set picked) hs))"

lemma spent_Nil [simp]: "spent c [] hs = 0"
  by (simp add: spent_def)

lemma spent_add:
  "distinct (map h_id hs) \<Longrightarrow> h \<in> set hs \<Longrightarrow> h_id h \<notin> set picked \<Longrightarrow> spent c (h_id h # picked) hs = spent c picked hs + c h"
proof (induction hs)
  case (Cons x hs)
  show ?case
  proof (cases "x = h")
    case True
    with Cons.prems(1) have "filter (\<lambda>y. h_id y = h_id h \<or> h_id y \<in> set picked) hs = filter (\<lambda>y. h_id y \<in> set picked) hs"
      by (intro filter_cong refl) (auto simp: image_iff)
    with True Cons.prems(3) show ?thesis by (simp add: spent_def)
  next
    case False
    with Cons.prems have h: "h \<in> set hs" by simp
    with Cons.prems(1) have "h_id x \<noteq> h_id h" by (auto simp: image_iff)
    with Cons.IH [OF _ h Cons.prems(3)] Cons.prems(1) show ?thesis by (simp add: spent_def)
  qed
qed simp

lemma pass_exact_spec:
  assumes "pass_exact c share hs (picked, used) = (picked', used')"
    and "distinct (map h_id all)" "set hs \<subseteq> set all" "distinct (map h_id hs)" "set picked \<inter> h_id ` set hs = {}"
    and "used = spent c picked all" "real used \<le> share"
  shows "used' = spent c picked' all \<and> real used' \<le> share \<and> set picked \<subseteq> set picked' \<and>
    (real (used + sum_list (map c (filter h_exact hs))) \<le> share \<longrightarrow> h_id ` {h \<in> set hs. h_exact h} \<subseteq> set picked')"
  using assms(1,3-)
proof (induction hs arbitrary: picked used)
  case (Cons h hs)
  consider (plain) "\<not> h_exact h" | (full) "h_exact h" "share < real (used + c h)" | (pick) "h_exact h" "real (used + c h) \<le> share"
    by linarith
  then show ?case
  proof cases
    case plain
    with Cons.prems(1) have r: "pass_exact c share hs (picked, used) = (picked', used')" by simp
    note ih = Cons.IH [OF r]
    show ?thesis using ih Cons.prems(2-) plain by auto
  next
    case full
    have "real (used + c h) \<le> real (used + sum_list (map c (filter h_exact (h # hs))))" using full(1) by simp
    with full Cons.prems show ?thesis by auto
  next
    case pick
    with Cons.prems(1) have r: "pass_exact c share hs (h_id h # picked, used + c h) = (picked', used')" by simp
    have n: "h_id h \<notin> set picked" "h \<in> set all" using Cons.prems(2,4) by auto
    have "used + c h = spent c (h_id h # picked) all" using spent_add [OF assms(2) n(2,1)] Cons.prems(5) by simp
    note ih = Cons.IH [OF r _ _ _ this pick(2)]
    have "used' = spent c picked' all \<and> real used' \<le> share \<and> set (h_id h # picked) \<subseteq> set picked' \<and>
      (real (used + c h + sum_list (map c (filter h_exact hs))) \<le> share \<longrightarrow> h_id ` {h \<in> set hs. h_exact h} \<subseteq> set picked')"
      by (rule ih) (use Cons.prems(2-4) in auto)
    then show ?thesis using pick(1) by (auto simp: add.assoc)
  qed
qed auto

lemma pass_supplement_spec:
  assumes "pass_supplement c share budget hs sem (picked, used) = (picked', used')"
    and "distinct (map h_id all)" "set hs \<subseteq> set all" "used = spent c picked all" "used \<le> budget"
  shows "used' = spent c picked' all \<and> used' \<le> budget \<and> set picked \<subseteq> set picked'"
  using assms(1,3-)
proof (induction hs arbitrary: picked used sem)
  case (Cons h hs)
  show ?case
  proof (cases "h_id h \<in> set picked \<or> \<not> h_supplement h")
    case True
    with Cons.prems(1) have r: "pass_supplement c share budget hs sem (picked, used) = (picked', used')" by auto
    from Cons.IH [OF r] Cons.prems(2-) show ?thesis by auto
  next
    case False
    show ?thesis
    proof (cases "share < real (sem + c h) \<or> budget < used + c h")
      case True
      with False Cons.prems show ?thesis by (auto split: if_splits)
    next
      case fits: False
      with False Cons.prems(1)
      have r: "pass_supplement c share budget hs (sem + c h) (h_id h # picked, used + c h) = (picked', used')" by simp
      have "used + c h = spent c (h_id h # picked) all"
        using spent_add [OF assms(2), of h picked c] False Cons.prems(2,3) by simp
      from Cons.IH [OF r _ this] fits Cons.prems(2) show ?thesis by auto
    qed
  qed
qed auto

lemma pass_rest_spec:
  assumes "pass_rest c budget hs (picked, used) = (picked', used')"
    and "distinct (map h_id all)" "set hs \<subseteq> set all" "used = spent c picked all" "used \<le> budget"
  shows "used' = spent c picked' all \<and> used' \<le> budget \<and> used \<le> used' \<and> set picked \<subseteq> set picked' \<and>
    (\<forall>h \<in> set hs. h_id h \<notin> set picked' \<longrightarrow> budget < used' + c h)"
  using assms(1,3-)
proof (induction hs arbitrary: picked used)
  case (Cons h hs)
  show ?case
  proof (cases "h_id h \<in> set picked")
    case True
    with Cons.prems(1) have r: "pass_rest c budget hs (picked, used) = (picked', used')" by auto
    from Cons.IH [OF r] Cons.prems(2-) True show ?thesis by auto
  next
    case False
    show ?thesis
    proof (cases "budget < used + c h")
      case True
      with False Cons.prems(1) have r: "pass_rest c budget hs (picked, used) = (picked', used')" by auto
      from Cons.IH [OF r] Cons.prems(2-) True show ?thesis by auto
    next
      case fits: False
      with False Cons.prems(1) have r: "pass_rest c budget hs (h_id h # picked, used + c h) = (picked', used')" by simp
      have "used + c h = spent c (h_id h # picked) all"
        using spent_add [OF assms(2), of h picked c] False Cons.prems(2,3) by simp
      from Cons.IH [OF r _ this] fits Cons.prems(2) show ?thesis by auto
    qed
  qed
qed auto

lemma trim_picks_spec:
  assumes "distinct (map h_id hs)" "trim_picks c budget hs = (picked, used)"
  shows "used = spent c picked hs \<and> used \<le> budget \<and> (\<forall>h \<in> set hs. h_id h \<notin> set picked \<longrightarrow> budget < used + c h) \<and>
    (2 * sum_list (map c (filter h_exact hs)) \<le> budget \<longrightarrow> h_id ` {h \<in> set hs. h_exact h} \<subseteq> set picked)"
proof -
  let ?half = "real budget * exactSlotShare RANKING" and ?quarter = "real budget * semanticSlotShare RANKING"
  obtain p1 u1 where e: "pass_exact c ?half hs ([], 0) = (p1, u1)" by fastforce
  have h: "?half = real budget / 2" by (simp add: RANKING_def)
  have 1: "u1 = spent c p1 hs \<and> real u1 \<le> ?half \<and> set [] \<subseteq> set p1 \<and>
      (real (0 + sum_list (map c (filter h_exact hs))) \<le> ?half \<longrightarrow> h_id ` {h \<in> set hs. h_exact h} \<subseteq> set p1)"
    by (rule pass_exact_spec [OF e assms(1)]) (use assms(1) h in auto)
  obtain p2 u2 where s: "pass_supplement c ?quarter budget hs 0 (p1, u1) = (p2, u2)" by fastforce
  have b1: "u1 \<le> budget" using 1 h by linarith
  have 2: "u2 = spent c p2 hs \<and> u2 \<le> budget \<and> set p1 \<subseteq> set p2"
    by (rule pass_supplement_spec [OF s assms(1) subset_refl _ b1]) (use 1 in blast)
  have r: "pass_rest c budget hs (p2, u2) = (picked, used)" using assms(2) by (simp add: trim_picks_def e s)
  have 3: "used = spent c picked hs \<and> used \<le> budget \<and> u2 \<le> used \<and> set p2 \<subseteq> set picked \<and>
      (\<forall>h \<in> set hs. h_id h \<notin> set picked \<longrightarrow> budget < used + c h)"
    by (rule pass_rest_spec [OF r assms(1) subset_refl]) (use 2 in blast)+
  have "h_id ` {h \<in> set hs. h_exact h} \<subseteq> set picked" if "2 * sum_list (map c (filter h_exact hs)) \<le> budget"
  proof -
    have "2 * real (sum_list (map c (filter h_exact hs))) \<le> real budget" using that by linarith
    then have "real (0 + sum_list (map c (filter h_exact hs))) \<le> ?half" unfolding h by simp
    with 1 2 3 show ?thesis by blast
  qed
  with 3 show ?thesis by blast
qed

lemma cut_bound: "used \<le> budget \<Longrightarrow> used + sum_list (map c (cut c budget used hs)) \<le> budget"
proof (induction hs arbitrary: used)
  case (Cons h hs)
  from Cons.IH [of "used + c h"] Cons.prems show ?case by auto
qed simp

lemma cut_prefix: "\<exists>r. hs = cut c budget used hs @ r"
  by (induction hs arbitrary: used) auto


section \<open>Words of a query\<close>

definition word_start :: "char \<Rightarrow> bool" where
  "word_start x = (let n = (of_char x :: nat) in 48 \<le> n \<and> n \<le> 57 \<or> 65 \<le> n \<and> n \<le> 90 \<or> 97 \<le> n \<and> n \<le> 122)"

definition word_char :: "char \<Rightarrow> bool" where
  "word_char x \<longleftrightarrow> word_start x \<or> x \<in> set ''._-''"

text \<open>The matches of \<open>[A-Za-z0-9][A-Za-z0-9._-]{2,}\<close>, from left to right; the Hangul range is outside of Latin-1.\<close>

function word_matches :: "string \<Rightarrow> string list" where
  "word_matches [] = []"
| "word_matches (x # xs) =
     (if word_start x \<and> 2 \<le> length (takeWhile word_char xs)
      then (x # takeWhile word_char xs) # word_matches (dropWhile word_char xs) else word_matches xs)"
  by pat_completeness auto
termination
  by (relation "measure length") (auto simp: le_imp_less_Suc length_dropWhile_le)

text \<open>The Korean stop words cannot come up: no match has a Hangul letter.\<close>

definition STOPWORDS :: "string list" where
  "STOPWORDS =
     [''about'', ''health'', ''issue'', ''service'', ''status'', ''update'', ''check'', ''problem'',
      ''with'', ''from'', ''that'', ''this'', ''what'', ''when'', ''where'', ''why'', ''how'', ''the'',
      ''and'', ''for'', ''are'', ''was'', ''were'', ''has'', ''have'', ''had'', ''can'', ''will'',
      ''would'', ''should'', ''could'', ''into'', ''over'', ''more'', ''most'', ''some'', ''any'', ''all'']"

definition strip_word :: "string \<Rightarrow> string" where
  "strip_word w = rev (dropWhile (\<lambda>x. x \<in> set ''._-'') (rev (map js_lower w)))"

definition unique_strings :: "string list \<Rightarrow> string list" where
  "unique_strings ws = nub (filter (\<lambda>w. w \<noteq> []) ws)"

record lexical_query =
  lq_keywords :: "string list"
  lq_topic :: "string option"
  lq_implicit :: "string list"

definition deriveImplicitKeywords :: "string option \<Rightarrow> string option \<Rightarrow> string list \<Rightarrow> string list" where
  "deriveImplicitKeywords text_q topic keywords =
     (if \<not> truthy text_q \<or> truthy topic \<or> keywords \<noteq> [] then []
      else take 5 (filter (\<lambda>w. 3 \<le> length w \<and> w \<notin> set STOPWORDS) (unique_strings (map strip_word (word_matches (the text_q))))))"

definition lower :: "string \<Rightarrow> string" where
  "lower = map js_lower"

definition textKeywordCoverage :: "hit \<Rightarrow> string list \<Rightarrow> nat" where
  "textKeywordCoverage h keywords = length (filter (\<lambda>k. k \<in> set (map lower (h_keywords h))) keywords)"

fun join_dash :: "string list \<Rightarrow> string" where
  "join_dash [] = []"
| "join_dash [w] = w"
| "join_dash (w # v # ws) = w @ ''-'' @ join_dash (v # ws)"

definition keyword_points :: "hit \<Rightarrow> string \<Rightarrow> real" where
  "keyword_points h k =
     (if contains k (lower (nullish_to (h_topic h) [])) then 2
      else if list_ex (contains k) (map lower (h_keywords h)) then 3 / 2
      else if contains k (lower (nullish_to (h_content h) [])) then 1 else 0)"

definition lexicalMatchScore :: "hit \<Rightarrow> lexical_query \<Rightarrow> real" where
  "lexicalMatchScore h q =
     (let topic_points = (if truthy (lq_topic q) \<and> h_topic h = lq_topic q then 4 else 0);
          keywords = (if lq_keywords q = [] then lq_implicit q else lq_keywords q);
          normalized = unique_strings (map lower keywords)
      in topic_points + sum_list (map (keyword_points h) normalized)
         + (if keywords \<noteq> [] \<and> 1 < length normalized \<and> contains (join_dash normalized) (lower (nullish_to (h_topic h) [])) then 2 else 0))"

section \<open>The final score of a recall\<close>

definition recall_base :: "int \<Rightarrow> int \<Rightarrow> hit \<Rightarrow> real" where
  "recall_base now anchorTime h =
     (case h_rerank h of
        Some s \<Rightarrow> s
      | None \<Rightarrow>
          (num_or (h_importance h) 0 * importanceWeight RANKING + proximity now anchorTime h * recencyWeight RANKING
           + num_or (h_similarity h) 0 * semanticWeight RANKING) * unrerankedBaseDiscount RANKING)"

definition lexical_norm :: "real \<Rightarrow> real" where
  "lexical_norm raw = (if 0 < raw then min (ln (1 + raw) / ln (1 + lexicalSaturation RANKING)) 1 else 0)"

definition lexical_weight :: "hit \<Rightarrow> real" where
  "lexical_weight h =
     (if h_rerank h \<noteq> None then lexicalWeightReranked RANKING else lexicalWeightFallback RANKING)
     * (if h_linked h then lexicalLinkedMultiplier RANKING else 1)"

definition computeRecallScore :: "int \<Rightarrow> int \<Rightarrow> lexical_query \<Rightarrow> hit \<Rightarrow> real" where
  "computeRecallScore now anchorTime q h =
     recall_base now anchorTime h + lexical_norm (lexicalMatchScore h q) * lexical_weight h"

lemma lexical_norm_range: "0 \<le> lexical_norm raw \<and> lexical_norm raw \<le> 1"
proof (cases "0 < raw")
  case True
  then have "0 \<le> ln (1 + raw) / ln (1 + lexicalSaturation RANKING)" by (simp add: RANKING_def)
  with True show ?thesis by (simp add: lexical_norm_def)
qed (simp add: lexical_norm_def)

lemma lexical_weight_range: "0 \<le> lexical_weight h \<and> lexical_weight h \<le> 18 / 100"
  by (simp add: lexical_weight_def RANKING_def)

text \<open>
  Words never override the ranking: the lexical part of the score of a recall is at least 0 and at most 0.18 (0.12
  when the fragment was reranked), so a fragment whose base is better by more than that stays in front.
\<close>

theorem lexical_match_is_bounded:
  "recall_base now anchor h \<le> computeRecallScore now anchor q h \<and>
   computeRecallScore now anchor q h \<le> recall_base now anchor h + (if h_rerank h = None then 18 / 100 else 12 / 100) \<and>
   (recall_base now anchor h + 18 / 100 < recall_base now anchor h' \<longrightarrow>
      computeRecallScore now anchor q h < computeRecallScore now anchor q h')"
proof -
  have part: "0 \<le> lexical_norm (lexicalMatchScore g q) * lexical_weight g \<and>
      lexical_norm (lexicalMatchScore g q) * lexical_weight g \<le> (if h_rerank g = None then 18 / 100 else 12 / 100)" for g
  proof
    note n = lexical_norm_range [of "lexicalMatchScore g q"] and w = lexical_weight_range [of g]
    from n w show "0 \<le> lexical_norm (lexicalMatchScore g q) * lexical_weight g" by simp
    have "lexical_norm (lexicalMatchScore g q) * lexical_weight g \<le> 1 * lexical_weight g"
      using n w by (intro mult_right_mono) auto
    also have "\<dots> \<le> (if h_rerank g = None then 18 / 100 else 12 / 100)" by (simp add: lexical_weight_def RANKING_def)
    finally show "lexical_norm (lexicalMatchScore g q) * lexical_weight g \<le> (if h_rerank g = None then 18 / 100 else 12 / 100)" .
  qed
  from part [of h] part [of h'] show ?thesis by (auto simp: computeRecallScore_def split: if_splits)
qed

section \<open>Samples\<close>

definition hit_of :: "string \<Rightarrow> real option \<Rightarrow> bool \<Rightarrow> hit" where
  "hit_of i s exact = (bare_hit i)\<lparr>h_content := Some ''text'', h_similarity := s, h_exact := exact\<rparr>"

lemma hit_of_simps [simp]:
  "h_id (hit_of i s e) = i" "h_similarity (hit_of i s e) = s" "h_exact (hit_of i s e) = e" "h_supplement (hit_of i s e) = False"
  "h_tokens (hit_of i s e) = None" "h_content (hit_of i s e) = Some ''text''" "h_rerank (hit_of i s e) = None"
  "h_importance (hit_of i s e) = None" "h_created (hit_of i s e) = None"
  by (simp_all add: hit_of_def bare_hit_def)

lemma duplicates_keep_best_witness:
  "set (map h_id (deduplicate 0 0 [hit_of ''a'' None True, hit_of ''b'' None False, hit_of ''a'' (Some (1 / 2)) False])) = {''a'', ''b''}"
proof -
  have "list_all (\<lambda>h. 0 \<le> num_or (h_similarity h) 0)
      [hit_of ''a'' None True, hit_of ''b'' None False, hit_of ''a'' (Some (1 / 2)) False]" by (simp add: num_or_def)
  from duplicates_keep_best [OF this, of 0 0, THEN conjunct2, THEN conjunct1] show ?thesis by auto
qed

lemma mmr_permutes_witness:
  "hd (applyMMR (7 / 10) [hit_of ''x'' None False, hit_of ''a'' (Some 1) False, hit_of ''b'' (Some 1) False]) = hit_of ''a'' (Some 1) False"
  using mmr_permutes [of "7 / 10" "[hit_of ''x'' None False, hit_of ''a'' (Some 1) False, hit_of ''b'' (Some 1) False]"] by simp


lemma lexical_match_is_bounded_witness:
  "computeRecallScore 0 0 \<lparr>lq_keywords = [''text''], lq_topic = None, lq_implicit = []\<rparr> (hit_of ''a'' None False)
     < computeRecallScore 0 0 \<lparr>lq_keywords = [''text''], lq_topic = None, lq_implicit = []\<rparr> (hit_of ''b'' (Some 1) False)"
proof -
  have "recall_base 0 0 (hit_of ''a'' None False) + 18 / 100 < recall_base 0 0 (hit_of ''b'' (Some 1) False)"
    by (simp add: recall_base_def proximity_def RANKING_def num_or_def)
  with lexical_match_is_bounded [of 0 0 "hit_of ''a'' None False" _ "hit_of ''b'' (Some 1) False"] show ?thesis by blast
qed

text \<open>Words of a query: case and trailing punctuation go, stop words and short words too.\<close>

lemma words_of_query:
  "deriveImplicitKeywords (Some ''What is the JWT-auth. status of Redis?'') None [] = [''jwt-auth'', ''redis'']"
  by code_simp

text \<open>Two layers: the id that both have comes first, with the fields of the first layer.\<close>

lemma two_layers_fused:
  "map h_id (mergeRRF [\<lparr>l_items = [Row (hit_of ''a'' None False), Row (hit_of ''b'' None False)], l_weight = 1\<rparr>,
     \<lparr>l_items = [Row (hit_of ''b'' (Some 1) False)], l_weight = 1\<rparr>] 60) = [''b'', ''a'']"
  by (simp add: mergeRRF_fused fused_def all_items_def rrf_score_def first_form_def by_score_def nub_def num_or_def)

end
