(* ===== verification/Search.thy ===== *)
theory Search
  imports Ranking FragIndex "HOL-Library.List_Lexorder" "HOL-Library.Char_ord"
begin

text \<open>
  The search, \<open>lib/memory/read/FragmentSearch.js\<close>: the layers (index in Redis with its hot cache, keywords and
  topics in PostgreSQL, neighbours in the graph of links, vectors, time range), their fusion and the final selection;
  with the filter of \<open>SearchScope.js\<close>, the statements of \<open>FragmentReader.js\<close>, \<open>GraphNeighborSearch.js\<close>,
  \<open>assistant-query.js\<close> and the reranking of \<open>Reranker.js\<close>.

  The table is a list of \<open>hit\<close>s with all columns; a statement projects them to the columns that it selects.
  Arguments of the model are what other programs compute: \<open>sem\<close> (the similarity of a text to the embedding of a row;
  \<open>None\<close> when the embedding of the text fails), \<open>morph\<close> (the same for the morphemes of the text), the scores of the
  reranker.  Rows that a statement orders equally keep the order of the table, and entries of Redis with equal times
  the order of the sorted set.  Metrics, search events and the learning of thresholds are left out; the learned
  threshold is the argument \<open>adapted\<close>.
\<close>

section \<open>Queries\<close>

record query =
  q_keywords :: "string list"
  q_topic :: "string option"
  q_type :: "string option"
  q_text :: "string option"
  q_budget :: nat
  q_minImportance :: "real option"
  q_agent :: string
  q_key :: "string list option"
  q_workspace :: "string option"
  q_case :: "string option"
  q_status :: "string option"
  q_phase :: "string option"
  q_affect :: "string list option"
  q_isAnchor :: "bool option"
  q_superseded :: bool
  q_peers :: bool
  q_range :: "(int option \<times> int option) option"
  q_anchorTime :: int

text \<open>\<open>query.caseId || undefined\<close> and the other defaults of \<open>_buildSearchQuery\<close>.\<close>

definition or_undef :: "string option \<Rightarrow> string option" where
  "or_undef x = (if truthy x then x else None)"

definition buildSearchQuery :: "query \<Rightarrow> query" where
  "buildSearchQuery q =
     q\<lparr>q_budget := (if q_budget q = 0 then 1000 else q_budget q),
       q_agent := (if q_agent q = [] then ''default'' else q_agent q),
       q_case := or_undef (q_case q), q_status := or_undef (q_status q), q_phase := or_undef (q_phase q)\<rparr>"

section \<open>Scope\<close>

record scope =
  s_workspace :: "string option"
  s_case :: "string option"
  s_status :: "string option"
  s_phase :: "string option"
  s_affect :: "string list option"
  s_agent :: "string option"
  s_peers :: bool

definition scope_of :: "query \<Rightarrow> scope" where
  "scope_of q =
     \<lparr>s_workspace = q_workspace q, s_case = q_case q, s_status = q_status q, s_phase = q_phase q, s_affect = q_affect q,
      s_agent = Some (q_agent q), s_peers = q_peers q\<rparr>"

definition applyTo :: "scope \<Rightarrow> hit \<Rightarrow> bool" where
  "applyTo s h \<longleftrightarrow>
     (s_agent s = None \<or> s_peers s \<or> h_agent h = s_agent s \<or> h_agent h = Some ''default'') \<and>
     (s_workspace s = None \<or> h_workspace h = s_workspace s \<or> h_workspace h = None) \<and>
     (s_case s = None \<or> h_case h = s_case s) \<and>
     (s_status s = None \<or> h_status h = s_status s) \<and>
     (s_phase s = None \<or> h_phase h = s_phase s) \<and>
     (case s_affect s of None \<Rightarrow> True | Some as \<Rightarrow> \<exists>a \<in> set as. h_affect h = Some a)"

definition isNoop :: "scope \<Rightarrow> bool" where
  "isNoop s \<longleftrightarrow> s_agent s = None \<and> s_workspace s = None \<and> s_case s = None \<and> s_status s = None \<and> s_phase s = None \<and> s_affect s = None"

section \<open>Statements\<close>

definition agentScopeCond :: "string \<Rightarrow> bool \<Rightarrow> hit \<Rightarrow> bool" where
  "agentScopeCond agentId peers h \<longleftrightarrow> peers \<or> h_agent h = Some agentId \<or> h_agent h = Some ''default''"

definition key_any :: "string list option \<Rightarrow> hit \<Rightarrow> bool" where
  "key_any keys h \<longleftrightarrow> (case keys of None \<Rightarrow> True | Some ks \<Rightarrow> \<exists>k \<in> set ks. h_key h = Some k)"

definition workspace_cond :: "string option \<Rightarrow> hit \<Rightarrow> bool" where
  "workspace_cond w h \<longleftrightarrow> \<not> truthy w \<or> h_workspace h = w \<or> h_workspace h = None"

definition range_cond :: "(int option \<times> int option) option \<Rightarrow> hit \<Rightarrow> bool" where
  "range_cond r h \<longleftrightarrow>
     (case r of None \<Rightarrow> True
      | Some (from', to') \<Rightarrow>
          (case from' of None \<Rightarrow> True | Some t \<Rightarrow> (case h_created h of None \<Rightarrow> False | Some u \<Rightarrow> t \<le> u)) \<and>
          (case to' of None \<Rightarrow> True | Some t \<Rightarrow> (case h_created h of None \<Rightarrow> False | Some u \<Rightarrow> u < t)))"

definition equal_if :: "string option \<Rightarrow> string option \<Rightarrow> bool" where
  "equal_if wanted v \<longleftrightarrow> \<not> truthy wanted \<or> v = wanted"

definition narrative_cond :: "query \<Rightarrow> hit \<Rightarrow> bool" where
  "narrative_cond q h \<longleftrightarrow> equal_if (q_case q) (h_case h) \<and> equal_if (q_status q) (h_status h) \<and> equal_if (q_phase q) (h_phase h)"

definition appendAffectCondition :: "string list option \<Rightarrow> hit \<Rightarrow> bool" where
  "appendAffectCondition affect h \<longleftrightarrow> (case affect of Some (a # as) \<Rightarrow> \<exists>x \<in> set (a # as). h_affect h = Some x | _ \<Rightarrow> True)"

definition min_importance :: "query \<Rightarrow> hit \<Rightarrow> bool" where
  "min_importance q h \<longleftrightarrow> (case h_importance h of None \<Rightarrow> False | Some i \<Rightarrow> num_or (q_minImportance q) (1 / 10) \<le> i)"

text \<open>What the statements have in common: the rows that the caller may see.\<close>

definition visible_row :: "query \<Rightarrow> hit \<Rightarrow> bool" where
  "visible_row q h \<longleftrightarrow>
     agentScopeCond (q_agent q) (q_peers q) h \<and> key_any (q_key q) h \<and> workspace_cond (q_workspace q) h \<and>
     (q_superseded q \<or> \<not> h_expired h)"

definition search_cols :: "hit \<Rightarrow> hit" where
  "search_cols h = h\<lparr>h_tokens := None, h_ema := None, h_accessed := None\<rparr>"

definition time_cols :: "hit \<Rightarrow> hit" where
  "time_cols h = (search_cols h)\<lparr>h_agent := None, h_key := None\<rparr>"

definition graph_cols :: "hit \<Rightarrow> hit" where
  "graph_cols h = (search_cols h)\<lparr>h_key := None, h_case := None, h_status := None, h_phase := None, h_affect := None\<rparr>"

definition by_time :: "hit list \<Rightarrow> hit list" where
  "by_time = sort_key (\<lambda>h. - nullish_to (h_created h) 0)"

definition by_importance :: "hit list \<Rightarrow> hit list" where
  "by_importance = by_score (\<lambda>h. nullish_to (h_importance h) 0)"

definition db_searchByKeywords :: "string list \<Rightarrow> query \<Rightarrow> hit list \<Rightarrow> hit list" where
  "db_searchByKeywords kws q tab =
     (let hits = filter (\<lambda>h. (\<exists>k \<in> set kws. k \<in> set (h_keywords h)) \<and> visible_row q h \<and> equal_if (q_type q) (h_type h) \<and>
                equal_if (q_topic q) (h_topic h) \<and> min_importance q h \<and>
                (case q_isAnchor q of None \<Rightarrow> True | Some a \<Rightarrow> h_anchor h = a) \<and>
                range_cond (q_range q) h \<and> narrative_cond q h \<and> appendAffectCondition (q_affect q) h) tab;
          keyword_score = (\<lambda>h. real (length (filter (\<lambda>k. k \<in> set kws) (h_keywords h))) / real (length kws))
      in take 30 (map search_cols (by_score keyword_score (by_importance (by_time hits)))))"

definition db_searchByTopic :: "string \<Rightarrow> query \<Rightarrow> hit list \<Rightarrow> hit list" where
  "db_searchByTopic topic q tab =
     (let hits = filter (\<lambda>h. h_topic h = Some topic \<and> visible_row q h \<and> equal_if (q_type q) (h_type h) \<and> min_importance q h \<and>
                range_cond (q_range q) h \<and> narrative_cond q h \<and> appendAffectCondition (q_affect q) h) tab
      in take 30 (map search_cols (by_importance (by_time hits))))"

definition db_searchBySemantic :: "(hit \<Rightarrow> real option) \<Rightarrow> nat \<Rightarrow> real \<Rightarrow> string list option \<Rightarrow> query \<Rightarrow> hit list \<Rightarrow> hit list" where
  "db_searchBySemantic sim maxRows minSimilarity affect q tab =
     (let hits = filter (\<lambda>h. (case sim h of None \<Rightarrow> False | Some s \<Rightarrow> minSimilarity \<le> s) \<and> visible_row q h \<and>
                range_cond (q_range q) h \<and> appendAffectCondition affect h) tab
      in take maxRows (map (\<lambda>h. (search_cols h)\<lparr>h_similarity := sim h\<rparr>) (by_score (\<lambda>h. the (sim h)) hits)))"

definition db_searchByTimeRange :: "query \<Rightarrow> hit list \<Rightarrow> hit list" where
  "db_searchByTimeRange q tab =
     take 30 (map time_cols (by_time (filter (\<lambda>h. visible_row q h \<and> range_cond (q_range q) h \<and> narrative_cond q h) tab)))"

definition getScopedByIds :: "string list \<Rightarrow> query \<Rightarrow> hit list \<Rightarrow> hit list" where
  "getScopedByIds ids q tab =
     (if ids = [] \<or> q_key q = Some [] then []
      else map (\<lambda>h. h\<lparr>h_tokens := None, h_ema := None\<rparr>)
        (by_importance (sort_key (\<lambda>h. case h_accessed h of None \<Rightarrow> 1 | Some t \<Rightarrow> - t)
          (filter (\<lambda>h. h_id h \<in> set ids \<and> agentScopeCond (q_agent q) (q_peers q) h \<and> (q_superseded q \<or> \<not> h_expired h) \<and>
             in_scope (map_option hd (q_key q)) (q_key q) (h_key h)) tab))))"

section \<open>Assistant queries\<close>

text \<open>Strings are in Latin-1, in which no Korean pattern can be found: only the English ones and the Latin markers are listed.\<close>

definition ASSISTANT_PATTERNS_EN :: "string list" where
  "ASSISTANT_PATTERNS_EN =
     [''assistant said'', ''ai said'', ''what did you say'', ''your response'', ''your answer'', ''you said'', ''you told'',
      ''you mentioned'', ''you replied'', ''bot said'']"

definition isAssistantQuery :: "string option \<Rightarrow> bool" where
  "isAssistantQuery t \<longleftrightarrow> truthy t \<and> list_ex (\<lambda>p. contains p (lower (the t))) ASSISTANT_PATTERNS_EN"

definition expandAssistantQuery :: "string \<Rightarrow> string \<times> bool" where
  "expandAssistantQuery t = (if isAssistantQuery (Some t) then (''Assistant: '' @ t, True) else (t, False))"

definition boostAssistantFragments :: "hit list \<Rightarrow> hit list" where
  "boostAssistantFragments hs =
     map (\<lambda>h. if truthy (h_content h) \<and> list_ex (\<lambda>m. contains m (the (h_content h))) [''Assistant:'', ''assistant:'']
              then h\<lparr>h_importance := Some (min 1 (num_or (h_importance h) 0 + 2 / 100))\<rparr> else h) hs"

section \<open>Neighbours in the graph\<close>

record glink =
  g_from :: string
  g_to :: string
  g_weight :: real
  g_relation :: string
  g_deleted :: bool

definition relationBoosts :: "(string \<times> real) list" where
  "relationBoosts =
     [(''caused_by'', 3 / 2), (''resolved_by'', 3 / 2), (''related'', 1), (''part_of'', 1), (''co_retrieved'', 1 / 2),
      (''contradicts'', 3 / 10), (''superseded_by'', 3 / 10)]"

text \<open>The two halves of the union: the rows at the other end of the links of the seeds.\<close>

definition neighbour_rows :: "string list \<Rightarrow> query \<Rightarrow> glink list \<Rightarrow> hit list \<Rightarrow> (hit \<times> glink) list" where
  "neighbour_rows seeds q ls tab =
     (let seen = (\<lambda>h. agentScopeCond (q_agent q) (q_peers q) h \<and> key_any (q_key q) h \<and> \<not> h_expired h \<and>
                (q_workspace q = None \<or> h_workspace h = q_workspace q \<or> h_workspace h = None));
          half = (\<lambda>near far. concat (map (\<lambda>l. map (\<lambda>h. (h, l))
                (filter (\<lambda>h. h_id h = far l \<and> near l \<in> set seeds \<and> far l \<notin> set seeds \<and> \<not> g_deleted l \<and> seen h) tab)) ls))
      in half g_from g_to @ half g_to g_from)"

fun first_per_id :: "string list \<Rightarrow> (hit \<times> 'a) list \<Rightarrow> (hit \<times> 'a) list" where
  "first_per_id seen [] = []"
| "first_per_id seen (p # ps) = (if h_id (fst p) \<in> set seen then first_per_id seen ps else p # first_per_id (h_id (fst p) # seen) ps)"

definition graph_score :: "glink \<Rightarrow> real" where
  "graph_score l = tanh (g_weight l * (1 / 2)) * nullish_to (map_of relationBoosts (g_relation l)) 1"

definition fetchGraphNeighbors :: "string list \<Rightarrow> nat \<Rightarrow> query \<Rightarrow> glink list \<Rightarrow> hit list \<Rightarrow> hit list" where
  "fetchGraphNeighbors seedIds maxTotal q ls tab =
     (let seeds = filter (\<lambda>i. i \<noteq> []) seedIds; q' = q\<lparr>q_key := map_option (filter (\<lambda>k. k \<noteq> [])) (q_key q)\<rparr>
      in if seeds = [] \<or> q_key q' = Some [] then []
         else
           let strongest = take maxTotal (sort_key (\<lambda>p. - g_weight (snd p)) (sort_key (\<lambda>p. h_id (fst p))
                 (first_per_id [] (sort_key (\<lambda>p. - g_weight (snd p)) (neighbour_rows seeds q' ls tab)))))
           in map (\<lambda>p. graph_cols (fst p)) (sort_key (\<lambda>p. - graph_score (snd p)) strongest))"

section \<open>Layers\<close>

text \<open>The argument of the index for the key or the group of the query.\<close>

definition sel_of :: "query \<Rightarrow> key_sel" where
  "sel_of q = (case q_key q of None \<Rightarrow> Single None | Some ks \<Rightarrow> Group ks)"

definition getRecent :: "nat \<Rightarrow> query \<Rightarrow> redis_index \<Rightarrow> string list" where
  "getRecent n q ix =
     (if \<not> ready ix then []
      else let ids = unionFromKeyNamespaces (sel_of q)
                 (\<lambda>ns. take n (map fst (sort_key (\<lambda>p. - snd p) (rzsets ix (RECENT_KEY @ '':'' @ ns)))))
           in case q_key q of None \<Rightarrow> ids | Some _ \<Rightarrow> take n ids)"

definition searchL1 :: "query \<Rightarrow> redis_index \<Rightarrow> string list \<times> bool" where
  "searchL1 q ix =
     (if truthy (q_text q) \<and> q_keywords q = [] \<and> \<not> truthy (q_topic q) then ([], False)
      else
        let kw = (if q_keywords q = [] then [] else searchByKeywords (q_keywords q) 3 (sel_of q) ix);
            topic = (if truthy (q_topic q) then searchByTopic (the (q_topic q)) (sel_of q) ix else []);
            ty = (if truthy (q_type q) then searchByType (the (q_type q)) (sel_of q) ix else []);
            sets = filter (\<lambda>s. s \<noteq> []) [nub kw, nub topic, nub ty]
        in case sets of
             [] \<Rightarrow> (getRecent 20 q ix, True)
           | s # rest \<Rightarrow> (filter (\<lambda>i. \<forall>t \<in> set rest. i \<in> set t) s, False))"

definition tryHotCache :: "string list \<Rightarrow> query \<Rightarrow> redis_index \<Rightarrow> hit list \<Rightarrow> hit list" where
  "tryHotCache ids q ix tab =
     (let candidates = nub (take 30 ids);
          hitIds = filter (\<lambda>i. truthy (getCachedFragment i (sel_of q) ix)) candidates;
          valid = filter (\<lambda>h. truthy (h_content h) \<and> (q_superseded q \<or> \<not> h_expired h)) (getScopedByIds hitIds q tab)
      in if hitIds = [] then [] else if isNoop (scope_of q) then valid else filter (applyTo (scope_of q)) valid)"

definition searchL2 :: "query \<Rightarrow> string list \<Rightarrow> hit list \<Rightarrow> hit list" where
  "searchL2 q missIds tab =
     (let keywords = (if q_keywords q = [] then deriveImplicitKeywords (q_text q) (q_topic q) (q_keywords q) else q_keywords q);
          by_kw = (if keywords = [] then [] else db_searchByKeywords keywords q tab);
          found = (if by_kw = [] \<and> truthy (q_topic q) then db_searchByTopic (the (q_topic q)) q tab else by_kw);
          missing = filter (\<lambda>i. i \<notin> set (map h_id found)) missIds
      in found @ filter (applyTo (scope_of q)) (getScopedByIds missing q tab))"

record models =
  sem :: "string \<Rightarrow> (hit \<Rightarrow> real option) option"
  morph :: "string \<Rightarrow> (hit \<Rightarrow> real option) option"
  indexed :: "string \<Rightarrow> bool"
  adapted :: "real option"
  reranker :: "(string \<Rightarrow> hit list \<Rightarrow> real list option) option"
  encoder :: "string \<Rightarrow> nat"

definition searchL3 :: "models \<Rightarrow> string \<Rightarrow> bool \<Rightarrow> query \<Rightarrow> hit list \<Rightarrow> hit list" where
  "searchL3 m t skipMorpheme q tab =
     (case expandAssistantQuery t of
        (expanded, isAssistant) \<Rightarrow>
          (case sem m expanded of
             None \<Rightarrow> []
           | Some sim \<Rightarrow>
               let least = nullish_to (adapted m) (4 / 10);
                   morphs = (case (if skipMorpheme then None else morph m t) of None \<Rightarrow> []
                     | Some msim \<Rightarrow> db_searchBySemantic (\<lambda>h. if indexed m (h_id h) then msim h else None) 10 least None q tab);
                   basic = db_searchBySemantic sim 30 least (q_affect q) q tab;
                   boosted = (if isAssistant then boostAssistantFragments basic else basic);
                   results = boosted @ filter (\<lambda>h. h_id h \<notin> set (map h_id boosted)) morphs
               in if isNoop (scope_of q) then results else filter (applyTo (scope_of q)) results))"

definition searchTemporal :: "query \<Rightarrow> hit list \<Rightarrow> hit list" where
  "searchTemporal q tab = (if q_range q = None then [] else db_searchByTimeRange q tab)"

section \<open>Reranking\<close>

definition computeRecencyBoost :: "int \<Rightarrow> hit \<Rightarrow> real" where
  "computeRecencyBoost now h =
     (let ageDays = max 0 (real_of_int (now - nullish_to (h_created h) now) / 86400000);
          recency = max (1 / 10) (min 1 (1 - ageDays / 365 * (9 / 10)))
      in 1 + 2 / 10 * (recency - 1 / 2))"

definition rerank :: "int \<Rightarrow> real list \<Rightarrow> hit list \<Rightarrow> nat \<Rightarrow> hit list" where
  "rerank now scores candidates topK =
     take topK (by_score (\<lambda>h. the (h_rerank h))
       (map2 (\<lambda>h s. h\<lparr>h_rerank := Some (s * computeRecencyBoost now h)\<rparr>) candidates scores))"

fun join_with :: "string \<Rightarrow> string list \<Rightarrow> string" where
  "join_with sep [] = []"
| "join_with sep [w] = w"
| "join_with sep (w # v # ws) = w @ sep @ join_with sep (v # ws)"

definition rerankQuery :: "query \<Rightarrow> string" where
  "rerankQuery q =
     join_with '' ''
       ((if truthy (q_topic q) then [''topic: '' @ the (q_topic q)] else []) @
        (if q_keywords q \<noteq> [] then [''keywords: '' @ join_with '','' (q_keywords q)] else []) @
        (if truthy (q_text q) then [''text: '' @ the (q_text q)] else []))"

section \<open>The two ways through the search\<close>

definition text_layers :: "models \<Rightarrow> query \<Rightarrow> string list \<Rightarrow> string list \<Rightarrow> bool \<Rightarrow> hit list \<Rightarrow> glink list \<Rightarrow> hit list \<Rightarrow> layer list" where
  "text_layers m q l1Ids l1Miss l1Fallback cached ls tab =
     (let l2 = searchL2 q l1Miss tab;
          l3 = searchL3 m (the (q_text q)) False q tab;
          temporal = searchTemporal q tab;
          neighbours = fetchGraphNeighbors (map h_id (take 10 l2)) 10 q ls tab;
          graph = (if isNoop (scope_of q) then neighbours else filter (applyTo (scope_of q)) neighbours)
      in [\<lparr>l_items = map IdOnly l1Ids, l_weight = (if l1Fallback then 1 / 2 else 2)\<rparr>,
          \<lparr>l_items = map Row (cached @ l2), l_weight = 1\<rparr>,
          \<lparr>l_items = map Row graph, l_weight = 3 / 2\<rparr>,
          \<lparr>l_items = map Row l3, l_weight = 1\<rparr>] @
         (if temporal = [] then [] else [\<lparr>l_items = map Row temporal, l_weight = (if q_range q = None then 1 else 2)\<rparr>]))"

definition buildTextRRF ::
  "models \<Rightarrow> int \<Rightarrow> query \<Rightarrow> string list \<Rightarrow> string list \<Rightarrow> bool \<Rightarrow> hit list \<Rightarrow> glink list \<Rightarrow> hit list \<Rightarrow> hit list" where
  "buildTextRRF m now q l1Ids l1Miss l1Fallback cached ls tab =
     (let merged = mergeRRF (text_layers m q l1Ids l1Miss l1Fallback cached ls tab) 60;
          combined = applyImportanceCutoff (filter (\<lambda>h. h_content h \<noteq> None) merged) (Some (1 / 10)) (q_minImportance q)
      in case reranker m of
           None \<Rightarrow> combined
         | Some score \<Rightarrow>
             if combined = [] then combined
             else (case score (rerankQuery q) (take 30 combined) of
                     None \<Rightarrow> combined
                   | Some scores \<Rightarrow>
                       let reranked = rerank now scores (take 30 combined) 15
                       in if reranked = [] then combined else reranked))"

definition tagExact :: "query \<Rightarrow> hit list \<Rightarrow> hit list" where
  "tagExact q hs =
     map (\<lambda>h. h\<lparr>h_exact := q_keywords q \<noteq> [] \<and>
            list_all (\<lambda>k. k \<in> set (map lower (h_keywords h))) (map lower (q_keywords q))\<rparr>) hs"

text \<open>\<open>order\<close> is the lexicographic order of \<open>Array.sort\<close>, \<open>in_time\<close> says whether the vectors answered before the timer.\<close>

definition buildFallbackCombined ::
  "models \<Rightarrow> (string list \<Rightarrow> string list) \<Rightarrow> bool \<Rightarrow> bool \<Rightarrow> query \<Rightarrow> string list \<Rightarrow> hit list \<Rightarrow> hit list \<Rightarrow> hit list" where
  "buildFallbackCombined m order embeddings in_time q l1Miss cached tab =
     (let l2 = searchL2 q l1Miss tab;
          temporal = searchTemporal q tab;
          synth = join_with '' '' (order (nub (map (\<lambda>k. js_trim (lower k)) (q_keywords q))));
          l3 = (if embeddings \<and> q_keywords q \<noteq> [] \<and> in_time then searchL3 m synth True q tab else []);
          combined = tagExact q l2 @ tagExact q cached @ temporal
      in combined @ map (\<lambda>h. h\<lparr>h_supplement := True\<rparr>) (filter (\<lambda>h. h_id h \<notin> set (map h_id combined)) l3))"

definition executeSearch ::
  "models \<Rightarrow> (string list \<Rightarrow> string list) \<Rightarrow> bool \<Rightarrow> bool \<Rightarrow> int \<Rightarrow> query \<Rightarrow> redis_index \<Rightarrow> glink list \<Rightarrow> hit list \<Rightarrow> hit list" where
  "executeSearch m order embeddings in_time now q ix ls tab =
     (case searchL1 q ix of
        (l1Ids, l1Fallback) \<Rightarrow>
          let cached = (if l1Ids = [] then [] else tryHotCache l1Ids q ix tab);
              l1Miss = (if l1Fallback then [] else filter (\<lambda>i. i \<notin> set (map h_id cached)) l1Ids)
          in if truthy (q_text q) \<and> embeddings then buildTextRRF m now q l1Ids l1Miss l1Fallback cached ls tab
             else buildFallbackCombined m order embeddings in_time q l1Miss cached tab)"

definition cbr_of :: "hit \<Rightarrow> cbr_frag" where
  "cbr_of h = \<lparr>cb_key = h_key h, cb_case = h_case h, cb_quarantine = None, cb_resolution = h_status h\<rparr>"

definition search ::
  "models \<Rightarrow> (string list \<Rightarrow> string list) \<Rightarrow> bool \<Rightarrow> bool \<Rightarrow> bool \<Rightarrow> int \<Rightarrow> query \<Rightarrow> redis_index \<Rightarrow> glink list \<Rightarrow> hit list \<Rightarrow>
   hit list \<times> nat \<times> string list" where
  "search m order embeddings in_time cbrFilter now query ix ls tab =
     (let q = buildSearchQuery query;
          uniq = deduplicate now (q_anchorTime q) (executeSearch m order embeddings in_time now q ix ls tab);
          implicit = deriveImplicitKeywords (q_text q) (q_topic q) (q_keywords q);
          lexical = (if list_ex (\<lambda>h. h_similarity h \<noteq> None \<or> h_rerank h \<noteq> None) uniq then [] else implicit);
          ordered = (if lexical = [] then uniq else by_score (\<lambda>h. real (textKeywordCoverage h lexical)) uniq);
          diversified = (case ordered of h # _ \<Rightarrow> if h_rerank h \<noteq> None then applyMMR (7 / 10) ordered else ordered | [] \<Rightarrow> []);
          trimmed = trimToTokenBudget (encoder m) (q_budget q) diversified;
          bare = map (\<lambda>h. h\<lparr>h_rrf := None, h_exact := False, h_supplement := False\<rparr>) trimmed;
          current = (if q_superseded q then bare else filter (\<lambda>h. \<not> h_expired h) bare);
          clean = (if cbrFilter \<and> q_case q \<noteq> None
                   then filter (\<lambda>h. cbr_check (case q_key q of Some (k # _) \<Rightarrow> Some k | _ \<Rightarrow> None) (cbr_of h) = None) current
                   else current)
      in (clean, estimateTokens (encoder m) trimmed, lexical))"

section \<open>Nothing is shown that the caller may not see\<close>

text \<open>The ids, contents and times of a list of hits.\<close>

type_synonym hit_text = "string \<times> string option \<times> int option"

definition text_of :: "hit \<Rightarrow> hit_text" where
  "text_of h = (h_id h, h_content h, h_created h)"

definition texts :: "hit list \<Rightarrow> hit_text set" where
  "texts hs = text_of ` set hs"

definition seen_texts :: "query \<Rightarrow> hit list \<Rightarrow> hit_text set" where
  "seen_texts q tab = texts (filter (visible_row q) tab)"

lemma texts_simps [simp]:
  "texts [] = {}" "texts (h # hs) = insert (text_of h) (texts hs)" "texts (xs @ ys) = texts xs \<union> texts ys"
  by (auto simp: texts_def)

lemma texts_filter: "texts (filter P hs) \<subseteq> texts hs"
  by (auto simp: texts_def)

lemma texts_sub: "set xs \<subseteq> set ys \<Longrightarrow> texts xs \<subseteq> texts ys"
  by (auto simp: texts_def)

lemma texts_by_score [simp]: "texts (by_score f hs) = texts hs" "texts (by_time hs) = texts hs" "texts (by_importance hs) = texts hs"
  by (auto simp: texts_def by_score_def by_time_def by_importance_def)

lemma texts_map: "(\<And>h. text_of (f h) = text_of h) \<Longrightarrow> texts (map f hs) = texts hs"
  by (simp add: texts_def image_image)

lemma texts_take: "texts (take n hs) \<subseteq> texts hs"
  by (rule texts_sub) (rule set_take_subset)

lemma cols_simps [simp]:
  "h_id (search_cols h) = h_id h" "text_of (search_cols h) = text_of h" "text_of (time_cols h) = text_of h" "text_of (graph_cols h) = text_of h"
  by (simp_all add: search_cols_def time_cols_def graph_cols_def text_of_def)

lemma text_of_update [simp]:
  "text_of (h\<lparr>h_similarity := s\<rparr>) = text_of h" "text_of (h\<lparr>h_rrf := s\<rparr>) = text_of h" "text_of (h\<lparr>h_rerank := s\<rparr>) = text_of h"
  "text_of (h\<lparr>h_exact := b\<rparr>) = text_of h" "text_of (h\<lparr>h_supplement := b\<rparr>) = text_of h" "text_of (h\<lparr>h_importance := s\<rparr>) = text_of h"
  "text_of (h\<lparr>h_tokens := n\<rparr>) = text_of h" "text_of (h\<lparr>h_ema := s\<rparr>) = text_of h" "text_of (h\<lparr>h_linked := b\<rparr>) = text_of h"
  by (simp_all add: text_of_def)

lemma statement_texts:
  assumes "\<And>h. P h \<Longrightarrow> visible_row q h" "\<And>h. text_of (f h) = text_of h" "set hs = set (filter P tab)"
  shows "texts (take n (map f hs)) \<subseteq> seen_texts q tab"
proof -
  have "texts (take n (map f hs)) \<subseteq> texts hs" using texts_take [of n "map f hs"] texts_map [of f, OF assms(2)] by simp
  also have "\<dots> \<subseteq> seen_texts q tab" unfolding seen_texts_def by (rule texts_sub) (use assms(1,3) in auto)
  finally show ?thesis .
qed

lemma set_sorts [simp]: "set (by_score f hs) = set hs" "set (by_time hs) = set hs" "set (by_importance hs) = set hs"
  by (auto simp: by_score_def by_time_def by_importance_def)

lemma db_texts:
  "texts (db_searchByKeywords kws q tab) \<subseteq> seen_texts q tab"
  "texts (db_searchByTopic topic q tab) \<subseteq> seen_texts q tab"
  "texts (db_searchBySemantic sim n least affect q tab) \<subseteq> seen_texts q tab"
  "texts (db_searchByTimeRange q tab) \<subseteq> seen_texts q tab"
  unfolding db_searchByKeywords_def db_searchByTopic_def db_searchBySemantic_def db_searchByTimeRange_def Let_def
  by (rule statement_texts; force)+

lemma in_scope_key: "q_key q \<noteq> Some [] \<Longrightarrow> in_scope (map_option hd (q_key q)) (q_key q) (h_key h) \<Longrightarrow> key_any (q_key q) h"
  by (cases "q_key q") (auto simp: in_scope_def key_any_def hd_in_set)

lemma scoped_texts: "texts (filter (applyTo (scope_of q)) (getScopedByIds ids q tab)) \<subseteq> seen_texts q tab"
proof
  fix x
  assume "x \<in> texts (filter (applyTo (scope_of q)) (getScopedByIds ids q tab))"
  then obtain h where x: "x = text_of h" and h: "h \<in> set (getScopedByIds ids q tab)" and s: "applyTo (scope_of q) h"
    by (auto simp: texts_def)
  from h have n: "q_key q \<noteq> Some []" by (auto simp: getScopedByIds_def split: if_splits)
  from h obtain r where r: "r \<in> set tab" "h = r\<lparr>h_tokens := None, h_ema := None\<rparr>" "agentScopeCond (q_agent q) (q_peers q) r"
      "q_superseded q \<or> \<not> h_expired r" "in_scope (map_option hd (q_key q)) (q_key q) (h_key r)"
    by (auto simp: getScopedByIds_def split: if_splits)
  have "workspace_cond (q_workspace q) r" using s r(2) by (auto simp: applyTo_def scope_of_def workspace_cond_def)
  with r in_scope_key [OF n r(5)] have "visible_row q r" by (simp add: visible_row_def)
  with r(1,2) x show "x \<in> seen_texts q tab" by (auto simp: seen_texts_def texts_def)
qed

lemma searchL2_texts: "texts (searchL2 q ids tab) \<subseteq> seen_texts q tab"
  unfolding searchL2_def Let_def using db_texts(1,2) scoped_texts by (simp add: subset_iff)

lemma noop_scope [simp]: "\<not> isNoop (scope_of q)"
  by (simp add: isNoop_def scope_of_def)

lemma scoped_texts_filter:
  "(\<And>h. Q h \<Longrightarrow> applyTo (scope_of q) h) \<Longrightarrow> texts (filter Q (getScopedByIds ids q tab)) \<subseteq> seen_texts q tab"
  by (rule subset_trans [OF texts_sub scoped_texts]) auto

lemma tryHotCache_texts: "texts (tryHotCache ids q ix tab) \<subseteq> seen_texts q tab"
  unfolding tryHotCache_def Let_def filter_filter by simp (intro impI scoped_texts_filter, simp)

lemma searchL3_texts: "texts (searchL3 m t skip q tab) \<subseteq> seen_texts q tab"
proof (cases "sem m (fst (expandAssistantQuery t))")
  case None
  then show ?thesis by (simp add: searchL3_def split_def)
next
  case (Some sim)
  have boost: "texts (boostAssistantFragments hs) = texts hs" for hs
    unfolding boostAssistantFragments_def by (rule texts_map) simp
  let ?morphs = "case if skip then None else morph m t of None \<Rightarrow> []
     | Some msim \<Rightarrow> db_searchBySemantic (\<lambda>h. if indexed m (h_id h) then msim h else None) 10 (nullish_to (adapted m) (4 / 10)) None q tab"
  have morphs: "texts ?morphs \<subseteq> seen_texts q tab" using db_texts(3) by (auto split: option.split)
  have sub: "texts (filter P (b @ filter R mo)) \<subseteq> texts b \<union> texts mo" for P R b mo by (auto simp: texts_def)
  show ?thesis
    unfolding searchL3_def split_def Some option.case Let_def
    by (simp only: noop_scope if_False)
      (rule subset_trans [OF sub], use morphs db_texts(3) boost in \<open>auto split del: if_split split: if_splits\<close>)
qed

lemma if_either: "(if P then x else y) = x \<or> (if P then x else y) = y"
  by simp

lemma mem_either: "x \<in> set ys \<Longrightarrow> ys = [] \<or> ys = zs \<Longrightarrow> x \<in> set zs"
  by auto

lemma graph_texts: "texts (fetchGraphNeighbors seeds n q ls tab) \<subseteq> seen_texts q tab"
proof -
  let ?q = "q\<lparr>q_key := map_option (filter (\<lambda>k. k \<noteq> [])) (q_key q)\<rparr>"
  have pairs: "set (first_per_id ids ps) \<subseteq> set ps" for ids and ps :: "(hit \<times> glink) list"
    by (induction ps arbitrary: ids) auto
  have row: "h \<in> set tab \<and> visible_row q h" if "(h, l) \<in> set (neighbour_rows sd ?q ls tab)" for h l sd
    using that by (auto simp: neighbour_rows_def Let_def visible_row_def key_any_def workspace_cond_def agentScopeCond_def split: option.splits)
  have "text_of h \<in> seen_texts q tab" if "h \<in> set (fetchGraphNeighbors seeds n q ls tab)" for h
  proof -
    let ?sd = "filter (\<lambda>i. i \<noteq> []) seeds"
    let ?firsts = "first_per_id [] (sort_key (\<lambda>p. - g_weight (snd p)) (neighbour_rows ?sd ?q ls tab))"
    let ?best = "take n (sort_key (\<lambda>p. - g_weight (snd p)) (sort_key (\<lambda>p. h_id (fst p)) ?firsts))"
    have f: "fetchGraphNeighbors seeds n q ls tab = [] \<or>
        fetchGraphNeighbors seeds n q ls tab = map (\<lambda>p. graph_cols (fst p)) (sort_key (\<lambda>p. - graph_score (snd p)) ?best)"
      unfolding fetchGraphNeighbors_def Let_def by (rule if_either)
    from mem_either [OF that f] have "h \<in> (\<lambda>p. graph_cols (fst p)) ` set ?best" unfolding set_map set_sort .
    then obtain p where p: "p \<in> set ?best" "h = graph_cols (fst p)" by (rule imageE)
    have "set ?best \<subseteq> set ?firsts" using set_take_subset unfolding set_sort by fastforce
    then have "set ?best \<subseteq> set (sort_key (\<lambda>p. - g_weight (snd p)) (neighbour_rows ?sd ?q ls tab))"
      by (rule subset_trans [OF _ pairs])
    then have "set ?best \<subseteq> set (neighbour_rows ?sd ?q ls tab)" unfolding set_sort .
    with p(1) have "p \<in> set (neighbour_rows ?sd ?q ls tab)" by (rule rev_subsetD)
    then have "fst p \<in> set tab \<and> visible_row q (fst p)" by (intro row [where l = "snd p"]) simp
    then have "text_of (fst p) \<in> seen_texts q tab" unfolding seen_texts_def texts_def by auto
    then show ?thesis unfolding p(2) cols_simps .
  qed
  then show ?thesis by (auto simp: texts_def)
qed

lemma searchTemporal_texts: "texts (searchTemporal q tab) \<subseteq> seen_texts q tab"
  by (simp add: searchTemporal_def db_texts(4))

text \<open>The stages behind the layers change neither ids nor contents.\<close>

lemma texts_sort_key: "texts (sort_key f hs) = texts hs"
  by (simp add: texts_def)

lemma texts_mset: "mset xs = mset ys \<Longrightarrow> texts xs = texts ys"
  by (metis texts_def set_mset_mset)

lemma texts_memD: "h \<in> set hs \<Longrightarrow> text_of h \<in> texts hs"
  by (simp add: texts_def)

lemma texts_bound: "(\<And>h. h \<in> set hs \<Longrightarrow> text_of h \<in> T) \<Longrightarrow> texts hs \<subseteq> T"
  by (auto simp: texts_def)

lemma find_memD: "find P xs = Some x \<Longrightarrow> x \<in> set xs"
  using find_SomeD by fast

lemma mergeRRF_form:
  assumes "h \<in> set (mergeRRF layers k)"
  obtains it where "it \<in> set (all_items layers)" "item_id it = h_id h" "text_of h = text_of (item_hit it)"
    "find (\<lambda>x. item_id x = h_id h) (all_items layers) = Some it"
proof -
  from assms have "h \<in> set (fused k layers)" unfolding mergeRRF_fused set_sorts .
  then obtain i where i: "i \<in> set (map item_id (all_items layers))"
      "h = (first_form (all_items layers) i)\<lparr>h_rrf := Some (rrf_score k layers i)\<rparr>"
    unfolding fused_def set_map nub_simps by blast
  from i(1) have "find (\<lambda>x. item_id x = i) (all_items layers) \<noteq> None" unfolding find_None_iff by auto
  then obtain it where it: "find (\<lambda>x. item_id x = i) (all_items layers) = Some it" by blast
  then have "first_form (all_items layers) i = item_hit it" by (simp add: first_form_def)
  with i(2) have h: "text_of h = text_of (item_hit it)" by simp
  from find_SomeD [OF it] have m: "it \<in> set (all_items layers)" "item_id it = i" by auto
  have "h_id (item_hit it) = item_id it" by (cases it) simp_all
  with h m(2) have "i = h_id h" by (simp add: text_of_def)
  with m h it that show thesis by simp
qed

definition row_items :: "item list \<Rightarrow> hit list" where
  "row_items its = List.map_filter (\<lambda>it. case it of IdOnly _ \<Rightarrow> None | Row h \<Rightarrow> Some h) its"

lemma merged_texts: "texts (filter (\<lambda>h. h_content h \<noteq> None) (mergeRRF layers k)) \<subseteq> texts (row_items (all_items layers))"
proof (rule texts_bound)
  fix h assume "h \<in> set (filter (\<lambda>h. h_content h \<noteq> None) (mergeRRF layers k))"
  then have h: "h \<in> set (mergeRRF layers k)" "h_content h \<noteq> None" by auto
  from h(1) obtain it where it: "it \<in> set (all_items layers)" "text_of h = text_of (item_hit it)"
    by (rule mergeRRF_form)
  show "text_of h \<in> texts (row_items (all_items layers))"
  proof (cases it)
    case (IdOnly i)
    with it(2) h(2) show ?thesis by (simp add: bare_hit_def text_of_def)
  next
    case (Row g)
    with it(1) have "g \<in> set (row_items (all_items layers))" by (force simp: row_items_def List.map_filter_def)
    with it(2) Row show ?thesis using texts_memD by simp
  qed
qed

lemma row_items_simps [simp]:
  "row_items (xs @ ys) = row_items xs @ row_items ys" "row_items (map IdOnly ids) = []" "row_items (map Row hs) = hs" "row_items [] = []"
  by (simp_all add: row_items_def map_filter_simps List.map_filter_def comp_def)

lemma all_items_simps [simp]: "all_items (l # ls) = l_items l @ all_items ls" "all_items [] = []" "all_items (xs @ ys) = all_items xs @ all_items ys"
  by (simp_all add: all_items_def)

lemma layer_texts:
  assumes "texts cached \<subseteq> seen_texts q tab"
  shows "texts (row_items (all_items (text_layers m q l1Ids l1Miss fb cached ls tab))) \<subseteq> seen_texts q tab"
proof -
  have "texts (filter (applyTo (scope_of q)) (fetchGraphNeighbors sd 10 q ls tab)) \<subseteq> seen_texts q tab" for sd
    using texts_filter graph_texts by (rule subset_trans)
  moreover have "row_items (all_items (if ts = [] then [] else [\<lparr>l_items = map Row ts, l_weight = w\<rparr>])) = ts" for ts w by simp
  ultimately show ?thesis unfolding text_layers_def Let_def
    by (simp only: all_items_simps row_items_simps layer.simps texts_simps noop_scope if_False map_append)
      (intro Un_least empty_subsetI assms searchL2_texts searchL3_texts searchTemporal_texts; assumption)
qed

lemma cutoff_texts: "texts (applyImportanceCutoff hs a b) \<subseteq> texts hs"
  unfolding applyImportanceCutoff_def by (auto split: option.split intro: subsetD [OF texts_filter])

lemma rerank_texts: "texts (rerank now scores hs n) \<subseteq> texts hs"
proof -
  have "texts (map2 (\<lambda>h s. h\<lparr>h_rerank := Some (f h s)\<rparr>) hs ss) \<subseteq> texts hs" for f and ss :: "real list"
    by (auto simp: texts_def dest: set_zip_leftD)
  then show ?thesis unfolding rerank_def by (intro subset_trans [OF texts_take]) simp
qed

lemma buildTextRRF_texts:
  assumes "texts cached \<subseteq> seen_texts q tab"
  shows "texts (buildTextRRF m now q l1Ids l1Miss fb cached ls tab) \<subseteq> seen_texts q tab"
proof -
  let ?merged = "mergeRRF (text_layers m q l1Ids l1Miss fb cached ls tab) 60"
  let ?c = "applyImportanceCutoff (filter (\<lambda>h. h_content h \<noteq> None) ?merged) (Some (1 / 10)) (q_minImportance q)"
  have c: "texts ?c \<subseteq> seen_texts q tab"
    by (rule subset_trans [OF cutoff_texts subset_trans [OF merged_texts layer_texts [OF assms]]])
  have r: "texts (rerank now scores (take 30 ?c) 15) \<subseteq> seen_texts q tab" for scores
    by (rule subset_trans [OF rerank_texts subset_trans [OF texts_take c]])
  show ?thesis unfolding buildTextRRF_def Let_def using c r by (auto split: option.split)
qed

lemma buildFallbackCombined_texts:
  assumes "texts cached \<subseteq> seen_texts q tab"
  shows "texts (buildFallbackCombined m order emb in_time q l1Miss cached tab) \<subseteq> seen_texts q tab"
proof -
  have tag: "texts (tagExact q hs) = texts hs" for hs unfolding tagExact_def by (rule texts_map) simp
  have sup: "texts (map (\<lambda>h. h\<lparr>h_supplement := True\<rparr>) hs) = texts hs" for hs by (rule texts_map) simp
  have l3: "texts (filter P (if c then searchL3 m t s q tab else [])) \<subseteq> seen_texts q tab" for P c t s
    using searchL3_texts [of m t s q tab] by (auto simp: texts_def)
  show ?thesis unfolding buildFallbackCombined_def Let_def texts_simps tag sup
    by (intro Un_least assms l3 searchL2_texts searchTemporal_texts)
qed

lemma executeSearch_texts: "texts (executeSearch m order emb in_time now q ix ls tab) \<subseteq> seen_texts q tab"
proof -
  have c: "texts (if l1Ids = [] then [] else tryHotCache l1Ids q ix tab) \<subseteq> seen_texts q tab" for l1Ids
    by (simp add: tryHotCache_texts)
  show ?thesis unfolding executeSearch_def Let_def split_def
    by (rule if_split [THEN iffD2]) (intro conjI impI buildTextRRF_texts buildFallbackCombined_texts c)
qed

lemma best_copy_text: "best_copy hs i = Some b \<Longrightarrow> text_of b \<in> texts hs"
proof (induction hs arbitrary: b rule: rev_induct)
  case Nil
  then show ?case by (simp add: best_copy_def)
next
  case (snoc f hs)
  have "text_of b = text_of f \<or> best_copy hs i = Some b"
    using snoc.prems by (auto simp: best_copy_step split: if_splits option.splits)
  with snoc.IH [of b] show ?case by auto
qed

lemma deduplicate_texts: "texts (deduplicate now anchor hs) \<subseteq> texts hs"
proof -
  have "text_of h \<in> texts hs" if "h \<in> set (map snd (fold dedup_add hs []))" for h
  proof -
    from that obtain i where i: "i \<in> set (map h_id hs)" "h = the (best_copy hs i)"
      unfolding dedup_fold [THEN conjunct1] map_map comp_def snd_conv set_map nub_simps by blast
    from i(1) dedup_fold [of hs] obtain b where "best_copy hs i = Some b" by blast
    with i(2) best_copy_text [of hs i b] show ?thesis by simp
  qed
  then show ?thesis unfolding deduplicate_def texts_by_score by (rule texts_bound)
qed

lemma trim_texts: "texts (trimToTokenBudget tok budget hs) \<subseteq> texts hs"
proof -
  have "set (cut c b u hs) \<subseteq> set hs" for c b u by (induction hs arbitrary: u) auto
  then show ?thesis unfolding trimToTokenBudget_def by (auto intro!: texts_sub)
qed

lemma applyMMR_texts: "texts (applyMMR lam hs) = texts hs"
  by (rule texts_mset) (rule mmr_permutes [THEN conjunct1])

lemma search_stage_texts:
  "texts (fst (search m order emb in_time cbr now query ix ls tab)) \<subseteq>
     texts (executeSearch m order emb in_time now (buildSearchQuery query) ix ls tab)"
proof -
  let ?q = "buildSearchQuery query"
  let ?uniq = "deduplicate now (q_anchorTime ?q) (executeSearch m order emb in_time now ?q ix ls tab)"
  have o: "texts (if lex = [] then ?uniq else by_score f ?uniq) \<subseteq> texts (executeSearch m order emb in_time now ?q ix ls tab)"
    for lex :: "string list" and f using deduplicate_texts by simp
  have d: "texts (case hs of h # r \<Rightarrow> if h_rerank h \<noteq> None then applyMMR (7 / 10) hs else hs | [] \<Rightarrow> []) = texts hs" for hs
    by (cases hs) (simp_all del: texts_simps(2) add: applyMMR_texts)
  have t: "texts (map (\<lambda>h. h\<lparr>h_rrf := None, h_exact := False, h_supplement := False\<rparr>) hs) = texts hs" for hs by (rule texts_map) simp
  have f: "texts (if c then filter P hs else hs) \<subseteq> texts hs" "texts (if c then hs else filter P hs) \<subseteq> texts hs" for c P hs
    using texts_filter by simp_all
  show ?thesis unfolding search_def Let_def fst_conv
    by (rule subset_trans [OF f(1)], rule subset_trans [OF f(2)], unfold t, rule subset_trans [OF trim_texts], unfold d, rule o)
qed

lemma searched_texts:
  "texts (fst (search m order emb in_time cbr now query ix ls tab)) \<subseteq> seen_texts (buildSearchQuery query) tab"
  by (rule subset_trans [OF search_stage_texts executeSearch_texts])

text \<open>
  C5. The search is sound: every fragment that it returns, on whatever layer it was found and however it was ranked,
  has the id, the content and the time of a row that the caller may see: of its own agent or the shared one, of its key or group,
  of its workspace or none, and current unless history was asked for.
\<close>

theorem search_sound:
  "texts (fst (search m order emb in_time cbr now query ix ls tab)) \<subseteq> seen_texts (buildSearchQuery query) tab"
  by (rule searched_texts)

section \<open>What the index finds does not come back\<close>

lemma find_first_ids: "i \<in> set ids \<Longrightarrow> find (\<lambda>x. item_id x = i) (map IdOnly ids @ its) = Some (IdOnly i)"
  by (induction ids) auto

lemma merged_hides_ids:
  assumes "h \<in> set (filter (\<lambda>h. h_content h \<noteq> None) (mergeRRF (\<lparr>l_items = map IdOnly ids, l_weight = w\<rparr> # layers) k))"
  shows "h_id h \<notin> set ids"
proof
  assume i: "h_id h \<in> set ids"
  from assms have h: "h \<in> set (mergeRRF (\<lparr>l_items = map IdOnly ids, l_weight = w\<rparr> # layers) k)" "h_content h \<noteq> None" by auto
  from h(1) obtain it where it: "text_of h = text_of (item_hit it)"
    "find (\<lambda>x. item_id x = h_id h) (all_items (\<lparr>l_items = map IdOnly ids, l_weight = w\<rparr> # layers)) = Some it"
    by (rule mergeRRF_form)
  from it(2) find_first_ids [OF i] have "it = IdOnly (h_id h)" by simp
  with it(1) h(2) show False by (simp add: bare_hit_def text_of_def)
qed


section \<open>Samples\<close>

definition note_of :: "string \<Rightarrow> string list \<Rightarrow> hit" where
  "note_of i kws =
     (bare_hit i)\<lparr>h_content := Some ''text'', h_topic := Some ''t'', h_keywords := kws, h_type := Some ''fact'',
       h_importance := Some (1 / 2), h_created := Some 0, h_agent := Some ''default'', h_key := Some ''k1'', h_affect := Some ''fear''\<rparr>"

definition asked :: "string list \<Rightarrow> query" where
  "asked kws =
     \<lparr>q_keywords = kws, q_topic = None, q_type = None, q_text = None, q_budget = 0, q_minImportance = None, q_agent = [],
      q_key = Some [''k1''], q_workspace = None, q_case = None, q_status = None, q_phase = None, q_affect = None,
      q_isAnchor = None, q_superseded = False, q_peers = False, q_range = None, q_anchorTime = 0\<rparr>"

definition index_of_note :: redis_index where
  "index_of_note =
     \<lparr>ready = True, rsets = (\<lambda>k. if k = ''frag:kw:_kk1:jwt'' then [''f1''] else []), rzsets = (\<lambda>_. []), rhot = (\<lambda>_. None)\<rparr>"

definition no_models :: models where
  "no_models = \<lparr>sem = (\<lambda>_. None), morph = (\<lambda>_. None), indexed = (\<lambda>_. False), adapted = None, reranker = None, encoder = length\<rparr>"

lemma index_finds_note: "searchL1 (buildSearchQuery (asked [''JWT''])) index_of_note = ([''f1''], False)"
  by code_simp

lemma index_finds_note_with_text:
  "fst (searchL1 (buildSearchQuery ((asked [''JWT''])\<lparr>q_text := Some ''jwt''\<rparr>)) index_of_note) = [''f1'']"
  by code_simp


lemma executeSearch_no_text:
  "\<not> truthy (q_text q) \<Longrightarrow> executeSearch m order emb in_time now q ix ls tab =
     (let l1 = searchL1 q ix; cached = (if fst l1 = [] then [] else tryHotCache (fst l1) q ix tab);
          miss = (if snd l1 then [] else filter (\<lambda>i. i \<notin> set (map h_id cached)) (fst l1))
      in buildFallbackCombined m order emb in_time q miss cached tab)"
  by (simp add: executeSearch_def Let_def split_def)

lemma asked_no_text [simp]: "q_text (buildSearchQuery (asked kws)) = None"
  by (simp add: buildSearchQuery_def asked_def)

text \<open>Without the text the same query finds the fragment.\<close>

lemma found_without_text:
  "map h_id (executeSearch no_models id True True 0 (buildSearchQuery (asked [''JWT''])) index_of_note [] [note_of ''f1'' [''jwt'']]) = [''f1'']"
  by (subst executeSearch_no_text, simp) code_simp

text \<open>
  The ids of the index are read without the filters of the query: type, anchors and time range are ignored when the
  index has no ids for the type.
\<close>

lemma filters_bypassed:
  "map (\<lambda>h. (h_id h, h_type h, h_created h, h_anchor h))
     (executeSearch no_models id True True 0
        (buildSearchQuery ((asked [''jwt''])\<lparr>q_type := Some ''error'', q_isAnchor := Some True, q_range := Some (Some 100, None)\<rparr>))
        index_of_note [] [note_of ''f1'' [''jwt'']]) = [(''f1'', Some ''fact'', Some 0, False)]"
  by (subst executeSearch_no_text, simp add: buildSearchQuery_def asked_def) code_simp

text \<open>Keywords are stored in lower case and compared as they are: capitals find nothing in the table.\<close>

lemma keyword_case_lost:
  "db_searchByKeywords [''JWT''] (buildSearchQuery (asked [''JWT''])) [note_of ''f1'' [''jwt'']] = []"
  by (simp add: db_searchByKeywords_def note_of_def by_score_def by_importance_def by_time_def)

text \<open>The layer of the time range does not know the filter on affects.\<close>

lemma temporal_ignores_affect:
  "map (\<lambda>h. (h_id h, h_affect h))
     (searchTemporal (buildSearchQuery ((asked [])\<lparr>q_affect := Some [''joy''], q_range := Some (Some 0, None)\<rparr>)) [note_of ''f1'' []])
     = [(''f1'', Some ''fear'')]"
  by code_simp

text \<open>The columns of the graph lack the case, so a search in a case gets nothing from its neighbours.\<close>

lemma graph_layer_empty_in_case:
  "q_case q \<noteq> None \<Longrightarrow> filter (applyTo (scope_of q)) (fetchGraphNeighbors seeds n q ls tab) = []"
proof -
  assume c: "q_case q \<noteq> None"
  have "\<not> applyTo (scope_of q) (graph_cols h)" for h using c by (auto simp: applyTo_def scope_of_def graph_cols_def)
  then show ?thesis unfolding fetchGraphNeighbors_def Let_def filter_empty_conv by auto
qed

end
