(* ===== verification/Recall.thy ===== *)
theory Recall
  imports Search "HOL-Library.List_Lexorder" "HOL-Library.Char_ord"
begin

text \<open>
  Recall, \<open>lib/memory/processors/MemoryRecaller.js\<close>: the search, the fragments linked to its results
  (\<open>getLinkedFragments\<close> of \<open>lib/memory/link/LinkStore.js\<close>), the final order, the filters, the token budget and the
  pages; the previews of links of \<open>lib/memory/read/LinkedFragmentLoader.js\<close>; staleness, feedback on activation and
  the chain of causes.

  A cursor is the pair of an offset and the ranking clock that the code encodes in it; a cursor that does not decode is
  \<open>None\<close>.  Strings are ordered by their codes, as in a table with the C collation.
\<close>

section \<open>Linked fragments\<close>

definition ALLOWED_RELATION_TYPES :: "string list" where
  "ALLOWED_RELATION_TYPES =
     [''related'', ''caused_by'', ''resolved_by'', ''part_of'', ''contradicts'', ''superseded_by'', ''co_retrieved'', ''temporal'']"

definition relation_wanted :: "string option \<Rightarrow> string \<Rightarrow> bool" where
  "relation_wanted relationType rel \<longleftrightarrow>
     (if truthy relationType \<and> the relationType \<in> set ALLOWED_RELATION_TYPES then rel = the relationType
      else rel \<in> {''caused_by'', ''resolved_by'', ''related'', ''co_retrieved''})"

definition relation_order :: "string \<Rightarrow> nat" where
  "relation_order rel = (if rel = ''resolved_by'' then 1 else if rel = ''caused_by'' then 2 else 3)"

definition linked_cols :: "hit \<Rightarrow> hit" where
  "linked_cols h =
     (search_cols h)\<lparr>h_anchor := False, h_key := None, h_case := None, h_status := None, h_phase := None, h_affect := None\<rparr>"

definition linked_ok :: "query \<Rightarrow> hit \<Rightarrow> bool" where
  "linked_ok q h \<longleftrightarrow>
     (q_superseded q \<or> \<not> h_expired h) \<and> key_any (q_key q) h \<and> agentScopeCond (q_agent q) (q_peers q) h \<and>
     (q_workspace q = None \<or> h_workspace h = q_workspace q \<or> h_workspace h = None)"

definition linked_rows :: "string list \<Rightarrow> string option \<Rightarrow> query \<Rightarrow> glink list \<Rightarrow> hit list \<Rightarrow> (hit \<times> glink) list" where
  "linked_rows fromIds relationType q ls tab =
     (let half = (\<lambda>near far. concat (map (\<lambda>l. map (\<lambda>h. (h, l))
            (filter (\<lambda>h. h_id h = far l \<and> near l \<in> set fromIds \<and> \<not> g_deleted l \<and> relation_wanted relationType (g_relation l) \<and>
               linked_ok q h) tab)) ls))
      in half g_from g_to @ half g_to g_from)"

definition linkedFragmentLimit :: nat where
  "linkedFragmentLimit = 10"

text \<open>\<open>DISTINCT ON (id) ... ORDER BY id, link_weight DESC, relation_order, importance DESC LIMIT 10\<close>.\<close>

definition getLinkedFragments :: "string list \<Rightarrow> string option \<Rightarrow> query \<Rightarrow> glink list \<Rightarrow> hit list \<Rightarrow> hit list" where
  "getLinkedFragments fromIds relationType q ls tab =
     (if fromIds = [] then []
      else map (\<lambda>p. linked_cols (fst p))
        (take linkedFragmentLimit (first_per_id []
          (sort_key (\<lambda>p. h_id (fst p)) (sort_key (\<lambda>p. - g_weight (snd p)) (sort_key (\<lambda>p. relation_order (g_relation (snd p)))
            (sort_key (\<lambda>p. - nullish_to (h_importance (fst p)) 0) (linked_rows fromIds relationType q ls tab))))))))"

section \<open>Recall\<close>

record recall_params =
  r_query :: query
  r_now_anchor :: "int option"
  r_cursor :: "(nat \<times> int) option"
  r_pageSize :: nat
  r_threshold :: "real option"
  r_depth :: "string option"
  r_includeLinks :: bool
  r_relation :: "string option"
  r_excludeSeen :: bool
  r_session :: "string option"

definition DEPTH_TYPE_MAP :: "(string \<times> string list) list" where
  "DEPTH_TYPE_MAP = [(''high-level'', [''decision'', ''episode'']), (''tool-level'', [''procedure'', ''error'', ''fact''])]"

definition offset_of :: "recall_params \<Rightarrow> nat" where
  "offset_of p = (case r_cursor p of None \<Rightarrow> 0 | Some (n, _) \<Rightarrow> n)"

definition anchor_of :: "int \<Rightarrow> recall_params \<Rightarrow> int" where
  "anchor_of now p = (case r_cursor p of Some (_, t) \<Rightarrow> t | None \<Rightarrow> nullish_to (r_now_anchor p) now)"

definition budget_of :: "recall_params \<Rightarrow> nat" where
  "budget_of p = (if q_budget (r_query p) = 0 then 1000 else q_budget (r_query p))"

definition page_size :: "recall_params \<Rightarrow> nat" where
  "page_size p = min (if r_pageSize p = 0 then 20 else r_pageSize p) 50"

text \<open>The results of the search with the linked fragments that are not among them.\<close>

fun add_linked :: "query \<Rightarrow> string list \<Rightarrow> hit list \<Rightarrow> hit list" where
  "add_linked q ids [] = []"
| "add_linked q ids (h # hs) =
     (if \<not> q_superseded q \<and> h_expired h then add_linked q ids hs
      else if h_id h \<in> set ids then add_linked q ids hs
      else h\<lparr>h_linked := True\<rparr> # add_linked q (h_id h # ids) hs)"

definition linked_scope :: "query \<Rightarrow> scope" where
  "linked_scope q =
     \<lparr>s_workspace = q_workspace q, s_case = None, s_status = None, s_phase = None, s_affect = None, s_agent = Some (q_agent q),
      s_peers = q_peers q\<rparr>"

definition expand :: "recall_params \<Rightarrow> query \<Rightarrow> glink list \<Rightarrow> hit list \<Rightarrow> hit list \<Rightarrow> hit list" where
  "expand p q ls tab found =
     (if \<not> r_includeLinks p \<or> found = [] then found
      else found @ add_linked q (map h_id found)
        (filter (applyTo (linked_scope q)) (getLinkedFragments (map h_id found) (r_relation p) q ls tab)))"

definition final_order :: "int \<Rightarrow> int \<Rightarrow> recall_params \<Rightarrow> string list \<Rightarrow> hit list \<Rightarrow> hit list" where
  "final_order now anchorTime p lexicalKeywords hs =
     (let q = r_query p;
          lq = \<lparr>lq_keywords = q_keywords q, lq_topic = q_topic q,
                lq_implicit = deriveImplicitKeywords (q_text q) (q_topic q) (q_keywords q)\<rparr>
      in by_score (\<lambda>h. real (textKeywordCoverage h lexicalKeywords)) (by_score (computeRecallScore now anchorTime lq) hs))"

text \<open>\<open>seen\<close> holds the ids that the session has already been given.\<close>

definition final_filter :: "recall_params \<Rightarrow> string list \<Rightarrow> hit \<Rightarrow> bool" where
  "final_filter p seen h \<longleftrightarrow>
     (case (r_threshold p, h_similarity h) of (Some t, Some s) \<Rightarrow> t \<le> s | _ \<Rightarrow> True) \<and>
     (case r_depth p of
        Some d \<Rightarrow> (case map_of DEPTH_TYPE_MAP d of
            Some tys \<Rightarrow> truthy (q_type (r_query p)) \<or> (\<exists>t \<in> set tys. h_type h = Some t) | None \<Rightarrow> True)
      | None \<Rightarrow> True) \<and>
     \<not> (r_excludeSeen p \<and> truthy (r_session p) \<and> h_id h \<in> set seen)"

fun fill_budget :: "(hit \<Rightarrow> nat) \<Rightarrow> nat \<Rightarrow> nat \<Rightarrow> hit list \<Rightarrow> hit list" where
  "fill_budget c budget used [] = []"
| "fill_budget c budget used (h # hs) =
     (if budget < used + c h then fill_budget c budget used hs else h # fill_budget c budget (used + c h) hs)"

record world =
  w_models :: models
  w_order :: "string list \<Rightarrow> string list"
  w_embeddings :: bool
  w_inTime :: bool
  w_cbr :: bool
  w_index :: redis_index
  w_links :: "glink list"
  w_tab :: "hit list"
  w_seen :: "string list"

text \<open>All results of a recall, in their final order, before they are cut into pages.\<close>

definition recall_all :: "world \<Rightarrow> int \<Rightarrow> recall_params \<Rightarrow> hit list" where
  "recall_all w now p =
     (let anchorTime = anchor_of now p; q = (r_query p)\<lparr>q_budget := budget_of p, q_anchorTime := anchorTime\<rparr>;
          (found, _, lexical) = search (w_models w) (w_order w) (w_embeddings w) (w_inTime w) (w_cbr w) now q (w_index w) (w_links w) (w_tab w);
          ranked = final_order now anchorTime p lexical (expand p (buildSearchQuery q) (w_links w) (w_tab w) found);
          kept = filter (final_filter p (w_seen w)) (map (\<lambda>h. h\<lparr>h_linked := False\<rparr>) ranked)
      in fill_budget (cost (encoder (w_models w))) (budget_of p) 0 kept)"

record recall_result =
  rr_fragments :: "hit list"
  rr_totalTokens :: nat
  rr_totalCount :: nat
  rr_hasMore :: bool
  rr_nextCursor :: "(nat \<times> int) option"

definition recall :: "world \<Rightarrow> int \<Rightarrow> recall_params \<Rightarrow> recall_result" where
  "recall w now p =
     (let all = recall_all w now p; next = offset_of p + page_size p; more = next < length all
      in \<lparr>rr_fragments = take (page_size p) (drop (offset_of p) all),
          rr_totalTokens = estimateTokens (encoder (w_models w)) (take (page_size p) (drop (offset_of p) all)),
          rr_totalCount = length all, rr_hasMore = more,
          rr_nextCursor = (if more then Some (next, anchor_of now p) else None)\<rparr>)"

section \<open>What is recalled may be seen\<close>

lemma text_of_linked [simp]: "text_of (linked_cols h) = text_of h"
  by (simp add: linked_cols_def text_of_def search_cols_def)

lemma first_per_id_subset: "set (first_per_id ids ps) \<subseteq> set ps"
  by (induction ps arbitrary: ids) auto

lemma linked_rows_ok: "(h, l) \<in> set (linked_rows ids rel q ls tab) \<Longrightarrow> h \<in> set tab \<and> linked_ok q h"
  by (auto simp: linked_rows_def Let_def)

lemma linked_ok_visible: "linked_ok q h \<Longrightarrow> visible_row q h"
  by (auto simp: linked_ok_def visible_row_def workspace_cond_def)

lemma getLinkedFragments_texts: "texts (getLinkedFragments ids rel q ls tab) \<subseteq> seen_texts q tab"
proof (rule texts_bound)
  fix h assume "h \<in> set (getLinkedFragments ids rel q ls tab)"
  then obtain p where p: "p \<in> set (linked_rows ids rel q ls tab)" "h = linked_cols (fst p)"
    using first_per_id_subset in_set_takeD unfolding getLinkedFragments_def
    by (fastforce split: if_splits)
  from linked_rows_ok [of "fst p" "snd p"] p(1) have r: "fst p \<in> set tab" "visible_row q (fst p)" by (auto intro: linked_ok_visible)
  then have "text_of (fst p) \<in> seen_texts q tab" unfolding seen_texts_def texts_def by simp
  then show "text_of h \<in> seen_texts q tab" by (simp add: p(2))
qed

lemma add_linked_texts: "texts (add_linked q ids hs) \<subseteq> texts hs"
  by (induction hs arbitrary: ids) auto

lemma expand_texts: "texts (expand p q ls tab found) \<subseteq> texts found \<union> seen_texts q tab"
proof -
  have "texts (add_linked q i (filter P (getLinkedFragments j r q ls tab))) \<subseteq> seen_texts q tab" for i P j r
    by (rule subset_trans [OF add_linked_texts subset_trans [OF texts_filter getLinkedFragments_texts]])
  then have "texts found \<union> texts (add_linked q i (filter P (getLinkedFragments j r q ls tab))) \<subseteq> texts found \<union> seen_texts q tab"
    for i P j r by (rule Un_mono [OF subset_refl])
  then show ?thesis unfolding expand_def by (simp only: texts_simps(3) split: if_split) blast
qed

lemma fill_budget_subset: "set (fill_budget c b u hs) \<subseteq> set hs"
  by (induction hs arbitrary: u) auto

lemma final_order_texts [simp]: "texts (final_order now a p kws hs) = texts hs"
  by (simp add: final_order_def Let_def)

lemma visible_row_build: "visible_row (buildSearchQuery (q\<lparr>q_budget := b, q_anchorTime := t\<rparr>)) = visible_row (buildSearchQuery q)"
  by (rule ext) (simp add: visible_row_def buildSearchQuery_def)

lemma seen_texts_build: "seen_texts (buildSearchQuery (q\<lparr>q_budget := b, q_anchorTime := t\<rparr>)) tab = seen_texts (buildSearchQuery q) tab"
  by (simp add: seen_texts_def visible_row_build)

definition ranked_all :: "world \<Rightarrow> int \<Rightarrow> recall_params \<Rightarrow> hit list" where
  "ranked_all w now p =
     (let anchorTime = anchor_of now p; q = (r_query p)\<lparr>q_budget := budget_of p, q_anchorTime := anchorTime\<rparr>;
          r = search (w_models w) (w_order w) (w_embeddings w) (w_inTime w) (w_cbr w) now q (w_index w) (w_links w) (w_tab w)
      in final_order now anchorTime p (snd (snd r)) (expand p (buildSearchQuery q) (w_links w) (w_tab w) (fst r)))"

lemma recall_all_ranked:
  "recall_all w now p =
     fill_budget (cost (encoder (w_models w))) (budget_of p) 0
       (filter (final_filter p (w_seen w)) (map (\<lambda>h. h\<lparr>h_linked := False\<rparr>) (ranked_all w now p)))"
  by (simp add: recall_all_def ranked_all_def Let_def split_def)

lemma ranked_all_texts: "texts (ranked_all w now p) \<subseteq> seen_texts (buildSearchQuery (r_query p)) (w_tab w)"
  unfolding ranked_all_def Let_def final_order_texts
  by (rule subset_trans [OF expand_texts], rule Un_least, rule subset_trans [OF searched_texts], unfold seen_texts_build)
    (rule subset_refl)+


section \<open>Pages\<close>

fun recall_pages :: "nat \<Rightarrow> world \<Rightarrow> (nat \<Rightarrow> int) \<Rightarrow> nat \<Rightarrow> recall_params \<Rightarrow> hit list list" where
  "recall_pages 0 w clock i p = []"
| "recall_pages (Suc n) w clock i p =
     rr_fragments (recall w (clock i) p) #
     (case rr_nextCursor (recall w (clock i) p) of None \<Rightarrow> []
      | Some c \<Rightarrow> recall_pages n w clock (Suc i) (p\<lparr>r_cursor := Some c\<rparr>))"

definition dated :: "hit list \<Rightarrow> bool" where
  "dated hs \<longleftrightarrow> (\<forall>h \<in> set hs. h_created h \<noteq> None)"

lemma dated_texts: "texts xs \<subseteq> texts ys \<Longrightarrow> dated ys \<Longrightarrow> dated xs"
proof (unfold dated_def, rule ballI)
  fix h assume s: "texts xs \<subseteq> texts ys" and d: "\<forall>h \<in> set ys. h_created h \<noteq> None" and "h \<in> set xs"
  from subsetD [OF s texts_memD [OF this(3)]] obtain g where "g \<in> set ys" "text_of h = text_of g" by (auto simp: texts_def)
  with d show "h_created h \<noteq> None" by (simp add: text_of_def)
qed

lemma dated_seen: "texts xs \<subseteq> seen_texts q tab \<Longrightarrow> dated tab \<Longrightarrow> dated xs"
  by (erule dated_texts [where ys = "filter (visible_row q) tab", unfolded seen_texts_def [symmetric]]) (simp add: dated_def)

lemma by_score_cong: "(\<And>h. h \<in> set hs \<Longrightarrow> f h = g h) \<Longrightarrow> by_score f hs = by_score g hs"
proof -
  assume eq: "\<And>h. h \<in> set hs \<Longrightarrow> f h = g h"
  have ins: "(\<And>y. y \<in> insert x (set ys) \<Longrightarrow> f y = g y) \<Longrightarrow> insort_key (\<lambda>h. - f h) x ys = insort_key (\<lambda>h. - g h) x ys" for x ys
    by (induction ys) auto
  show ?thesis unfolding by_score_def using eq
  proof (induction hs)
    case (Cons h hs)
    then show ?case using ins [of h "sort_key (\<lambda>h. - g h) hs"] by simp
  qed simp
qed

lemma score_of_now: "h_created h \<noteq> None \<Longrightarrow> score_of now a h = score_of now' a h"
  by (cases "h_created h") (simp_all add: score_of_def computeRankScore_def proximity_def Let_def split: option.split)

lemma recall_score_now: "h_created h \<noteq> None \<Longrightarrow> computeRecallScore now a lq h = computeRecallScore now' a lq h"
  by (cases "h_created h") (simp_all add: computeRecallScore_def recall_base_def proximity_def split: option.split)

lemma deduplicate_now: "dated hs \<Longrightarrow> deduplicate now a hs = deduplicate now' a hs"
proof -
  assume d: "dated hs"
  have "texts (map snd (fold dedup_add hs [])) \<subseteq> texts hs"
    using deduplicate_texts [of now a hs] by (simp add: deduplicate_def)
  from dated_texts [OF this d] show ?thesis
    unfolding deduplicate_def by (intro by_score_cong score_of_now) (auto simp: dated_def)
qed

lemma executeSearch_now:
  "reranker m = None \<Longrightarrow> executeSearch m order emb in_time now q ix ls tab = executeSearch m order emb in_time now' q ix ls tab"
proof -
  assume "reranker m = None"
  then have b: "buildTextRRF m now = buildTextRRF m now'" by (intro ext) (simp add: buildTextRRF_def)
  show ?thesis unfolding executeSearch_def b ..
qed

lemma search_now:
  assumes "reranker m = None" "dated tab"
  shows "search m order emb in_time cbr now q ix ls tab = search m order emb in_time cbr now' q ix ls tab"
proof -
  have e: "executeSearch m order emb in_time now q ix ls tab = executeSearch m order emb in_time now' q ix ls tab" for q
    by (rule executeSearch_now [OF assms(1)])
  have "deduplicate now a (executeSearch m order emb in_time now' q ix ls tab) =
      deduplicate now' a (executeSearch m order emb in_time now' q ix ls tab)" for a q
    by (rule deduplicate_now [OF dated_seen [OF executeSearch_texts assms(2)]])
  then show ?thesis unfolding search_def e by simp
qed

lemma final_order_now: "dated hs \<Longrightarrow> final_order now a p kws hs = final_order now' a p kws hs"
proof -
  assume "dated hs"
  then have "by_score (computeRecallScore now a lq) hs = by_score (computeRecallScore now' a lq) hs" for lq
    by (intro by_score_cong recall_score_now) (auto simp: dated_def)
  then show ?thesis by (simp add: final_order_def Let_def)
qed

lemma ranked_all_same:
  assumes "reranker (w_models w) = None" "dated (w_tab w)" "anchor_of now p = anchor_of now' p'"
    and "p' = p\<lparr>r_cursor := c\<rparr>"
  shows "ranked_all w now p = ranked_all w now' p'"
proof -
  let ?q = "(r_query p)\<lparr>q_budget := budget_of p, q_anchorTime := anchor_of now p\<rparr>"
  let ?s = "\<lambda>t. search (w_models w) (w_order w) (w_embeddings w) (w_inTime w) (w_cbr w) t ?q (w_index w) (w_links w) (w_tab w)"
  have p': "r_query p' = r_query p" "budget_of p' = budget_of p" "expand p' = expand p"
    by (auto simp: assms(4) budget_of_def expand_def fun_eq_iff)
  have f: "final_order t a p' = final_order t a p" for t a by (auto simp: assms(4) final_order_def fun_eq_iff)
  have s: "?s now = ?s now'" by (rule search_now [OF assms(1,2)])
  have d: "dated (expand p (buildSearchQuery ?q) (w_links w) (w_tab w) (fst (?s now')))"
    by (rule dated_seen [OF _ assms(2)], rule subset_trans [OF expand_texts], rule Un_least [OF searched_texts subset_refl])
  show ?thesis unfolding ranked_all_def Let_def p' f assms(3) [symmetric] s by (rule final_order_now [OF d])
qed

lemma recall_all_same:
  assumes "reranker (w_models w) = None" "dated (w_tab w)" "anchor_of now p = anchor_of now' p'" "p' = p\<lparr>r_cursor := c\<rparr>"
  shows "recall_all w now p = recall_all w now' p'"
proof -
  have sel: "r_query p' = r_query p" "r_threshold p' = r_threshold p" "r_depth p' = r_depth p" "r_excludeSeen p' = r_excludeSeen p"
    "r_session p' = r_session p" by (simp_all add: assms(4))
  have "final_filter p' = final_filter p" by (intro ext) (simp only: final_filter_def sel)
  moreover have "budget_of p' = budget_of p" by (simp only: budget_of_def sel)
  ultimately show ?thesis unfolding recall_all_ranked by (simp add: ranked_all_same [OF assms])
qed

lemma page_size_pos: "0 < page_size p"
  by (simp add: page_size_def)

lemma pages_from:
  assumes "reranker (w_models w) = None" "dated (w_tab w)" "all = recall_all w now p0" "t = anchor_of now p0"
    and "r_cursor p = Some (n, t) \<or> p = p0 \<and> now = clock i \<and> n = offset_of p0" "p = p0\<lparr>r_cursor := r_cursor p\<rparr>"
    and "length all < n + fuel"
  shows "concat (recall_pages fuel w clock i p) = drop n all"
  using assms(5-7)
proof (induction fuel arbitrary: i p n)
  case 0
  then show ?case by simp
next
  case (Suc fuel)
  have off: "offset_of p = n" and anc: "anchor_of (clock i) p = t"
    using Suc.prems(1) assms(4) by (auto simp: offset_of_def anchor_of_def)
  have all: "recall_all w (clock i) p = all"
    unfolding assms(3) by (rule recall_all_same [OF assms(1,2), symmetric]) (use anc assms(4) Suc.prems(2) in auto)
  from arg_cong [OF Suc.prems(2), of page_size] have ps: "page_size p = page_size p0" by (simp add: page_size_def)
  let ?r = "recall w (clock i) p"
  have frag: "rr_fragments ?r = take (page_size p) (drop n all)"
    and next': "rr_nextCursor ?r = (if n + page_size p < length all then Some (n + page_size p, t) else None)"
    by (simp_all add: recall_def Let_def all off anc)
  show ?case
  proof (cases "n + page_size p < length all")
    case True
    let ?p = "p\<lparr>r_cursor := Some (n + page_size p, t)\<rparr>"
    have "concat (recall_pages fuel w clock (Suc i) ?p) = drop (n + page_size p) all"
    proof (rule Suc.IH)
      show "r_cursor ?p = Some (n + page_size p, t) \<or> ?p = p0 \<and> now = clock (Suc i) \<and> n + page_size p = offset_of p0" by simp
      show "?p = p0\<lparr>r_cursor := r_cursor ?p\<rparr>" by (subst Suc.prems(2)) simp
      show "length all < n + page_size p + fuel" using Suc.prems(3) page_size_pos [of p] by linarith
    qed
    moreover have "take (page_size p) (drop n all) @ drop (n + page_size p) all = drop n all"
      by (metis add.commute append_take_drop_id drop_drop)
    ultimately show ?thesis using True by (simp add: frag next')
  next
    case False
    then show ?thesis by (simp add: frag next')
  qed
qed


text \<open>A memory with one fragment that a query by keyword finds, and the recall of it.\<close>

definition note_world :: world where
  "note_world =
     \<lparr>w_models = no_models, w_order = id, w_embeddings = True, w_inTime = True, w_cbr = False, w_index = index_of_note, w_links = [],
      w_tab = [note_of ''f1'' [''jwt'']], w_seen = []\<rparr>"

definition ask_jwt :: recall_params where
  "ask_jwt =
     \<lparr>r_query = asked [''jwt''], r_now_anchor = None, r_cursor = None, r_pageSize = 1, r_threshold = None, r_depth = None,
      r_includeLinks = False, r_relation = None, r_excludeSeen = False, r_session = None\<rparr>"


section \<open>The limit of linked fragments\<close>

text \<open>The same links with other weights.\<close>

definition reweigh :: "(glink \<Rightarrow> real) \<Rightarrow> glink list \<Rightarrow> glink list" where
  "reweigh f ls = map (\<lambda>l. l\<lparr>g_weight := f l\<rparr>) ls"

lemma linked_rows_reweigh:
  "map (h_id \<circ> fst) (linked_rows ids rel q (reweigh f ls) tab) = map (h_id \<circ> fst) (linked_rows ids rel q ls tab)"
  by (simp add: linked_rows_def Let_def reweigh_def map_concat comp_def)

lemma first_per_id_ids: "map (h_id \<circ> fst) (first_per_id seen ps) = filter (\<lambda>i. i \<notin> set seen) (nub (map (h_id \<circ> fst) ps))"
proof -
  have nub_Cons: "nub (x # xs) = x # filter (\<lambda>y. y \<noteq> x) (nub xs)" for x :: string and xs
  proof (induction xs rule: rev_induct)
    case (snoc y ys)
    have "nub (x # ys @ [y]) = nub ((x # ys) @ [y])" by simp
    then show ?case using snoc unfolding nub_simps by auto
  qed (simp add: nub_def)
  show ?thesis by (induction ps arbitrary: seen) (auto simp: nub_Cons intro: filter_cong)
qed

lemma sorted_nub: "sorted xs \<Longrightarrow> sorted (nub xs)" for xs :: "string list"
proof (induction xs rule: rev_induct)
  case (snoc x xs)
  then show ?case by (auto simp: sorted_append)
qed simp

text \<open>
  C38. The limit on linked fragments cuts by id: what comes back are the ten visible neighbours of least id, whatever the
  weights of the links, so a stronger neighbour is lost to a weaker one whose id is smaller.
\<close>

theorem linked_limit_ignores_strength:
  "map h_id (getLinkedFragments ids rel q ls tab) = take 10 (sorted_list_of_set ((h_id \<circ> fst) ` set (linked_rows ids rel q ls tab))) \<and>
   map h_id (getLinkedFragments ids rel q (reweigh f ls) tab) = map h_id (getLinkedFragments ids rel q ls tab)"
proof -
  have by_id: "map h_id (getLinkedFragments ids rel q ks tab) =
      take 10 (sorted_list_of_set ((h_id \<circ> fst) ` set (linked_rows ids rel q ks tab)))" for ks
  proof (cases "ids = []")
    case True
    then have "linked_rows ids rel q ks tab = []" by (simp add: linked_rows_def)
    with True show ?thesis by (simp add: getLinkedFragments_def)
  next
    case False
    let ?s = "sort_key (\<lambda>p. h_id (fst p)) (sort_key (\<lambda>p. - g_weight (snd p)) (sort_key (\<lambda>p. relation_order (g_relation (snd p)))
            (sort_key (\<lambda>p. - nullish_to (h_importance (fst p)) 0) (linked_rows ids rel q ks tab))))"
    have "sorted (map (h_id \<circ> fst) ?s)" using sorted_sort_key [of "\<lambda>p. h_id (fst p)"] by (simp add: comp_def)
    then have n: "sorted (nub (map (h_id \<circ> fst) ?s))" by (rule sorted_nub)
    have "map h_id (getLinkedFragments ids rel q ks tab) = take 10 (map (h_id \<circ> fst) (first_per_id [] ?s))"
      using False by (simp add: getLinkedFragments_def linkedFragmentLimit_def take_map comp_def linked_cols_def search_cols_def)
    also have "\<dots> = take 10 (nub (map (h_id \<circ> fst) ?s))" by (simp add: first_per_id_ids)
    also have "nub (map (h_id \<circ> fst) ?s) = sorted_list_of_set (set (nub (map (h_id \<circ> fst) ?s)))"
      by (rule sorted_list_of_set.idem_if_sorted_distinct [symmetric]) (use n in simp_all)
    finally show ?thesis by simp
  qed
  have "(h_id \<circ> fst) ` set (linked_rows ids rel q (reweigh f ls) tab) = (h_id \<circ> fst) ` set (linked_rows ids rel q ls tab)"
    using arg_cong [OF linked_rows_reweigh, of set] by simp
  then show ?thesis unfolding by_id by simp
qed

section \<open>Previews\<close>

text \<open>The previews of the three strongest links of every result.\<close>

definition previews_of :: "string \<Rightarrow> glink list \<Rightarrow> hit list \<Rightarrow> (string \<times> string \<times> string) list" where
  "previews_of i ls tab =
     map (\<lambda>(h, l). (h_id h, g_relation l, take 60 (nullish_to (h_content h) [])))
       (take 3 (sort_key (\<lambda>p. - g_weight (snd p))
         (concat (map (\<lambda>l. map (\<lambda>h. (h, l)) (filter (\<lambda>h. h_id h = g_to l \<and> g_from l = i \<and> \<not> g_deleted l \<and> \<not> h_expired h) tab)) ls))))"

definition fetchLinkedFragments :: "string list \<Rightarrow> glink list \<Rightarrow> hit list \<Rightarrow> (string \<times> (string \<times> string \<times> string) list) list" where
  "fetchLinkedFragments ids ls tab =
     filter (\<lambda>e. snd e \<noteq> []) (map (\<lambda>i. (i, previews_of i ls tab)) (nub ids))"

text \<open>The rows with other owners: key, agent and workspace.\<close>

definition reown :: "(string \<Rightarrow> string option \<times> string option \<times> string option) \<Rightarrow> hit \<Rightarrow> hit" where
  "reown f h = (case f (h_id h) of (k, a, ws) \<Rightarrow> h\<lparr>h_key := k, h_agent := a, h_workspace := ws\<rparr>)"

lemma reown_simps [simp]: "h_id (reown f h) = h_id h" "h_content (reown f h) = h_content h" "h_expired (reown f h) = h_expired h"
  by (simp_all add: reown_def split: prod.split)


end
