(* ===== verification/Endpoints.thy ===== *)
theory Endpoints
  imports Auth Sessions RateLimit Rpc
begin

text \<open>
  The endpoints that create, use, rotate and close sessions: \<open>POST\<close>, \<open>GET\<close> and \<open>DELETE /mcp\<close> of
  \<open>lib/handlers/mcp-handler.js\<close>, \<open>/sse\<close> and \<open>/message\<close> of \<open>lib/handlers/sse-handler.js\<close>,
  \<open>/session/rotate\<close> of \<open>lib/handlers/session-handler.js\<close>, the checks of origins (\<open>_common.js\<close>,
  \<open>lib/http/helpers.js\<close>) and of the bound address (\<open>lib/network-safety.js\<close>).

  The theory composes authentication, sessions, rate limits and the dispatcher: a \<open>server\<close> holds the state of all
  four, a handler maps a request and a server to the answer, the call of a tool (if one was made) and the new server.
  New session ids are arguments; an exception that no handler catches is the answer \<open>Unhandled\<close>.
\<close>

section \<open>Requests and the server\<close>

record http_request =
  hr_credentials :: request
  hr_origin :: "string option"
  hr_forwardedFor :: "string option"
  hr_remoteAddress :: "string option"
  hr_sessionHeader :: "string option"
  hr_sessionParam :: "string option"
  hr_mcpSessionParam :: "string option"
  hr_protocol :: "string option"
  hr_modeHeader :: "string option"
  hr_userAgent :: "string option"

record post_message =
  pm_rpc :: rpc_msg
  pm_accessKey :: "string option"
  pm_initMode :: "string option"

datatype body = Too_large | Malformed | Not_object | Message post_message

record server_cfg =
  c_oauth :: oauth_cfg
  c_sess :: sess_cfg
  c_authDisabled :: bool
  c_reject :: bool
  c_presets :: presets
  c_strictOrigin :: bool
  c_allowedOrigins :: "string list"
  c_adminOrigins :: "string list"
  c_rotateLimit :: "int option"

record legacy_auth =
  la_keyId :: "string option"
  la_groupKeyIds :: "string list option"
  la_permissions :: "string list option"
  la_defaultWorkspace :: "string option"

record server =
  v_sessions :: sess_state
  v_tokens :: "string redis"
  v_limiter :: dual_limiter
  v_rotate :: rotate_store
  v_oauth :: oauth_state
  v_keys :: key_db
  v_legacy :: "(string, legacy_auth) jsmap"

datatype reply = Status nat string | Unhandled | Answered string rpc_response

type_synonym tool_call = "(string \<times> jobj) option"

section \<open>Origins and addresses\<close>

definition TRUSTED_APPS :: "string list" where
  "TRUSTED_APPS = [''https://claude.ai'', ''https://chatgpt.com'', ''https://platform.openai.com'']"

definition getAllowedOrigin :: "server_cfg \<Rightarrow> http_request \<Rightarrow> string" where
  "getAllowedOrigin c req =
     (if \<not> truthy (hr_origin req) then ''*''
      else if c_allowedOrigins c = [] then the (hr_origin req)
      else if the (hr_origin req) \<in> set (c_allowedOrigins c) then the (hr_origin req) else ''null'')"

definition isOriginAllowed :: "server_cfg \<Rightarrow> http_request \<Rightarrow> bool" where
  "isOriginAllowed c req \<longleftrightarrow>
     \<not> truthy (hr_origin req) \<or> \<not> c_strictOrigin c \<or>
     the (hr_origin req) \<in> set (TRUSTED_APPS @ OAUTH_TRUSTED_ORIGINS (c_oauth c) @ c_allowedOrigins c)"

definition validateOrigin :: "server_cfg \<Rightarrow> http_request \<Rightarrow> bool" where
  "validateOrigin c req \<longleftrightarrow>
     \<not> truthy (hr_origin req) \<or> c_allowedOrigins c = [] \<or> the (hr_origin req) \<in> set (c_allowedOrigins c)"

text \<open>\<open>/^https?:\/\/localhost(:\d+)?$/\<close>, and the same for 127.0.0.1.\<close>

definition js_digit :: "char \<Rightarrow> bool" where
  "js_digit x = (let n = (of_char x :: nat) in 48 \<le> n \<and> n \<le> 57)"

definition local_origin :: "string \<Rightarrow> string \<Rightarrow> bool" where
  "local_origin host o' \<longleftrightarrow>
     list_ex (\<lambda>p. starts_with p o' \<and>
         (case drop (length p) o' of [] \<Rightarrow> True | x # ds \<Rightarrow> x = CHR '':'' \<and> ds \<noteq> [] \<and> list_all js_digit ds))
       [''http://'' @ host, ''https://'' @ host]"

definition isRotateOriginAllowed :: "server_cfg \<Rightarrow> http_request \<Rightarrow> bool" where
  "isRotateOriginAllowed c req =
     (if \<not> truthy (hr_origin req)
      then nullish_to (hr_remoteAddress req) [] \<in> {''127.0.0.1'', ''::1'', ''::ffff:127.0.0.1''}
      else local_origin ''localhost'' (the (hr_origin req)) \<or> local_origin ''127.0.0.1'' (the (hr_origin req)) \<or>
        c_allowedOrigins c = [] \<and> c_adminOrigins c = [] \<or>
        the (hr_origin req) \<in> set (c_allowedOrigins c @ c_adminOrigins c))"

fun split_at :: "char \<Rightarrow> string \<Rightarrow> string list" where
  "split_at x [] = [[]]"
| "split_at x (y # ys) =
     (if y = x then [] # split_at x ys
      else case split_at x ys of w # ws \<Rightarrow> (y # w) # ws | [] \<Rightarrow> [[y]])"

definition isLoopbackHost :: "string \<Rightarrow> bool" where
  "isLoopbackHost host =
     (let t = map to_lower (js_trim host);
          u = (if starts_with ''['' t then tl t else t);
          h = (if u \<noteq> [] \<and> last u = CHR '']'' then butlast u else u)
      in h \<in> {''localhost'', ''::1'', ''::ffff:127.0.0.1''} \<or>
         (case split_at (CHR ''.'') h of
            [a, b, d, e] \<Rightarrow> a = ''127'' \<and> list_all (\<lambda>w. 1 \<le> length w \<and> length w \<le> 3 \<and> list_all js_digit w) [b, d, e]
          | _ \<Rightarrow> False))"

text \<open>The check at the start of the server: \<open>False\<close> is the exception.\<close>

definition assertSafeAuthBinding :: "string \<Rightarrow> string \<Rightarrow> bool \<Rightarrow> bool" where
  "assertSafeAuthBinding host accessKey authDisabled \<longleftrightarrow> \<not> (authDisabled \<and> accessKey = [] \<and> \<not> isLoopbackHost host)"

text \<open>The address that the limiter counts: the first entry of the forwarding header, if there is one.\<close>

definition clientIp_of :: "http_request \<Rightarrow> string" where
  "clientIp_of req =
     the (js_or (map_option (\<lambda>f. js_trim (hd (split_at (CHR '','') f))) (hr_forwardedFor req))
       (js_or (hr_remoteAddress req) (Some ''unknown'')))"

text \<open>The helper for trusted proxies, which no handler uses.\<close>

definition getClientIp :: "http_request \<Rightarrow> nat option \<Rightarrow> string" where
  "getClientIp req hops =
     (let fallback = the (js_or (hr_remoteAddress req) (Some ''unknown'')); xff = hr_forwardedFor req
      in case hops of
           None \<Rightarrow>
             if \<not> truthy xff then fallback
             else (let first = js_trim (hd (split_at (CHR '','') (the xff))) in if first \<noteq> [] then first else fallback)
         | Some n \<Rightarrow>
             if n < 1 \<or> \<not> truthy xff then fallback
             else
               let chain = filter (\<lambda>w. w \<noteq> []) (map js_trim (split_at (CHR '','') (the xff)))
               in if chain = [] then fallback else chain ! (length chain - n))"

definition session_of :: "http_request \<Rightarrow> string option" where
  "session_of req = js_or (hr_sessionHeader req) (js_or (hr_sessionParam req) (hr_mcpSessionParam req))"

section \<open>The result of an authentication\<close>

definition auth_key :: "auth_result \<Rightarrow> string option" where
  "auth_key r = (case r of KeyAuth _ info \<Rightarrow> Some (keyId info) | _ \<Rightarrow> None)"

definition auth_groups :: "auth_result \<Rightarrow> string list option" where
  "auth_groups r = (case r of KeyAuth _ info \<Rightarrow> groupKeyIds info | _ \<Rightarrow> None)"

definition auth_permissions :: "auth_result \<Rightarrow> string list option" where
  "auth_permissions r = (case r of KeyAuth _ info \<Rightarrow> Some (i_permissions info) | _ \<Rightarrow> None)"

definition auth_workspace :: "auth_result \<Rightarrow> string option" where
  "auth_workspace r = (case r of KeyAuth _ info \<Rightarrow> defaultWorkspace info | _ \<Rightarrow> None)"

definition auth_mode :: "auth_result \<Rightarrow> string option" where
  "auth_mode r = (case r of KeyAuth _ info \<Rightarrow> defaultMode info | _ \<Rightarrow> None)"

fun is_denied :: "auth_result \<Rightarrow> bool" where
  "is_denied (Denied e) = True"
| "is_denied _ = False"

text \<open>The message as the authentication sees it.\<close>

definition auth_message :: "post_message \<Rightarrow> message" where
  "auth_message m =
     \<lparr>msg_method = (case rpc_method (pm_rpc m) of JStr s \<Rightarrow> s | _ \<Rightarrow> []), msg_access_key = pm_accessKey m\<rparr>"

definition is_initialize :: "post_message \<Rightarrow> bool" where
  "is_initialize m = isInitializeRequest (Some (auth_message m))"

definition authenticate ::
  "server_cfg \<Rightarrow> int \<Rightarrow> int \<Rightarrow> http_request \<Rightarrow> post_message option \<Rightarrow> server \<Rightarrow> auth_result \<times> server" where
  "authenticate c now today req m v =
     (case validateAuthentication (c_oauth c) (c_authDisabled c) (c_reject c) now today (hr_credentials req)
             (map_option auth_message m) (v_oauth v) (v_keys v) of
        (r, s, db) \<Rightarrow> (r, v\<lparr>v_oauth := s, v_keys := db\<rparr>))"

definition request_mode :: "server_cfg \<Rightarrow> http_request \<Rightarrow> post_message \<Rightarrow> string option \<Rightarrow> string option" where
  "request_mode c req m dbDefault =
     resolveMode (c_presets c) (hr_modeHeader req) (if is_initialize m then pm_initMode m else None) dbDefault"

section \<open>The session of a request\<close>

record sess_ctx =
  t_sessionId :: string
  t_keyId :: "string option"
  t_groupKeyIds :: "string list option"
  t_permissions :: "string list option"
  t_workspace :: "string option"
  t_mode :: "string option"

definition ctx_of_auth :: "string \<Rightarrow> auth_result \<Rightarrow> string option \<Rightarrow> sess_ctx" where
  "ctx_of_auth i r mode =
     \<lparr>t_sessionId = i, t_keyId = auth_key r, t_groupKeyIds = auth_groups r, t_permissions = auth_permissions r,
      t_workspace = auth_workspace r, t_mode = mode\<rparr>"

definition ctx_of_session :: "string \<Rightarrow> session \<Rightarrow> string list option \<Rightarrow> sess_ctx" where
  "ctx_of_session i s groups =
     \<lparr>t_sessionId = i, t_keyId = s_keyId s, t_groupKeyIds = groups, t_permissions = s_permissions s,
      t_workspace = s_defaultWorkspace s, t_mode = s_mode s\<rparr>"

text \<open>The header when it names a supported version, the default when it is absent.\<close>

definition reanchor_version :: "server_cfg \<Rightarrow> http_request \<Rightarrow> string option" where
  "reanchor_version c req =
     (let w = the (js_or (hr_protocol req) (Some ''2025-03-26''))
      in if w \<in> set (SUPPORTED_PROTOCOL_VERSIONS (c_sess c)) then Some w else None)"

text \<open>A session that is lost or expired is made again under its id for a request with valid credentials.\<close>

definition recover_session ::
  "server_cfg \<Rightarrow> int \<Rightarrow> int \<Rightarrow> http_request \<Rightarrow> string \<Rightarrow> post_message \<Rightarrow> server \<Rightarrow> (reply + sess_ctx) \<times> server" where
  "recover_session c now today req i m v =
     (case authenticate c now today req (Some m) v of
        (r, v1) \<Rightarrow>
          if is_denied r then (Inl (Status 404 ''Session not found''), v1)
          else if REDIS_ENABLED (c_oauth c) \<and>
                  (case getSession now i (session_redis (v_sessions v1)) of
                     None \<Rightarrow> False | Some e \<Rightarrow> s_keyId e \<noteq> auth_key r)
          then (Inl (Status 403 ''Forbidden''), v1)
          else
            let mode = request_mode c req m (auth_mode r)
            in (Inr (ctx_of_auth i r mode),
                v1\<lparr>v_sessions := createStreamableSessionWithId (c_sess c) now i True (auth_key r) (auth_groups r)
                      (auth_permissions r) (auth_workspace r) mode (reanchor_version c req) (v_sessions v1)\<rparr>))"

text \<open>The groups of a session that has a key and no groups are read again and stored.\<close>

definition refetch_groups ::
  "server_cfg \<Rightarrow> int \<Rightarrow> string \<Rightarrow> session \<Rightarrow> server \<Rightarrow> (reply + string list option \<times> session) \<times> server" where
  "refetch_groups c now i s v =
     (if (s_groupKeyIds s = None \<or> s_groupKeyIds s = Some []) \<and> truthy (s_keyId s)
      then (case getGroupKeyIds (s_keyId s) (v_keys v) of
              Inl _ \<Rightarrow> (Inl Unhandled, v)
            | Inr None \<Rightarrow> (Inr (s_groupKeyIds s, s), v)
            | Inr (Some g) \<Rightarrow>
                let s' = s\<lparr>s_groupKeyIds := Some g\<rparr>
                in (Inr (Some g, s'),
                    v\<lparr>v_sessions := save_redis (c_sess c) now i s' (ceil_div (SESSION_TTL_MS (c_sess c)) 1000)
                         (put_session i s' (v_sessions v))\<rparr>))
      else (Inr (s_groupKeyIds s, s), v))"

definition resolveExistingSession ::
  "server_cfg \<Rightarrow> int \<Rightarrow> int \<Rightarrow> http_request \<Rightarrow> string \<Rightarrow> post_message \<Rightarrow> server \<Rightarrow> (reply + sess_ctx) \<times> server" where
  "resolveExistingSession c now today req i m v =
     (case validateStreamableSession (c_sess c) now i (reanchor_version c req) (v_sessions v) of
        (Inl reason, st) \<Rightarrow>
          let v1 = v\<lparr>v_sessions := st\<rparr>
          in if reason \<in> {''Session not found'', ''Session expired''} then recover_session c now today req i m v1
             else (Inl (Status 404 ''Session not found''), v1)
      | (Inr s, st) \<Rightarrow>
          (case refetch_groups c now i s (v\<lparr>v_sessions := st\<rparr>) of
             (Inl r, v1) \<Rightarrow> (Inl r, v1)
           | (Inr (groups, s'), v1) \<Rightarrow>
               if authenticated s' then (Inr (ctx_of_session i s groups), v1)
               else (case authenticate c now today req (Some m) v1 of
                       (r, v2) \<Rightarrow>
                         if is_denied r then (Inl (Status 401 ''Unauthorized''), v2)
                         else (Inr (ctx_of_session i s groups),
                               v2\<lparr>v_sessions := put_session i (s'\<lparr>authenticated := True\<rparr>) (v_sessions v2)\<rparr>))))"

text \<open>The key of the index from tokens to sessions.  The hash is cut to sixteen digits.\<close>

definition deriveTokenKey :: "server_cfg \<Rightarrow> http_request \<Rightarrow> post_message \<Rightarrow> auth_result \<Rightarrow> string option" where
  "deriveTokenKey c req m r =
     (let raw = (case extractBearerToken (authorization (hr_credentials req)) of
                   Some t \<Rightarrow> Some t
                 | None \<Rightarrow>
                     if truthy (legacy_key (hr_credentials req)) then legacy_key (hr_credentials req)
                     else if is_initialize m \<and> truthy (pm_accessKey m) then pm_accessKey m else None)
      in if \<not> truthy raw then None
         else Some (the (js_or (auth_key r) (Some ''master'')) @ '':'' @ take 16 (sha (c_oauth c) (the raw))))"

text \<open>The session that the index has for the token, if it still validates.\<close>

definition reusable_session :: "server_cfg \<Rightarrow> int \<Rightarrow> string option \<Rightarrow> server \<Rightarrow> string option \<times> server" where
  "reusable_session c now tokenKey v =
     (case tokenKey of
        None \<Rightarrow> (None, v)
      | Some tk \<Rightarrow>
          (case getSessionIdByToken now tk (v_tokens v) of
             None \<Rightarrow> (None, v)
           | Some i \<Rightarrow>
               (case validateStreamableSession (c_sess c) now i None (v_sessions v) of
                  (Inl _, st) \<Rightarrow> (None, v\<lparr>v_sessions := st\<rparr>)
                | (Inr _, st) \<Rightarrow> (Some i, v\<lparr>v_sessions := st\<rparr>))))"

definition createInitializeSession ::
  "server_cfg \<Rightarrow> int \<Rightarrow> int \<Rightarrow> string \<Rightarrow> http_request \<Rightarrow> post_message \<Rightarrow> server \<Rightarrow> (reply + sess_ctx) \<times> server" where
  "createInitializeSession c now today newId req m v =
     (case authenticate c now today req (Some m) v of
        (r, v1) \<Rightarrow>
          if is_denied r then (Inl (Status 401 ''Unauthorized''), v1)
          else
            let mode = request_mode c req m (auth_mode r); tk = deriveTokenKey c req m r
            in (case reusable_session c now tk v1 of
                  (Some i, v2) \<Rightarrow> (Inr (ctx_of_auth i r mode), v2)
                | (None, v2) \<Rightarrow>
                    let st = createStreamableSessionWithId (c_sess c) now newId True (auth_key r) (auth_groups r)
                               (auth_permissions r) (auth_workspace r) mode None (v_sessions v2);
                        tokens = (case tk of None \<Rightarrow> v_tokens v2
                                  | Some k \<Rightarrow> snd (bindTokenToSession now k newId
                                      (ceil_div (SESSION_TTL_MS (c_sess c)) 1000) (v_tokens v2)))
                    in (Inr (ctx_of_auth newId r mode), v2\<lparr>v_sessions := st, v_tokens := tokens\<rparr>)))"

section \<open>POST /mcp\<close>

text \<open>What the dispatcher calls for the other methods gets the key, the groups and the mode of the session.\<close>

type_synonym other_methods = "string option \<Rightarrow> string list option \<Rightarrow> string option \<Rightarrow> string \<Rightarrow> rpc_exn + jv"

definition validateProtocolVersion ::
  "server_cfg \<Rightarrow> http_request \<Rightarrow> post_message \<Rightarrow> string \<Rightarrow> server \<Rightarrow> reply option \<times> server" where
  "validateProtocolVersion c req m i v =
     (if is_initialize m then (None, v)
      else if reanchor_version c req = None then (Some (Status 400 ''Unsupported protocol version''), v)
      else if \<not> truthy (hr_protocol req) then (None, v)
      else case map_of (streamableSessions (v_sessions v)) i of
        None \<Rightarrow> (None, v)
      | Some s \<Rightarrow>
          if negotiatedVersion s = hr_protocol req then (None, v)
          else (None, v\<lparr>v_sessions := put_session i (s\<lparr>negotiatedVersion := hr_protocol req\<rparr>) (v_sessions v)\<rparr>))"

text \<open>The negotiated version of an answer to \<open>initialize\<close> is stored with the session.\<close>

definition store_version :: "server_cfg \<Rightarrow> int \<Rightarrow> string \<Rightarrow> rpc_response \<Rightarrow> server \<Rightarrow> server" where
  "store_version c now i resp v =
     (case resp of
        Reply _ (Result j) \<Rightarrow>
          (case obj_get j ''protocolVersion'' of
             JStr w \<Rightarrow>
               if w = [] then v
               else (case map_of (streamableSessions (v_sessions v)) i of
                       None \<Rightarrow> v
                     | Some s \<Rightarrow>
                         let s' = s\<lparr>negotiatedVersion := Some w\<rparr>
                         in v\<lparr>v_sessions := save_redis (c_sess c) now i s' (max (ceil_div (expiresAt s' - now) 1000) 60)
                              (put_session i s' (v_sessions v))\<rparr>)
           | _ \<Rightarrow> v)
      | _ \<Rightarrow> v)"

definition dispatchAndRespond ::
  "server_cfg \<Rightarrow> int \<Rightarrow> post_message \<Rightarrow> rpc_msg \<Rightarrow> sess_ctx \<Rightarrow> handlers \<Rightarrow> other_methods \<Rightarrow> (string \<Rightarrow> rpc_exn + jv) \<Rightarrow> server
     \<Rightarrow> (reply \<times> tool_call) \<times> server" where
  "dispatchAndRespond c now m msg x run other inherited v =
     (case dispatchJsonRpc run (other (t_keyId x) (t_groupKeyIds x) (t_mode x)) inherited (Some msg) of
        (resp, call) \<Rightarrow>
          ((Answered (t_sessionId x) resp, call), if is_initialize m then store_version c now (t_sessionId x) resp v else v))"

definition tool_ctx_of :: "http_request \<Rightarrow> sess_ctx \<Rightarrow> tool_ctx" where
  "tool_ctx_of req x =
     \<lparr>x_sessionId = JStr (t_sessionId x), x_keyId = t_keyId x, x_groupKeyIds = t_groupKeyIds x, x_permissions = t_permissions x,
      x_workspace = t_workspace x, x_mode = t_mode x, x_clientIp = Some (clientIp_of req),
      x_userAgent = Some (the (js_or (hr_userAgent req) (Some ''unknown'')))\<rparr>"

text \<open>The session of the request: the one that it names, or the one that an \<open>initialize\<close> gets.\<close>

definition obtain_session ::
  "server_cfg \<Rightarrow> int \<Rightarrow> int \<Rightarrow> string \<Rightarrow> http_request \<Rightarrow> post_message \<Rightarrow> server \<Rightarrow> (reply + sess_ctx) \<times> server" where
  "obtain_session c now today newId req m v =
     (case session_of req of
        Some i \<Rightarrow>
          if i \<noteq> [] then resolveExistingSession c now today req i m v
          else if is_initialize m then
            (case dual_allow now (clientIp_of req) None (v_limiter v) of
               (ok, l) \<Rightarrow>
                 if ok then createInitializeSession c now today newId req m (v\<lparr>v_limiter := l\<rparr>)
                 else (Inl (Status 429 ''Too many requests''), v\<lparr>v_limiter := l\<rparr>))
          else (Inl (Status 400 ''Session required''), v)
      | None \<Rightarrow>
          if is_initialize m then
            (case dual_allow now (clientIp_of req) None (v_limiter v) of
               (ok, l) \<Rightarrow>
                 if ok then createInitializeSession c now today newId req m (v\<lparr>v_limiter := l\<rparr>)
                 else (Inl (Status 429 ''Too many requests''), v\<lparr>v_limiter := l\<rparr>))
          else (Inl (Status 400 ''Session required''), v))"

text \<open>The limit per key, or per address for a session without a key; an \<open>initialize\<close> was counted before.\<close>

definition message_limit :: "int \<Rightarrow> http_request \<Rightarrow> post_message \<Rightarrow> sess_ctx \<Rightarrow> server \<Rightarrow> bool \<times> server" where
  "message_limit now req m x v =
     (if is_initialize m then (True, v)
      else case dual_allow now (clientIp_of req) (t_keyId x) (v_limiter v) of (ok, l) \<Rightarrow> (ok, v\<lparr>v_limiter := l\<rparr>))"

definition run_message ::
  "server_cfg \<Rightarrow> int \<Rightarrow> http_request \<Rightarrow> post_message \<Rightarrow> sess_ctx \<Rightarrow> handlers \<Rightarrow> other_methods \<Rightarrow> (string \<Rightarrow> rpc_exn + jv) \<Rightarrow> server
     \<Rightarrow> (reply \<times> tool_call) \<times> server" where
  "run_message c now req m x run other inherited v =
     (case injectSessionContext (tool_ctx_of req x) (pm_rpc m) of
        None \<Rightarrow> ((Unhandled, None), v)
      | Some msg \<Rightarrow>
          (case validateProtocolVersion c req m (t_sessionId x) v of
             (Some r, v1) \<Rightarrow> ((r, None), v1)
           | (None, v1) \<Rightarrow> dispatchAndRespond c now m msg x run other inherited v1))"

definition handle_message ::
  "server_cfg \<Rightarrow> int \<Rightarrow> int \<Rightarrow> string \<Rightarrow> http_request \<Rightarrow> post_message \<Rightarrow> handlers \<Rightarrow> other_methods \<Rightarrow> (string \<Rightarrow> rpc_exn + jv) \<Rightarrow> server
     \<Rightarrow> (reply \<times> tool_call) \<times> server" where
  "handle_message c now today newId req m run other inherited v =
     (case obtain_session c now today newId req m v of
        (Inl r, v1) \<Rightarrow> ((r, None), v1)
      | (Inr x, v1) \<Rightarrow>
          (case message_limit now req m x v1 of
             (ok, v2) \<Rightarrow>
               if ok then run_message c now req m x run other inherited v2
               else ((Status 429 ''Too many requests'', None), v2)))"

definition handleMcpPost ::
  "server_cfg \<Rightarrow> int \<Rightarrow> int \<Rightarrow> string \<Rightarrow> http_request \<Rightarrow> body \<Rightarrow> handlers \<Rightarrow> other_methods \<Rightarrow> (string \<Rightarrow> rpc_exn + jv) \<Rightarrow> server
     \<Rightarrow> (reply \<times> tool_call) \<times> server" where
  "handleMcpPost c now today newId req b run other inherited v =
     (if \<not> isOriginAllowed c req then ((Status 403 ''Origin not allowed'', None), v)
      else case b of
        Too_large \<Rightarrow> ((Status 413 ''Payload too large'', None), v)
      | Malformed \<Rightarrow> ((Status 400 ''Parse error'', None), v)
      | Not_object \<Rightarrow> ((Status 400 ''Invalid Request'', None), v)
      | Message m \<Rightarrow> handle_message c now today newId req m run other inherited v)"

section \<open>GET and DELETE /mcp\<close>

definition handleMcpGet :: "server_cfg \<Rightarrow> int \<Rightarrow> http_request \<Rightarrow> server \<Rightarrow> reply \<times> server" where
  "handleMcpGet c now req v =
     (if \<not> isOriginAllowed c req then (Status 403 ''Origin not allowed'', v)
      else if \<not> truthy (session_of req) then (Status 400 ''Missing session ID'', v)
      else let i = the (session_of req) in
        (case validateStreamableSession (c_sess c) now i None (v_sessions v) of
           (Inl reason, st) \<Rightarrow> (Status 400 reason, v\<lparr>v_sessions := st\<rparr>)
         | (Inr s, st) \<Rightarrow>
             if \<not> authenticated s then (Status 401 ''Unauthorized'', v\<lparr>v_sessions := st\<rparr>)
             else (Status 200 ''stream'', v\<lparr>v_sessions := setSseResponse i True st\<rparr>)))"

text \<open>The end of the stream.\<close>

definition sse_closed :: "string \<Rightarrow> server \<Rightarrow> server" where
  "sse_closed i v = v\<lparr>v_sessions := setSseResponse i False (v_sessions v)\<rparr>"

definition handleMcpDelete :: "server_cfg \<Rightarrow> int \<Rightarrow> int \<Rightarrow> http_request \<Rightarrow> server \<Rightarrow> reply \<times> server" where
  "handleMcpDelete c now today req v =
     (if \<not> isOriginAllowed c req then (Status 403 ''Origin not allowed'', v)
      else if \<not> truthy (session_of req) then (Status 400 ''Missing session ID'', v)
      else let i = the (session_of req) in
        (case validateStreamableSession (c_sess c) now i None (v_sessions v) of
           (Inl reason, st) \<Rightarrow> (Status 400 reason, v\<lparr>v_sessions := st\<rparr>)
         | (Inr s, st) \<Rightarrow>
             (case authenticate c now today req None (v\<lparr>v_sessions := st\<rparr>) of
                (r, v1) \<Rightarrow>
                  if is_denied r then (Status 401 ''Unauthorized'', v1)
                  else if auth_key r \<noteq> None \<and> auth_key r \<noteq> s_keyId s then (Status 403 ''Forbidden'', v1)
                  else (Status 200 [], v1\<lparr>v_sessions := closeStreamableSession (c_sess c) i False (v_sessions v1)\<rparr>))))"

section \<open>POST /session/rotate\<close>

text \<open>The reason of the body only goes into the log and the answer.\<close>

definition handleSessionRotate ::
  "server_cfg \<Rightarrow> int \<Rightarrow> int \<Rightarrow> string \<Rightarrow> http_request \<Rightarrow> server \<Rightarrow> (reply + string \<times> string \<times> int) \<times> server" where
  "handleSessionRotate c now today newId req v =
     (if \<not> isRotateOriginAllowed c req then (Inl (Status 403 ''Origin not allowed''), v)
      else case checkRotateRateLimit (c_rotateLimit c) now (hr_forwardedFor req) (hr_remoteAddress req) (v_rotate v) of
        ((ok, retryAfter), rs) \<Rightarrow>
          let v1 = v\<lparr>v_rotate := rs\<rparr>
          in if \<not> ok then (Inl (Status 429 ''Rate limit exceeded''), v1)
             else (case authenticate c now today req None v1 of
                     (r, v2) \<Rightarrow>
                       if is_denied r then (Inl (Status 401 ''Valid Bearer token required''), v2)
                       else if \<not> truthy (hr_sessionHeader req) then (Inl (Status 400 ''Mcp-Session-Id header is required''), v2)
                       else (case rotateSession (c_sess c) now newId (the (hr_sessionHeader req)) (v_sessions v2) of
                               (Inl (n, e), st) \<Rightarrow> (Inl (Status n e), v2\<lparr>v_sessions := st\<rparr>)
                             | (Inr (old, new, expires, _), st) \<Rightarrow> (Inr (old, new, expires), v2\<lparr>v_sessions := st\<rparr>))))"

section \<open>The legacy transport\<close>

text \<open>\<open>queryKey\<close> is the decoded parameter \<open>accessKey\<close> of the address.\<close>

definition handleLegacySseGet ::
  "server_cfg \<Rightarrow> int \<Rightarrow> int \<Rightarrow> string \<Rightarrow> http_request \<Rightarrow> string \<Rightarrow> server \<Rightarrow> (reply + string) \<times> server" where
  "handleLegacySseGet c now today newId req queryKey v =
     (let found = (if ACCESS_KEY (c_oauth c) = [] then (Some (Master False), v)
                   else case authenticate c now today req None v of
                     (r, v1) \<Rightarrow>
                       if \<not> is_denied r then (Some r, v1)
                       else if queryKey \<noteq> [] \<and> safeCompare (sha (c_oauth c)) queryKey (ACCESS_KEY (c_oauth c))
                       then (Some (Master False), v1) else (None, v1))
      in (case found of
            (None, v1) \<Rightarrow> (Inl (Status 401 ''Unauthorized''), v1)
          | (Some r, v1) \<Rightarrow>
              (Inr newId,
               v1\<lparr>v_sessions := (let st = createLegacySseSession (c_sess c) now newId (v_sessions v1)
                      in st\<lparr>legacySseSessions := map (\<lambda>(j, s). (j, if j = newId then s\<lparr>l_authenticated := True\<rparr> else s))
                              (legacySseSessions st)\<rparr>),
                  v_legacy := AList.update newId
                    \<lparr>la_keyId = js_or (auth_key r) None, la_groupKeyIds = auth_groups r, la_permissions = auth_permissions r,
                     la_defaultWorkspace = auth_workspace r\<rparr> (v_legacy v1)\<rparr>)))"

text \<open>The groups of a stale session are read again.\<close>

definition legacy_context :: "string \<Rightarrow> server \<Rightarrow> legacy_auth option \<times> server" where
  "legacy_context i v =
     (let la = nullish_to (map_of (v_legacy v) i)
            \<lparr>la_keyId = None, la_groupKeyIds = None, la_permissions = None, la_defaultWorkspace = None\<rparr>
      in if (la_groupKeyIds la = None \<or> la_groupKeyIds la = Some []) \<and> truthy (la_keyId la)
         then (case getGroupKeyIds (la_keyId la) (v_keys v) of
                 Inl _ \<Rightarrow> (None, v)
               | Inr None \<Rightarrow> (Some la, v)
               | Inr (Some g) \<Rightarrow>
                   let la' = la\<lparr>la_groupKeyIds := Some g\<rparr> in (Some la', v\<lparr>v_legacy := AList.update i la' (v_legacy v)\<rparr>))
         else (Some la, v))"

definition legacy_tool_ctx :: "string \<Rightarrow> legacy_auth \<Rightarrow> tool_ctx" where
  "legacy_tool_ctx i la =
     \<lparr>x_sessionId = JStr i, x_keyId = la_keyId la, x_groupKeyIds = la_groupKeyIds la, x_permissions = la_permissions la,
      x_workspace = la_defaultWorkspace la, x_mode = None, x_clientIp = None, x_userAgent = None\<rparr>"

text \<open>
  The answer goes to the stream.  The context is only injected into tool calls: the other methods get the
  parameters of the client (\<open>other\<close> has them).
\<close>

definition handleLegacySsePost ::
  "server_cfg \<Rightarrow> int \<Rightarrow> http_request \<Rightarrow> body \<Rightarrow> handlers \<Rightarrow> (string option \<Rightarrow> string \<Rightarrow> rpc_exn + jv) \<Rightarrow> (string \<Rightarrow> rpc_exn + jv) \<Rightarrow> server
     \<Rightarrow> (reply \<times> tool_call) \<times> server" where
  "handleLegacySsePost c now req b run other inherited v =
     (if \<not> truthy (hr_sessionParam req) then ((Status 400 ''Missing session ID'', None), v)
      else let i = the (hr_sessionParam req) in
        (case validateLegacySseSession (c_sess c) now i (v_sessions v) of
           (Inl reason, st) \<Rightarrow> ((Status 404 reason, None), v\<lparr>v_sessions := st\<rparr>)
         | (Inr s, st) \<Rightarrow>
             let v1 = v\<lparr>v_sessions := st\<rparr>
             in if \<not> l_authenticated s then ((Status 401 ''Unauthorized'', None), v1)
                else if b = Too_large then ((Status 413 ''Payload too large'', None), v1)
                else if b = Malformed then ((Status 400 ''Invalid JSON'', None), v1)
                else (case legacy_context i v1 of
                   (None, v2) \<Rightarrow> ((Unhandled, None), v2)
                 | (Some la, v2) \<Rightarrow>
                     (case b of
                        Message m \<Rightarrow>
                          (case injectSessionContext (legacy_tool_ctx i la) (pm_rpc m) of
                             None \<Rightarrow> ((Unhandled, None), v2)
                           | Some msg \<Rightarrow>
                               (case dispatchJsonRpc run (other (la_keyId la)) inherited (Some msg) of
                                  (resp, call) \<Rightarrow> ((Answered i resp, call), v2)))
                      | _ \<Rightarrow> ((Answered i (fst (dispatchJsonRpc run (other (la_keyId la)) inherited None)), None), v2)))))"

section \<open>Whom a call acts for\<close>

lemma injected_key: "map_of (inject_args x a) ''_keyId'' = Some (js_str (x_keyId x))"
  by (simp add: map_of_inject internal_fields_def context_fields_def)

lemma call_is_injected:
  assumes "injectSessionContext x msg = Some msg'" "snd (dispatchJsonRpc run other inherited (Some msg')) = Some (t, a)"
  shows "\<exists>b. a = inject_args x b \<and> permitted (x_permissions x) t"
proof (cases "rpc_method msg = JStr ''tools/call''")
  case True
  then obtain b where m: "msg' = msg\<lparr>rpc_args := ArgObj (inject_args x b)\<rparr>"
    using assms(1) by (auto simp: injectSessionContext_def split: call_args.split_asm)
  show ?thesis
  proof (cases "rpc_tool msg")
    case (JStr n)
    with assms(2) True show ?thesis
      by (auto simp: m dispatchJsonRpc_def run_method_def handleToolsCall_injected Let_def split: sum.split_asm if_split_asm)
  qed (use assms(2) True in \<open>auto simp: m dispatchJsonRpc_def run_method_def handleToolsCall_def Let_def split: if_split_asm\<close>)
next
  case False
  then have "msg' = msg" using assms(1) by (simp add: injectSessionContext_def)
  with False assms(2) show ?thesis
    by (auto simp: dispatchJsonRpc_def run_method_def Let_def split: jv.split_asm if_split_asm sum.split_asm)
qed

text \<open>The result of the authentication of a request.\<close>

definition auth_of :: "server_cfg \<Rightarrow> int \<Rightarrow> int \<Rightarrow> http_request \<Rightarrow> post_message option \<Rightarrow> server \<Rightarrow> auth_result" where
  "auth_of c now today req m v = fst (authenticate c now today req m v)"

lemma auth_of_other [simp]:
  "auth_of c now today req m (v\<lparr>v_sessions := st\<rparr>) = auth_of c now today req m v"
  "auth_of c now today req m (v\<lparr>v_limiter := l\<rparr>) = auth_of c now today req m v"
  "auth_of c now today req m (v\<lparr>v_rotate := rs\<rparr>) = auth_of c now today req m v"
  by (simp_all add: auth_of_def authenticate_def split_def)

definition auth_after :: "server_cfg \<Rightarrow> int \<Rightarrow> int \<Rightarrow> http_request \<Rightarrow> post_message option \<Rightarrow> server \<Rightarrow> server" where
  "auth_after c now today req m v = snd (authenticate c now today req m v)"

lemma authenticate_split: "authenticate c now today req m v = (auth_of c now today req m v, auth_after c now today req m v)"
  by (simp add: auth_of_def auth_after_def)

lemma auth_after_other [simp]:
  "v_sessions (auth_after c now today req m v) = v_sessions v" "v_limiter (auth_after c now today req m v) = v_limiter v"
  "v_tokens (auth_after c now today req m v) = v_tokens v" "v_rotate (auth_after c now today req m v) = v_rotate v"
  "v_legacy (auth_after c now today req m v) = v_legacy v"
  by (simp_all add: auth_after_def authenticate_def split_def)

text \<open>
  A context is good for a request when it is that of the session which the request names, or that of valid
  credentials in the request.
\<close>

definition ctx_good :: "server_cfg \<Rightarrow> int \<Rightarrow> int \<Rightarrow> http_request \<Rightarrow> post_message \<Rightarrow> server \<Rightarrow> sess_ctx \<Rightarrow> bool" where
  "ctx_good c now today req m v x \<longleftrightarrow>
     (\<exists>i s. session_of req = Some i \<and> fst (validateStreamableSession (c_sess c) now i (reanchor_version c req) (v_sessions v)) = Inr s \<and>
        (authenticated s \<or> \<not> is_denied (auth_of c now today req (Some m) v)) \<and>
        t_keyId x = s_keyId s \<and> t_permissions x = s_permissions s) \<or>
     (\<not> is_denied (auth_of c now today req (Some m) v) \<and>
        t_keyId x = auth_key (auth_of c now today req (Some m) v) \<and>
        t_permissions x = auth_permissions (auth_of c now today req (Some m) v))"

lemma recover_good:
  assumes "recover_session c now today req i m v = (Inr x, v')"
  shows "\<not> is_denied (auth_of c now today req (Some m) v) \<and> t_keyId x = auth_key (auth_of c now today req (Some m) v) \<and>
    t_permissions x = auth_permissions (auth_of c now today req (Some m) v)"
  using assms unfolding recover_session_def authenticate_split
  by (auto simp: ctx_of_auth_def Let_def split: if_split_asm)

lemma refetch_keeps:
  assumes "refetch_groups c now i s v = (Inr (g, s'), v')"
  shows "s_keyId s' = s_keyId s \<and> s_permissions s' = s_permissions s \<and> authenticated s' = authenticated s \<and>
    auth_of c now' today req m v' = auth_of c now' today req m v"
  using assms
  by (auto simp: refetch_groups_def Let_def split: if_split_asm sum.split_asm option.split_asm)

lemma resolve_good:
  assumes "resolveExistingSession c now today req i m v = (Inr x, v')" "session_of req = Some i"
  shows "ctx_good c now today req m v x"
proof (cases "validateStreamableSession (c_sess c) now i (reanchor_version c req) (v_sessions v)")
  case (Pair r st)
  show ?thesis
  proof (cases r)
    case (Inl reason)
    with assms(1) Pair have "recover_session c now today req i m (v\<lparr>v_sessions := st\<rparr>) = (Inr x, v')"
      by (simp add: resolveExistingSession_def Let_def split: if_split_asm)
    from recover_good [OF this] show ?thesis by (simp add: ctx_good_def)
  next
    case (Inr s)
    obtain q v1 where q: "refetch_groups c now i s (v\<lparr>v_sessions := st\<rparr>) = (q, v1)" by fastforce
    note r = assms(1) [unfolded resolveExistingSession_def Pair Inr prod.case sum.case q]
    from r obtain g s' where g: "q = Inr (g, s')" by (cases q) auto
    note k = refetch_keeps [OF q [unfolded g], of now today req "Some m"]
    note r = r [unfolded g sum.case prod.case authenticate_split]
    have "t_keyId x = s_keyId s \<and> t_permissions x = s_permissions s \<and>
        (authenticated s \<or> \<not> is_denied (auth_of c now today req (Some m) v))"
    proof (cases "authenticated s'")
      case True
      with r k show ?thesis by (auto simp: ctx_of_session_def)
    next
      case False
      with r k show ?thesis by (auto simp: ctx_of_session_def split: if_split_asm)
    qed
    with assms(2) Pair Inr show ?thesis unfolding ctx_good_def by auto
  qed
qed

lemma initialize_good:
  assumes "createInitializeSession c now today newId req m v = (Inr x, v')"
  shows "\<not> is_denied (auth_of c now today req (Some m) v) \<and> t_keyId x = auth_key (auth_of c now today req (Some m) v) \<and>
    t_permissions x = auth_permissions (auth_of c now today req (Some m) v)"
  using assms unfolding createInitializeSession_def authenticate_split
  by (auto simp: ctx_of_auth_def Let_def split: if_split_asm option.split_asm prod.split_asm)

lemma allowed_initialize_good:
  assumes "(case dual_allow now ip None (v_limiter v) of (ok, l) \<Rightarrow>
      if ok then createInitializeSession c now today newId req m (v\<lparr>v_limiter := l\<rparr>)
      else (Inl r, v\<lparr>v_limiter := l\<rparr>)) = (Inr x, v')"
  shows "ctx_good c now today req m v x"
proof -
  obtain ok l where "dual_allow now ip None (v_limiter v) = (ok, l)" by fastforce
  with assms have "createInitializeSession c now today newId req m (v\<lparr>v_limiter := l\<rparr>) = (Inr x, v')" by (simp split: if_split_asm)
  from initialize_good [OF this] show ?thesis by (simp add: ctx_good_def)
qed

lemma obtain_good: "obtain_session c now today newId req m v = (Inr x, v') \<Longrightarrow> ctx_good c now today req m v x"
  unfolding obtain_session_def
  by (cases "session_of req") (simp_all add: resolve_good allowed_initialize_good split: if_split_asm)

lemma handled_call:
  assumes "handle_message c now today newId req m run other inherited v = ((r, Some (t, a)), v')"
  shows "\<exists>x v1 b. obtain_session c now today newId req m v = (Inr x, v1) \<and> a = inject_args (tool_ctx_of req x) b \<and>
    permitted (t_permissions x) t"
proof -
  obtain q v1 where q: "obtain_session c now today newId req m v = (q, v1)" by fastforce
  note r = assms [unfolded handle_message_def q prod.case]
  from r obtain x where x: "q = Inr x" by (cases q) auto
  obtain ok v2 where l: "message_limit now req m x v1 = (ok, v2)" by fastforce
  from r have "run_message c now req m x run other inherited v2 = ((r, Some (t, a)), v')" by (simp add: x l split: if_split_asm)
  then obtain msg v3 where msg: "injectSessionContext (tool_ctx_of req x) (pm_rpc m) = Some msg"
    and d: "dispatchAndRespond c now m msg x run other inherited v3 = ((r, Some (t, a)), v')"
    by (auto simp: run_message_def split: option.split_asm prod.split_asm)
  from d have "snd (dispatchJsonRpc run (other (t_keyId x) (t_groupKeyIds x) (t_mode x)) inherited (Some msg)) = Some (t, a)"
    by (simp add: dispatchAndRespond_def split: prod.split_asm)
  from call_is_injected [OF msg this] q x show ?thesis by (auto simp: tool_ctx_of_def)
qed

text \<open>
  C4. A tool called through POST /mcp acts for the session or for the credentials of the request: its key and its
  permissions are those of the live session that the request names, or those of the key that its credentials prove, never
  what the client wrote into the message; and these permissions allow the tool.
\<close>

theorem tool_calls_act_for_caller:
  assumes "handleMcpPost c now today newId req b run other inherited v = ((r, Some (t, a)), v')"
  shows "\<exists>m x. b = Message m \<and> ctx_good c now today req m v x \<and> permitted (t_permissions x) t \<and>
    map_of a ''_keyId'' = Some (js_str (t_keyId x)) \<and> map_of a ''_permissions'' = Some (js_list (t_permissions x))"
proof -
  from assms obtain m where m: "b = Message m" "handle_message c now today newId req m run other inherited v = ((r, Some (t, a)), v')"
    by (auto simp: handleMcpPost_def split: if_split_asm body.split_asm)
  from handled_call [OF m(2)] obtain x v1 d where x: "obtain_session c now today newId req m v = (Inr x, v1)"
    "a = inject_args (tool_ctx_of req x) d" "permitted (t_permissions x) t" by blast
  have "map_of a ''_keyId'' = Some (js_str (t_keyId x))" "map_of a ''_permissions'' = Some (js_list (t_permissions x))"
    unfolding x(2) injected_key injected_permissions by (simp_all add: tool_ctx_of_def)
  with m(1) x(3) obtain_good [OF x(1)] show ?thesis by blast
qed

section \<open>Sessions and keys\<close>

lemma existing_session:
  assumes "session_of req = Some i" "i \<noteq> []" "authenticated s" "s_groupKeyIds s = Some (g # gs)"
    and "validateStreamableSession (c_sess c) now i (reanchor_version c req) (v_sessions v) = (Inr s, st)"
  shows "obtain_session c now today newId req m v = (Inr (ctx_of_session i s (Some (g # gs))), v\<lparr>v_sessions := st\<rparr>)"
  using assms by (simp add: obtain_session_def resolveExistingSession_def refetch_groups_def)

lemma protocol_any: "fst (validateProtocolVersion c req m i v) = fst (validateProtocolVersion c req m i v')"
  by (simp add: validateProtocolVersion_def split: option.split)

lemma dispatch_any: "fst (dispatchAndRespond c now m msg x run other inherited v) = fst (dispatchAndRespond c now m msg x run other inherited v')"
  by (simp add: dispatchAndRespond_def split: prod.split)

lemma run_any: "fst (run_message c now req m x run other inherited v) = fst (run_message c now req m x run other inherited v')"
proof (cases "injectSessionContext (tool_ctx_of req x) (pm_rpc m)")
  case (Some msg)
  obtain p v1 p' v1' where p: "validateProtocolVersion c req m (t_sessionId x) v = (p, v1)"
    "validateProtocolVersion c req m (t_sessionId x) v' = (p', v1')" by fastforce
  with protocol_any [of c req m "t_sessionId x" v v'] have "p' = p" by simp
  with Some p show ?thesis
    using dispatch_any [of c now m msg x run other inherited v1 v1'] by (simp add: run_message_def split: option.split)
qed (simp add: run_message_def)

lemma limit_any: "v_limiter w = v_limiter v \<Longrightarrow> fst (message_limit now req m x w) = fst (message_limit now req m x v)"
  by (simp add: message_limit_def split: prod.split)


section \<open>Rotation by others\<close>

lemma rotate_in_memory:
  assumes "map_of (streamableSessions st) i = Some e" "now \<le> expiresAt e" "newId \<noteq> i"
  obtains ex st' s where "rotateSession c now newId i st = (Inr (i, newId, ex, s_keyId e, s_defaultWorkspace e), st')"
    "map_of (streamableSessions st') newId = Some s" "ident s = ident e" "expiresAt s = now + SESSION_TTL_MS c"
    "map_of (streamableSessions st') i = None"
proof -
  let ?st1 = "createStreamableSessionWithId c now newId (authenticated e) (s_keyId e) (s_groupKeyIds e)
                (s_permissions e) (s_defaultWorkspace e) (s_mode e) None st"
  let ?st2 = "close_session c i False ?st1"
  obtain s where s: "map_of (streamableSessions ?st1) newId = Some s" "expiresAt s = now + SESSION_TTL_MS c" "ident s = ident e"
    using map_of_create by (metis ident_def)
  have old: "map_of (streamableSessions ?st1) i \<noteq> None" using assms(1,3) by simp
  have "rotateSession c now newId i st = (Inr (i, newId, expiresAt s, s_keyId e, s_defaultWorkspace e), ?st2)"
    using assms old s(1) by (simp add: rotateSession_def Let_def)
  then show thesis by (rule that) (use s assms(3) in auto)
qed

text \<open>
  C6. Whoever may authenticate may take over a session: rotation does not compare the key of the caller with the key of
  the session.  With any valid credentials and the id of a live session of another key, the caller gets a new id, and
  under that id every request acts with the key and the permissions of that other key, while its owner is cut off.
\<close>

theorem rotation_takes_any_session:
  assumes "isRotateOriginAllowed c req"
    and "fst (fst (checkRotateRateLimit (c_rotateLimit c) now (hr_forwardedFor req) (hr_remoteAddress req) (v_rotate v)))"
    and "\<not> is_denied (auth_of c now today req None v)"
    and "hr_sessionHeader req = Some i" "i \<noteq> []" "newId \<notin> {i, []}"
    and "map_of (streamableSessions (v_sessions v)) i = Some e" "now \<le> expiresAt e" "authenticated e"
    and "s_groupKeyIds e = Some (g # gs)" "session_of req' = Some newId" "later \<le> now + SESSION_TTL_MS (c_sess c)"
  shows "\<exists>ex v1 x v2. handleSessionRotate c now today newId req v = (Inr (i, newId, ex), v1) \<and>
    obtain_session c later today' newId' req' m v1 = (Inr x, v2) \<and> t_keyId x = s_keyId e \<and> t_permissions x = s_permissions e \<and>
    t_groupKeyIds x = s_groupKeyIds e \<and> map_of (streamableSessions (v_sessions v1)) i = None"
proof -
  obtain rt rs where rl: "checkRotateRateLimit (c_rotateLimit c) now (hr_forwardedFor req) (hr_remoteAddress req) (v_rotate v) = ((True, rt), rs)"
    using assms(2) by (metis prod.collapse)
  let ?v1 = "auth_after c now today req None (v\<lparr>v_rotate := rs\<rparr>)"
  have "map_of (streamableSessions (v_sessions ?v1)) i = Some e" using assms(7) by simp
  then obtain ex st s where rot: "rotateSession (c_sess c) now newId i (v_sessions ?v1) = (Inr (i, newId, ex, s_keyId e, s_defaultWorkspace e), st)"
    "map_of (streamableSessions st) newId = Some s" "ident s = ident e" "expiresAt s = now + SESSION_TTL_MS (c_sess c)"
    "map_of (streamableSessions st) i = None"
    by (rule rotate_in_memory) (use assms(6,8) in auto)
  let ?w = "?v1\<lparr>v_sessions := st\<rparr>"
  have h: "handleSessionRotate c now today newId req v = (Inr (i, newId, ex), ?w)"
    using assms(1,3-5) rl rot(1) by (simp add: handleSessionRotate_def Let_def authenticate_split)
  let ?s = "s\<lparr>lastAccessedAt := later, expiresAt := later + SESSION_TTL_MS (c_sess c)\<rparr>"
  have id: "authenticated ?s" "s_groupKeyIds ?s = Some (g # gs)" "s_keyId s = s_keyId e" "s_permissions s = s_permissions e"
    using rot(3) assms(9,10) by (simp_all add: ident_def)
  obtain st2 where val: "validateStreamableSession (c_sess c) later newId (reanchor_version c req') (v_sessions ?w) = (Inr ?s, st2)"
    using validate_in_memory(1) [of "v_sessions ?w" newId s "c_sess c" later "reanchor_version c req'"] rot(2,4) assms(12)
    by (cases "validateStreamableSession (c_sess c) later newId (reanchor_version c req') (v_sessions ?w)") simp
  have "newId \<noteq> []" using assms(6) by simp
  note o = existing_session [OF assms(11) this id(1,2) val]
  show ?thesis
    by (intro exI conjI, rule h, rule o) (use id rot(5) assms(10) in \<open>simp_all add: ctx_of_session_def\<close>)
qed

section \<open>The legacy transport without an access key\<close>

lemma map_of_map_at: "map_of (map (\<lambda>(j, s). (j, if j = n then f s else s)) xs) k = map_option (\<lambda>s. if k = n then f s else s) (map_of xs k)"
  by (induction xs) auto


section \<open>Deletion\<close>

lemma closed_is_unknown:
  assumes "S_REDIS_ENABLED c \<longrightarrow> up (session_redis st)" "map_of (streamableSessions st) i \<noteq> None"
  shows "fst (validateStreamableSession c t i ver (closeStreamableSession c i False st)) = Inl ''Session not found''"
  using assms
  by (auto simp: closeStreamableSession_def close_session_def validateStreamableSession_def find_session_def getSession_def
      redis_get_def deleteSession_def redis_del_def store_simps Let_def split: option.split)

lemma saved_up [simp]: "up (session_redis (save_redis c now i s ttl st)) = up (session_redis st)"
  by (simp add: save_redis_def saveSession_def)

lemma closed_up [simp]: "up (session_redis (closeStreamableSession c i p st)) = up (session_redis st)"
  by (simp add: closeStreamableSession_def close_session_def deleteSession_def Let_def split: option.split)

lemma put_up [simp]: "session_redis (put_session i s st) = session_redis st"
  by (simp add: put_session_def)

lemma found_up: "up (session_redis (snd (find_session c now i ver st))) = up (session_redis st)"
  by (simp add: find_session_def Let_def split: option.split)

lemma validated_up: "up (session_redis (snd (validateStreamableSession c now i ver st))) = up (session_redis st)"
  using found_up [of c now i ver st] by (auto simp: validateStreamableSession_def Let_def split: prod.split option.split)

lemma validated_stored: "validateStreamableSession c now i ver st = (Inr s, st') \<Longrightarrow> map_of (streamableSessions st') i = Some s"
  by (auto simp: validateStreamableSession_def Let_def split: option.split_asm prod.split_asm if_split_asm)

text \<open>
  C27. Only the owner ends a session: DELETE /mcp answers 200 exactly when the origin is allowed, the session is alive, and
  the request proves the master key or the key of the session; then the id is unknown from that moment on, in memory and
  (with a working connection) in Redis.
\<close>

theorem only_owner_deletes:
  assumes "S_REDIS_ENABLED (c_sess c) \<longrightarrow> up (session_redis (v_sessions v))"
  shows "(fst (handleMcpDelete c now today req v) = Status 200 [] \<longleftrightarrow>
           isOriginAllowed c req \<and>
           (\<exists>i s. session_of req = Some i \<and> i \<noteq> [] \<and> fst (validateStreamableSession (c_sess c) now i None (v_sessions v)) = Inr s \<and>
              \<not> is_denied (auth_of c now today req None v) \<and> auth_key (auth_of c now today req None v) \<in> {None, s_keyId s})) \<and>
         (fst (handleMcpDelete c now today req v) = Status 200 [] \<longrightarrow>
           fst (validateStreamableSession (c_sess c) later (the (session_of req)) ver (v_sessions (snd (handleMcpDelete c now today req v)))) =
             Inl ''Session not found'')"
proof (cases "isOriginAllowed c req \<and> truthy (session_of req)")
  case True
  then obtain i where i: "session_of req = Some i" "i \<noteq> []" by (auto elim: truthyE)
  obtain q st where q: "validateStreamableSession (c_sess c) now i None (v_sessions v) = (q, st)" by fastforce
  show ?thesis
  proof (cases q)
    case (Inl reason)
    with True i q show ?thesis by (auto simp: handleMcpDelete_def Let_def)
  next
    case (Inr s)
    let ?r = "auth_of c now today req None v"
    have h: "handleMcpDelete c now today req v =
       (let v1 = auth_after c now today req None (v\<lparr>v_sessions := st\<rparr>) in
        if is_denied ?r then (Status 401 ''Unauthorized'', v1)
        else if auth_key ?r \<noteq> None \<and> auth_key ?r \<noteq> s_keyId s then (Status 403 ''Forbidden'', v1)
        else (Status 200 [], v1\<lparr>v_sessions := closeStreamableSession (c_sess c) i False st\<rparr>))"
      using True i q Inr by (simp add: handleMcpDelete_def Let_def authenticate_split)
    have "S_REDIS_ENABLED (c_sess c) \<longrightarrow> up (session_redis st)" "map_of (streamableSessions st) i \<noteq> None"
      using validated_up [of "c_sess c" now i None "v_sessions v"] validated_stored [OF q [unfolded Inr]] q assms by auto
    from closed_is_unknown [OF this] show ?thesis using True i q Inr by (auto simp: h Let_def)
  qed
qed (auto simp: handleMcpDelete_def)

section \<open>The address that is counted\<close>

text \<open>One request after another at the limiter of the addresses.\<close>

fun initialize_run :: "dual_limiter \<Rightarrow> (int \<times> http_request) list \<Rightarrow> bool list" where
  "initialize_run d [] = []"
| "initialize_run d ((t, req) # rs) =
     (case dual_allow t (clientIp_of req) None d of (ok, d') \<Rightarrow> ok # initialize_run d' rs)"

lemma fresh_address:
  assumes "map_of (buckets (ipLimiter d)) (''ip:'' @ a) = None" "0 < maxRequests (ipLimiter d)"
  obtains d' where "dual_allow t a None d = (True, d')" "maxRequests (ipLimiter d') = maxRequests (ipLimiter d)"
    "\<And>x. x \<noteq> a \<Longrightarrow> map_of (buckets (ipLimiter d')) (''ip:'' @ x) = map_of (buckets (ipLimiter d)) (''ip:'' @ x)"
  using assms by (simp add: dual_allow_def allow_def hits_of_def expire_hits_def Let_def store_simps)

text \<open>
  The forwarding header evades the limit: a client that writes a new address into \<open>X-Forwarded-For\<close> for every
  request is always admitted, however many requests it makes in a window and whatever the address of its connection is.
\<close>

theorem forwarded_header_evades_limit:
  assumes "distinct (map (clientIp_of \<circ> snd) rs)" "0 < maxRequests (ipLimiter d)"
    and "list_all (\<lambda>r. map_of (buckets (ipLimiter d)) (''ip:'' @ clientIp_of (snd r)) = None) rs"
  shows "initialize_run d rs = replicate (length rs) True"
  using assms
proof (induction rs arbitrary: d)
  case (Cons r rs)
  obtain t req where r: "r = (t, req)" by fastforce
  from Cons.prems(2,3) obtain d' where d: "dual_allow t (clientIp_of req) None d = (True, d')"
      "maxRequests (ipLimiter d') = maxRequests (ipLimiter d)"
      "\<And>x. x \<noteq> clientIp_of req \<Longrightarrow> map_of (buckets (ipLimiter d')) (''ip:'' @ x) = map_of (buckets (ipLimiter d)) (''ip:'' @ x)"
    by (rule_tac t = t in fresh_address [of d "clientIp_of req"]) (simp_all add: r)
  have "map_of (buckets (ipLimiter d')) (''ip:'' @ clientIp_of (snd q)) = None" if "q \<in> set rs" for q
  proof -
    have "clientIp_of (snd q) \<noteq> clientIp_of req" using Cons.prems(1) that by (force simp: r)
    from d(3) [OF this] show ?thesis using Cons.prems(3) that by (simp add: list_all_iff)
  qed
  then have "initialize_run d' rs = replicate (length rs) True"
    using Cons.prems by (intro Cons.IH) (simp_all add: d(2) list_all_iff)
  then show ?case by (simp add: r d(1))
qed simp

section \<open>Reuse of sessions by token\<close>

text \<open>
  An \<open>initialize\<close> with a token that is bound to a live session gives that session back, under its old id, and leaves
  the session as it was: the permissions, the workspace and the mode that the new request would get apply to its own
  answer only, the requests after it have those of the old session.
\<close>

theorem token_reuses_session:
  assumes "session_of req = None" "is_initialize m" "fst (dual_allow now (clientIp_of req) None (v_limiter v))"
    and "\<not> is_denied (auth_of c now today req (Some m) v)"
    and "deriveTokenKey c req m (auth_of c now today req (Some m) v) = Some tk" "getSessionIdByToken now tk (v_tokens v) = Some i"
    and "map_of (streamableSessions (v_sessions v)) i = Some s" "now \<le> expiresAt s"
  shows "\<exists>x v1 s'. obtain_session c now today newId req m v = (Inr x, v1) \<and> t_sessionId x = i \<and>
    t_mode x = request_mode c req m (auth_mode (auth_of c now today req (Some m) v)) \<and>
    t_permissions x = auth_permissions (auth_of c now today req (Some m) v) \<and>
    map_of (streamableSessions (v_sessions v1)) i = Some s' \<and> ident s' = ident s"
proof -
  obtain l where l: "dual_allow now (clientIp_of req) None (v_limiter v) = (True, l)" using assms(3) by (metis prod.collapse)
  let ?v = "auth_after c now today req (Some m) (v\<lparr>v_limiter := l\<rparr>)"
  note val = validate_in_memory [OF assms(7), where c = "c_sess c" and t = now and ver = None]
  let ?s = "s\<lparr>lastAccessedAt := now, expiresAt := now + SESSION_TTL_MS (c_sess c)\<rparr>"
  obtain st where st: "validateStreamableSession (c_sess c) now i None (v_sessions v) = (Inr ?s, st)"
    "map_of (streamableSessions st) i = Some ?s"
    using val assms(8) by (cases "validateStreamableSession (c_sess c) now i None (v_sessions v)") simp
  have "reusable_session c now (Some tk) ?v = (Some i, ?v\<lparr>v_sessions := st\<rparr>)"
    using assms(6) st(1) by (simp add: reusable_session_def)
  then have "obtain_session c now today newId req m v =
      (Inr (ctx_of_auth i (auth_of c now today req (Some m) v) (request_mode c req m (auth_mode (auth_of c now today req (Some m) v)))),
       ?v\<lparr>v_sessions := st\<rparr>)"
    using assms(1,2,4,5) l by (simp add: obtain_session_def createInitializeSession_def authenticate_split Let_def)
  then show ?thesis using st(2) by (auto simp: ctx_of_auth_def)
qed

section \<open>A server with two tenants\<close>

definition sample_server_cfg :: "string \<Rightarrow> server_cfg" where
  "sample_server_cfg key =
     \<lparr>c_oauth = sample_cfg\<lparr>ACCESS_KEY := key\<rparr>, c_sess = sample_sess_cfg False, c_authDisabled = False, c_reject = True, c_presets = [],
      c_strictOrigin = False, c_allowedOrigins = [], c_adminOrigins = [], c_rotateLimit = None\<rparr>"

definition sample_server :: server where
  "sample_server =
     \<lparr>v_sessions = createStreamableSessionWithId (sample_sess_cfg False) 0 ''i'' True (Some ''k1'') (Some [''k1'']) (Some [''read''])
        None None None empty_sess,
      v_tokens = \<lparr>up = True, data = [(getTokenSessionKey ''k1:1_a_mdw'', (''i'', 1000000))]\<rparr>, v_limiter = new_dual 60000 10 10,
      v_rotate = [], v_oauth = empty_oauth, v_keys = sample_db, v_legacy = []\<rparr>"

definition sample_http :: "string \<Rightarrow> string option \<Rightarrow> http_request" where
  "sample_http token i =
     \<lparr>hr_credentials = sample_request token, hr_origin = None, hr_forwardedFor = None, hr_remoteAddress = Some ''127.0.0.1'',
      hr_sessionHeader = i, hr_sessionParam = i, hr_mcpSessionParam = None, hr_protocol = Some ''v1'', hr_modeHeader = None,
      hr_userAgent = None\<rparr>"

definition sample_post :: "rpc_msg \<Rightarrow> post_message" where
  "sample_post m = \<lparr>pm_rpc = m, pm_accessKey = None, pm_initMode = None\<rparr>"

lemmas sample_defs = sample_server_cfg_def sample_server_def sample_http_def sample_post_def

lemma made_call: "map_option fst (snd (fst p)) = Some t \<Longrightarrow> \<exists>r a v. p = ((r, Some (t, a)), v)"
  by (cases p) auto

lemma recall_runs:
  "map_option fst (snd (fst (handleMcpPost (sample_server_cfg ''master'') 5 0 ''n'' (sample_http ''x'' (Some ''i''))
     (Message (sample_post (sample_call ''recall''))) (\<lambda>t a. Inr JNull) (\<lambda>k g m n. Inr JNull) (\<lambda>n. Inr JNull) sample_server))) = Some ''recall''"
  by code_simp

lemma tool_calls_act_for_caller_witness:
  "\<exists>r a v' m x. handleMcpPost (sample_server_cfg ''master'') 5 0 ''n'' (sample_http ''x'' (Some ''i''))
       (Message (sample_post (sample_call ''recall''))) (\<lambda>t a. Inr JNull) (\<lambda>k g m n. Inr JNull) (\<lambda>n. Inr JNull) sample_server =
       ((r, Some (''recall'', a)), v') \<and>
     ctx_good (sample_server_cfg ''master'') 5 0 (sample_http ''x'' (Some ''i'')) m sample_server x \<and>
     map_of a ''_keyId'' = Some (js_str (t_keyId x))"
proof -
  obtain r a v' where h: "handleMcpPost (sample_server_cfg ''master'') 5 0 ''n'' (sample_http ''x'' (Some ''i''))
       (Message (sample_post (sample_call ''recall''))) (\<lambda>t a. Inr JNull) (\<lambda>k g m n. Inr JNull) (\<lambda>n. Inr JNull) sample_server =
       ((r, Some (''recall'', a)), v')"
    using made_call [OF recall_runs] by blast
  from tool_calls_act_for_caller [OF h] h show ?thesis by blast
qed

lemma sample_session_valid:
  "\<exists>s st. validateStreamableSession (sample_sess_cfg False) 5 ''i'' w (v_sessions sample_server) = (Inr s, st) \<and>
     authenticated s \<and> s_groupKeyIds s = Some [''k1''] \<and> s_keyId s = Some ''k1''"
  by (simp add: sample_server_def sess_defs)

lemma sample_http_session [simp]: "session_of (sample_http t i) = js_or i (js_or i None)"
  by (simp add: session_of_def sample_http_def)


lemma rotation_takes_any_session_witness:
  "\<exists>ex v1 x v2. handleSessionRotate (sample_server_cfg ''master'') 5 0 ''n'' (sample_http ''wdm_b_2'' (Some ''i'')) sample_server =
       (Inr (''i'', ''n'', ex), v1) \<and>
     obtain_session (sample_server_cfg ''master'') 6 0 ''z'' (sample_http ''wdm_b_2'' (Some ''n'')) (sample_post (sample_call ''recall'')) v1 =
       (Inr x, v2) \<and> t_keyId x = Some ''k1'' \<and>
     auth_key (auth_of (sample_server_cfg ''master'') 5 0 (sample_http ''wdm_b_2'' (Some ''i'')) None sample_server) = Some ''k2''"
proof -
  let ?c = "sample_server_cfg ''master''" and ?q = "sample_http ''wdm_b_2'' (Some ''i'')"
  obtain e where e: "map_of (streamableSessions (v_sessions sample_server)) ''i'' = Some e" "5 \<le> expiresAt e" "authenticated e"
    "s_groupKeyIds e = Some (''k1'' # [])" "s_keyId e = Some ''k1''"
    by (simp add: sample_server_def sess_defs)
  have k: "auth_key (auth_of ?c 5 0 ?q None sample_server) = Some ''k2''" by code_simp
  then have d: "\<not> is_denied (auth_of ?c 5 0 ?q None sample_server)" by (cases "auth_of ?c 5 0 ?q None sample_server") (simp_all add: auth_key_def)
  have o: "isRotateOriginAllowed ?c ?q" by code_simp
  have l: "fst (fst (checkRotateRateLimit (c_rotateLimit ?c) 5 (hr_forwardedFor ?q) (hr_remoteAddress ?q) (v_rotate sample_server)))"
    by code_simp
  have h: "hr_sessionHeader ?q = Some ''i''" "session_of (sample_http ''wdm_b_2'' (Some ''n'')) = Some ''n''"
    "6 \<le> 5 + SESSION_TTL_MS (c_sess ?c)" by (simp_all add: sample_http_def session_of_def sample_server_cfg_def sample_sess_cfg_def)
  from rotation_takes_any_session [OF o l d h(1) _ _ e(1-4) h(2,3), of 0 "''z''" "sample_post (sample_call ''recall'')"] k e(5)
  show ?thesis by auto
qed


lemma only_owner_deletes_witness:
  "fst (handleMcpDelete (sample_server_cfg ''master'') 5 0 (sample_http ''wdm_a_1'' (Some ''i'')) sample_server) = Status 200 [] \<and>
   fst (handleMcpDelete (sample_server_cfg ''master'') 5 0 (sample_http ''wdm_b_2'' (Some ''i'')) sample_server) = Status 403 ''Forbidden'' \<and>
   fst (validateStreamableSession (sample_sess_cfg False) 6 ''i'' None
     (v_sessions (snd (handleMcpDelete (sample_server_cfg ''master'') 5 0 (sample_http ''wdm_a_1'' (Some ''i'')) sample_server)))) =
     Inl ''Session not found''"
proof -
  have d: "fst (handleMcpDelete (sample_server_cfg ''master'') 5 0 (sample_http ''wdm_a_1'' (Some ''i'')) sample_server) = Status 200 []"
    "fst (handleMcpDelete (sample_server_cfg ''master'') 5 0 (sample_http ''wdm_b_2'' (Some ''i'')) sample_server) = Status 403 ''Forbidden''"
    by code_simp+
  have c: "c_sess (sample_server_cfg ''master'') = sample_sess_cfg False" by (simp add: sample_server_cfg_def)
  have "S_REDIS_ENABLED (c_sess (sample_server_cfg ''master'')) \<longrightarrow> up (session_redis (v_sessions sample_server))"
    by (simp add: c sample_sess_cfg_def)
  from only_owner_deletes [OF this, THEN conjunct2, rule_format, OF d(1)] d show ?thesis by (simp add: c)
qed

lemma forwarded_header_evades_limit_witness:
  "initialize_run (new_dual 60000 1 1)
     (map (\<lambda>a. (0, (sample_http ''x'' None)\<lparr>hr_forwardedFor := Some a\<rparr>)) [''1'', ''2'', ''3'']) = [True, True, True]"
proof -
  let ?rs = "map (\<lambda>a. (0 :: int, (sample_http ''x'' None)\<lparr>hr_forwardedFor := Some a\<rparr>)) [''1'', ''2'', ''3'']"
  have "distinct (map (clientIp_of \<circ> snd) ?rs)" by code_simp
  from forwarded_header_evades_limit [OF this, of "new_dual 60000 1 1"] show ?thesis
    by (simp add: new_dual_def new_limiter_def eval_nat_numeral)
qed

lemma token_reuses_session_witness:
  "\<exists>x v1. obtain_session (sample_server_cfg ''master'') 5 0 ''n'' (sample_http ''wdm_a_1'' None)
     (sample_post ((sample_call ''x'')\<lparr>rpc_method := JStr ''initialize''\<rparr>)) sample_server = (Inr x, v1) \<and> t_sessionId x = ''i''"
proof -
  let ?c = "sample_server_cfg ''master''" and ?q = "sample_http ''wdm_a_1'' None"
  let ?m = "sample_post ((sample_call ''x'')\<lparr>rpc_method := JStr ''initialize''\<rparr>)"
  have k: "auth_key (auth_of ?c 5 0 ?q (Some ?m) sample_server) = Some ''k1''" by code_simp
  then have d: "\<not> is_denied (auth_of ?c 5 0 ?q (Some ?m) sample_server)"
    by (cases "auth_of ?c 5 0 ?q (Some ?m) sample_server") (simp_all add: auth_key_def)
  have n: "session_of ?q = None" by simp
  have i: "is_initialize ?m" "fst (dual_allow 5 (clientIp_of ?q) None (v_limiter sample_server))" by code_simp+
  have t: "deriveTokenKey ?c ?q ?m (auth_of ?c 5 0 ?q (Some ?m) sample_server) = Some ''k1:1_a_mdw''" by code_simp
  have g: "getSessionIdByToken 5 ''k1:1_a_mdw'' (v_tokens sample_server) = Some ''i''" by code_simp
  obtain s where s: "map_of (streamableSessions (v_sessions sample_server)) ''i'' = Some s" "5 \<le> expiresAt s"
    by (simp add: sample_server_def sess_defs)
  from token_reuses_session [OF n i d t g s, of "''n''"] show ?thesis by blast
qed

end
